(* ===== verification/Prelude.thy ===== *)
theory Prelude
  imports Main "HOL-Library.Word"
begin

text \<open>
  Shared ground of the development: the machine-integer types of the code, the error type of
  \<^verbatim>\<open>crates/pglite/src/error.rs\<close>, Rust's \<open>Result\<close> as a sum with its \<open>?\<close> operator (\<open>bindR\<close>),
  stateful fallible computations (\<open>act\<close>, \<open>bindA\<close>, \<open>forA\<close>), and the generic lemmas and
  collections the component theories share.
\<close>

unbundle bit_operations_syntax

section \<open>Machine integers\<close>

type_synonym u8 = "8 word"
type_synonym u16 = "16 word"
type_synonym u32 = "32 word"
type_synonym u64 = "64 word"

text \<open>Signed Rust integers are the same words; \<open>sint\<close> reads them.\<close>

type_synonym i32 = "32 word"
type_synonym i64 = "64 word"
type_synonym bytes = "u8 list"

section \<open>Errors\<close>

text \<open>The kinds of \<open>std::io::Error\<close> the code tells apart, and the message it prints.\<close>

datatype io_kind = WouldBlock | TimedOut | UnexpectedEof | OtherKind

datatype error =
    Database (sqlstate: string) (message: string) (detail: "string option") (hint: "string option")
  | AlreadyOpen
  | ReopenUnsupported
  | Closed
  | Io io_kind string
  | Protocol string
  | Boot string
  | PostmasterStart string
  | PoolExhausted
  | ReplicaConfigError string
  | Upstream string
  | ReplicaHalted string
  | LsnError string

text \<open>The \<open>Display\<close> instance derived by \<open>thiserror\<close>.\<close>

fun error_to_string :: "error \<Rightarrow> string" where
  "error_to_string (Database st m _ _) = ''database error '' @ st @ '': '' @ m"
| "error_to_string AlreadyOpen = ''a PGlite instance is already open in this process''"
| "error_to_string ReopenUnsupported =
     ''PGlite cannot reopen after close within the same process; spawn a new process to reopen''"
| "error_to_string Closed = ''the PGlite instance is closed''"
| "error_to_string (Io _ m) = m"
| "error_to_string (Protocol m) = ''protocol error: '' @ m"
| "error_to_string (Boot m) = ''boot failed: '' @ m"
| "error_to_string (PostmasterStart m) = ''postmaster failed to start: '' @ m"
| "error_to_string PoolExhausted =
     ''connection pool exhausted: no connection became free within the acquire timeout''"
| "error_to_string (ReplicaConfigError m) = ''replica config error: '' @ m"
| "error_to_string (Upstream m) = ''upstream error: '' @ m"
| "error_to_string (ReplicaHalted m) = ''replica halted: '' @ m"
| "error_to_string (LsnError m) = ''invalid lsn: '' @ m"

section \<open>Results\<close>

named_theorems result_simps \<open>rewriting of the result and action combinators\<close>

type_synonym 'a res = "error + 'a"

definition bindR :: "'e + 'a \<Rightarrow> ('a \<Rightarrow> 'e + 'b) \<Rightarrow> 'e + 'b" where
  "bindR r f = (case r of Inl e \<Rightarrow> Inl e | Inr x \<Rightarrow> f x)"

definition mapR :: "('a \<Rightarrow> 'b) \<Rightarrow> 'e + 'a \<Rightarrow> 'e + 'b" where
  "mapR f r = (case r of Inl e \<Rightarrow> Inl e | Inr x \<Rightarrow> Inr (f x))"

definition ok_or :: "'e \<Rightarrow> 'a option \<Rightarrow> 'e + 'a" where
  "ok_or e v = (case v of None \<Rightarrow> Inl e | Some x \<Rightarrow> Inr x)"

definition is_ok :: "'e + 'a \<Rightarrow> bool" where
  "is_ok r = (case r of Inl _ \<Rightarrow> False | Inr _ \<Rightarrow> True)"

lemma bindR_simps [simp, result_simps]:
  "bindR (Inl e) f = Inl e"
  "bindR (Inr x) f = f x"
  by (simp_all add: bindR_def)

lemma bindR_eq_Inr [simp]: "bindR r f = Inr y \<longleftrightarrow> (\<exists>x. r = Inr x \<and> f x = Inr y)"
  by (cases r) simp_all

lemma bindR_eq_Inl: "bindR r f = Inl e \<longleftrightarrow> r = Inl e \<or> (\<exists>x. r = Inr x \<and> f x = Inl e)"
  by (cases r) simp_all

lemma bindR_assoc: "bindR (bindR r f) g = bindR r (\<lambda>x. bindR (f x) g)"
  by (cases r) simp_all

lemma bindR_cong [fundef_cong]:
  "r = r' \<Longrightarrow> (\<And>x. r' = Inr x \<Longrightarrow> f x = g x) \<Longrightarrow> bindR r f = bindR r' g"
  by (cases r') simp_all

lemma mapR_simps [simp, result_simps]:
  "mapR f (Inl e) = Inl e"
  "mapR f (Inr x) = Inr (f x)"
  by (simp_all add: mapR_def)

lemma mapR_eq_Inr [simp]: "mapR f r = Inr y \<longleftrightarrow> (\<exists>x. r = Inr x \<and> y = f x)"
  by (cases r) auto

lemma ok_or_simps [simp, result_simps]:
  "ok_or e None = Inl e"
  "ok_or e (Some x) = Inr x"
  by (simp_all add: ok_or_def)

lemma ok_or_eq_Inr [simp]: "ok_or e v = Inr x \<longleftrightarrow> v = Some x"
  by (cases v) simp_all

lemma ok_or_eq_Inl [simp]: "ok_or e v = Inl e' \<longleftrightarrow> v = None \<and> e' = e"
  by (cases v) auto

lemma is_ok_simps [simp, result_simps]:
  "is_ok (Inl e) = False"
  "is_ok (Inr x) = True"
  by (simp_all add: is_ok_def)

lemma is_ok_iff: "is_ok r \<longleftrightarrow> (\<exists>x. r = Inr x)"
  by (cases r) simp_all

section \<open>Stateful fallible computations\<close>

text \<open>
  An action reads and writes the world \<open>'s\<close> and returns a \<open>Result\<close>. The world keeps what was done
  before an error, as the code's side effects do.
\<close>

type_synonym ('s, 'a) act = "'s \<Rightarrow> 'a res \<times> 's"

definition retA :: "'a \<Rightarrow> ('s, 'a) act" where
  "retA x = (\<lambda>s. (Inr x, s))"

definition failA :: "error \<Rightarrow> ('s, 'a) act" where
  "failA e = (\<lambda>s. (Inl e, s))"

definition liftA :: "'a res \<Rightarrow> ('s, 'a) act" where
  "liftA r = (\<lambda>s. (r, s))"

definition bindA :: "('s, 'a) act \<Rightarrow> ('a \<Rightarrow> ('s, 'b) act) \<Rightarrow> ('s, 'b) act" where
  "bindA m f = (\<lambda>s. case m s of (Inl e, s') \<Rightarrow> (Inl e, s') | (Inr x, s') \<Rightarrow> f x s')"

fun forA :: "'a list \<Rightarrow> ('a \<Rightarrow> ('s, unit) act) \<Rightarrow> ('s, unit) act" where
  "forA [] f = retA ()"
| "forA (x # xs) f = bindA (f x) (\<lambda>_. forA xs f)"

fun foldA :: "'a list \<Rightarrow> 'b \<Rightarrow> ('b \<Rightarrow> 'a \<Rightarrow> ('s, 'b) act) \<Rightarrow> ('s, 'b) act" where
  "foldA [] b f = retA b"
| "foldA (x # xs) b f = bindA (f b x) (\<lambda>b'. foldA xs b' f)"

lemma retA_apply [simp, result_simps]: "retA x s = (Inr x, s)"
  by (simp add: retA_def)

lemma failA_apply [simp, result_simps]: "failA e s = (Inl e, s)"
  by (simp add: failA_def)

lemma liftA_apply [simp, result_simps]: "liftA r s = (r, s)"
  by (simp add: liftA_def)

lemma bindA_apply [result_simps]:
  "bindA m f s = (case m s of (Inl e, s') \<Rightarrow> (Inl e, s') | (Inr x, s') \<Rightarrow> f x s')"
  by (simp add: bindA_def)

lemma bindA_Inr: "m s = (Inr x, s') \<Longrightarrow> bindA m f s = f x s'"
  by (simp add: bindA_def)

lemma bindA_Inl: "m s = (Inl e, s') \<Longrightarrow> bindA m f s = (Inl e, s')"
  by (simp add: bindA_def)

lemma bindA_eq_Inr:
  "bindA m f s = (Inr y, t) \<longleftrightarrow> (\<exists>x s'. m s = (Inr x, s') \<and> f x s' = (Inr y, t))"
  by (cases "m s"; cases "fst (m s)") (auto simp: bindA_def)

lemma bindA_eq_Inl:
  "bindA m f s = (Inl e, t) \<longleftrightarrow>
     m s = (Inl e, t) \<or> (\<exists>x s'. m s = (Inr x, s') \<and> f x s' = (Inl e, t))"
  by (cases "m s"; cases "fst (m s)") (auto simp: bindA_def)

lemma bindA_ret [simp]: "bindA (retA x) f = f x" "bindA (Pair (Inr x)) f = f x"
  by (simp_all add: bindA_def fun_eq_iff)

lemma bindA_fail [simp]: "bindA (failA e) f = failA e" "bindA (Pair (Inl e)) f = Pair (Inl e)"
  by (simp_all add: bindA_def fun_eq_iff)

lemma bindA_assoc: "bindA (bindA m f) g = bindA m (\<lambda>x. bindA (f x) g)"
  by (auto simp: bindA_def fun_eq_iff split: prod.splits sum.splits)

lemma forA_append: "forA (xs @ ys) f = bindA (forA xs f) (\<lambda>_. forA ys f)"
  by (induction xs) (simp_all add: bindA_assoc)

text \<open>An invariant of the world kept by every step of a loop is kept by the loop.\<close>

lemma forA_invariant:
  assumes "\<And>x s. x \<in> set xs \<Longrightarrow> P s \<Longrightarrow> P (snd (f x s))" and "P s"
  shows "P (snd (forA xs f s))"
  using assms
proof (induction xs arbitrary: s)
  case Nil
  then show ?case by simp
next
  case (Cons x xs)
  have "P (snd (f x s))" using Cons.prems by simp
  then show ?case
    using Cons.IH [of "snd (f x s)"] Cons.prems(1)
    by (cases "f x s"; cases "fst (f x s)") (auto simp: bindA_apply)
qed

section \<open>Lists\<close>

lemma list_all_True [simp]: "list_all (\<lambda>_. True) xs"
  by (induction xs) simp_all

lemma filter_map_comp: "filter P (map f xs) = map f (filter (\<lambda>x. P (f x)) xs)"
  by (induction xs) simp_all

text \<open>\<open>find\<close> of \<open>Iterator\<close>: the first element that satisfies the predicate.\<close>

lemma find_Some_D: "List.find P xs = Some x \<Longrightarrow> x \<in> set xs \<and> P x"
  by (auto simp: find_Some_iff)

section \<open>Machines\<close>

text \<open>
  A component whose tasks interleave is a partial step function on its state: an event that is not possible in a state
  has no successor. A run is a list of events.
\<close>

fun run_steps :: "('e \<Rightarrow> 's \<Rightarrow> 's option) \<Rightarrow> 'e list \<Rightarrow> 's \<Rightarrow> 's option" where
  "run_steps step [] s = Some s"
| "run_steps step (ev # evs) s = Option.bind (step ev s) (run_steps step evs)"

lemma run_steps_append:
  "run_steps step (xs @ ys) s = Option.bind (run_steps step xs s) (run_steps step ys)"
proof (induction xs arbitrary: s)
  case (Cons x xs)
  then show ?case by (cases "step x s") simp_all
qed simp

text \<open>An invariant of a machine, kept by the events that are allowed.\<close>

locale machine =
  fixes step :: "'e \<Rightarrow> 's \<Rightarrow> 's option"
    and allowed :: "'e \<Rightarrow> bool"
    and inv :: "'s \<Rightarrow> bool"
  assumes step_inv: "inv s \<Longrightarrow> step ev s = Some s' \<Longrightarrow> allowed ev \<Longrightarrow> inv s'"
begin

lemma run_inv: "run_steps step evs s = Some s' \<Longrightarrow> list_all allowed evs \<Longrightarrow> inv s \<Longrightarrow> inv s'"
proof (induction evs arbitrary: s)
  case (Cons ev evs)
  then obtain s1 where "step ev s = Some s1" "run_steps step evs s1 = Some s'"
    by (cases "step ev s") auto
  then show ?case using Cons step_inv [of s ev s1] by simp
qed simp

end

end
