(* ===== verification/Text.thy ===== *)
theory Text
  imports Prelude "HOL-Library.List_Lexorder" "HOL-Library.Char_ord"
begin

text \<open>
  What the code uses of Rust's \<open>str\<close> and \<open>String\<close>. A string is the list of its UTF-8 bytes, one
  \<open>char\<close> per byte, so lengths, comparisons and sorting are those of Rust. Every separator the code
  splits at is ASCII, so splitting bytes is splitting characters. \<open>List_Lexorder\<close> and \<open>Char_ord\<close>
  give the byte-wise order of \<open>Ord for str\<close>.
\<close>

abbreviation dq :: char where "dq \<equiv> CHR 0x22"
abbreviation sq :: char where "sq \<equiv> CHR 0x27"
abbreviation nl :: char where "nl \<equiv> CHR 0x0A"
abbreviation cr :: char where "cr \<equiv> CHR 0x0D"

section \<open>Replacing, joining and splitting\<close>

definition replace_char :: "char \<Rightarrow> string \<Rightarrow> string \<Rightarrow> string" where
  "replace_char c t s = concat (map (\<lambda>x. if x = c then t else [x]) s)"

fun join_str :: "string \<Rightarrow> string list \<Rightarrow> string" where
  "join_str sep [] = []"
| "join_str sep [x] = x"
| "join_str sep (x # y # ys) = x @ sep @ join_str sep (y # ys)"

fun split_on :: "char \<Rightarrow> string \<Rightarrow> string list" where
  "split_on c [] = [[]]"
| "split_on c (x # xs) =
     (if x = c then [] # split_on c xs
      else (case split_on c xs of [] \<Rightarrow> [[x]] | y # ys \<Rightarrow> (x # y) # ys))"

fun split_once :: "char \<Rightarrow> string \<Rightarrow> (string \<times> string) option" where
  "split_once c [] = None"
| "split_once c (x # xs) =
     (if x = c then Some ([], xs)
      else map_option (\<lambda>(a, b). (x # a, b)) (split_once c xs))"

definition rsplit_once :: "char \<Rightarrow> string \<Rightarrow> (string \<times> string) option" where
  "rsplit_once c s = map_option (\<lambda>(a, b). (rev b, rev a)) (split_once c (rev s))"

fun splitn :: "nat \<Rightarrow> char \<Rightarrow> string \<Rightarrow> string list" where
  "splitn 0 c s = []"
| "splitn (Suc 0) c s = [s]"
| "splitn (Suc (Suc n)) c s =
     (case split_once c s of None \<Rightarrow> [s] | Some (a, b) \<Rightarrow> a # splitn (Suc n) c b)"

definition strip_cr :: "string \<Rightarrow> string" where
  "strip_cr s = (if s \<noteq> [] \<and> last s = cr then butlast s else s)"

text \<open>\<open>str::lines\<close>: a carriage return goes only where a line feed follows it.\<close>

definition str_lines :: "string \<Rightarrow> string list" where
  "str_lines s =
     (let ps = split_on nl s
      in map strip_cr (butlast ps) @ (if last ps = [] then [] else [last ps]))"

section \<open>Numbers\<close>

definition digit_char :: "nat \<Rightarrow> char" where
  "digit_char d = (if d < 10 then char_of (48 + d) else char_of (55 + d))"

definition digit_val :: "nat \<Rightarrow> char \<Rightarrow> nat option" where
  "digit_val b c =
     (let n = (of_char c :: nat);
          v = (if 48 \<le> n \<and> n \<le> 57 then Some (n - 48)
               else if 65 \<le> n \<and> n \<le> 90 then Some (n - 55)
               else if 97 \<le> n \<and> n \<le> 122 then Some (n - 87) else None)
      in case v of None \<Rightarrow> None | Some d \<Rightarrow> if d < b then Some d else None)"

function to_radix :: "nat \<Rightarrow> nat \<Rightarrow> string" where
  "to_radix b n =
     (if n < b \<or> b < 2 then [digit_char n] else to_radix b (n div b) @ [digit_char (n mod b)])"
  by pat_completeness auto
termination
  by (relation "measure snd") (auto intro: div_less_dividend)

declare to_radix.simps [simp del]

abbreviation show_nat :: "nat \<Rightarrow> string" where "show_nat \<equiv> to_radix 10"

definition show_int :: "int \<Rightarrow> string" where
  "show_int i = (if i < 0 then CHR ''-'' # show_nat (nat (- i)) else show_nat (nat i))"

fun radix_acc :: "nat \<Rightarrow> nat \<Rightarrow> nat \<Rightarrow> string \<Rightarrow> nat option" where
  "radix_acc b mx acc [] = Some acc"
| "radix_acc b mx acc (c # cs) =
     (case digit_val b c of
        None \<Rightarrow> None
      | Some d \<Rightarrow> if acc * b + d > mx then None else radix_acc b mx (acc * b + d) cs)"

text \<open>
  \<open>from_str_radix\<close> of the unsigned integers: an optional plus sign, at least one digit, an error
  on overflow of the type (\<open>mx\<close> is its largest value).
\<close>

definition parse_radix :: "nat \<Rightarrow> nat \<Rightarrow> string \<Rightarrow> nat option" where
  "parse_radix b mx s =
     (case s of
        [] \<Rightarrow> None
      | c # cs \<Rightarrow> if c = CHR ''+'' then (if cs = [] then None else radix_acc b mx 0 cs)
                  else radix_acc b mx 0 s)"

abbreviation u32_max :: nat where "u32_max \<equiv> 4294967295"
abbreviation u64_max :: nat where "u64_max \<equiv> 18446744073709551615"

definition parse_u32 :: "string \<Rightarrow> u32 option" where
  "parse_u32 s = map_option of_nat (parse_radix 10 u32_max s)"

definition parse_u64 :: "string \<Rightarrow> u64 option" where
  "parse_u64 s = map_option of_nat (parse_radix 10 u64_max s)"

definition parse_i64 :: "string \<Rightarrow> int option" where
  "parse_i64 s =
     (case s of
        c # d # cs \<Rightarrow>
          if c = CHR ''-'' then map_option (\<lambda>n. - int n) (radix_acc 10 9223372036854775808 0 (d # cs))
          else map_option int (parse_radix 10 9223372036854775807 s)
      | _ \<Rightarrow> map_option int (parse_radix 10 9223372036854775807 s))"

definition show_u32 :: "u32 \<Rightarrow> string" where
  "show_u32 w = show_nat (unat w)"

section \<open>Lemmas\<close>

named_theorems text_simps \<open>joining, splitting, printing and parsing\<close>

lemma replace_char_simps [simp]:
  "replace_char c t [] = []"
  "replace_char c t (x # xs) = (if x = c then t else [x]) @ replace_char c t xs"
  by (simp_all add: replace_char_def)

lemma replace_char_append: "replace_char c t (xs @ ys) = replace_char c t xs @ replace_char c t ys"
  by (simp add: replace_char_def)

lemma replace_char_id: "c \<notin> set s \<Longrightarrow> replace_char c t s = s"
  by (induction s) auto

lemma join_str_Cons: "ys \<noteq> [] \<Longrightarrow> join_str sep (x # ys) = x @ sep @ join_str sep ys"
  by (cases ys) simp_all

lemma join_str_snoc: "xs \<noteq> [] \<Longrightarrow> join_str sep (xs @ [y]) = join_str sep xs @ sep @ y"
  by (induction sep xs rule: join_str.induct) (simp_all add: join_str_Cons)

lemma split_on_nonempty [simp]: "split_on c s \<noteq> []"
  by (cases s) (auto split: list.splits)

lemma split_on_none: "c \<notin> set s \<Longrightarrow> split_on c s = [s]"
  by (induction s) auto

lemma split_on_append: "c \<notin> set a \<Longrightarrow> split_on c (a @ c # b) = a # split_on c b"
  by (induction a) auto

lemma split_on_join:
  "xs \<noteq> [] \<Longrightarrow> (\<And>x. x \<in> set xs \<Longrightarrow> c \<notin> set x) \<Longrightarrow> split_on c (join_str [c] xs) = xs"
proof (induction "[c]" xs rule: join_str.induct)
  case (3 x y ys)
  then show ?case by (simp add: split_on_append)
qed (simp_all add: split_on_none)

lemma join_split_on [simp]: "join_str [c] (split_on c s) = s"
proof (induction s)
  case (Cons x xs)
  then show ?case
    by (cases "split_on c xs") (auto simp: join_str_Cons, metis append_Cons join_str.elims join_str.simps(2) join_str_Cons list.distinct(1))
qed simp

lemma split_on_sep: "x \<in> set (split_on c s) \<Longrightarrow> c \<notin> set x"
  by (induction s arbitrary: x) (auto split: if_splits list.splits)

lemma split_once_append: "c \<notin> set a \<Longrightarrow> split_once c (a @ c # b) = Some (a, b)"
  by (induction a) auto

lemma split_once_None: "split_once c s = None \<longleftrightarrow> c \<notin> set s"
  by (induction s) auto

lemma split_once_Some: "split_once c s = Some (a, b) \<Longrightarrow> s = a @ c # b \<and> c \<notin> set a"
  by (induction s arbitrary: a b) (auto split: if_splits)

lemma rsplit_once_append: "c \<notin> set b \<Longrightarrow> rsplit_once c (a @ c # b) = Some (a, b)"
  using split_once_append [of c "rev b" "rev a"] by (simp add: rsplit_once_def)

lemma rsplit_once_None: "rsplit_once c s = None \<longleftrightarrow> c \<notin> set s"
  by (simp add: rsplit_once_def split_once_None)

lemma rsplit_once_Some: "rsplit_once c s = Some (a, b) \<Longrightarrow> s = a @ c # b \<and> c \<notin> set b"
  by (auto simp: rsplit_once_def dest!: split_once_Some)
     (metis append_Cons append_assoc rev.simps(2) rev_append rev_swap self_append_conv2)

lemma str_lines_join:
  assumes "\<And>x. x \<in> set xs \<Longrightarrow> x \<noteq> [] \<and> nl \<notin> set x \<and> cr \<notin> set x"
  shows "str_lines (join_str [nl] xs) = xs"
proof (cases "xs = []")
  case True
  then show ?thesis by (simp add: str_lines_def)
next
  case False
  have s: "split_on nl (join_str [nl] xs) = xs"
    using False assms by (intro split_on_join) auto
  have "last xs \<noteq> []" using False assms by simp
  moreover have "map strip_cr (butlast xs) = butlast xs"
    using assms by (intro map_idI) (auto simp: strip_cr_def dest!: in_set_butlastD, metis last_in_set)
  ultimately show ?thesis using False s by (simp add: str_lines_def)
qed

lemma of_char_digit [simp]: "d < 16 \<Longrightarrow> (of_char (digit_char d) :: nat) = (if d < 10 then 48 + d else 55 + d)"
  by (simp add: digit_char_def)

lemma digit_val_char: "d < b \<Longrightarrow> b \<le> 16 \<Longrightarrow> digit_val b (digit_char d) = Some d"
  by (simp add: digit_val_def Let_def)

lemma radix_acc_append:
  "radix_acc b mx acc (xs @ ys) =
     (case radix_acc b mx acc xs of None \<Rightarrow> None | Some a \<Rightarrow> radix_acc b mx a ys)"
  by (induction xs arbitrary: acc) (auto split: option.splits)

lemma radix_acc_to_radix:
  "2 \<le> b \<Longrightarrow> b \<le> 16 \<Longrightarrow> n \<le> mx \<Longrightarrow> radix_acc b mx 0 (to_radix b n) = Some n"
proof (induction b n rule: to_radix.induct)
  case (1 b n)
  show ?case
  proof (cases "n < b")
    case True
    with 1 show ?thesis by (simp add: to_radix.simps [of b n] digit_val_char)
  next
    case False
    have "n div b \<le> n" by (rule div_le_dividend)
    then have "n div b \<le> mx" using 1(4) by linarith
    then have "radix_acc b mx 0 (to_radix b (n div b)) = Some (n div b)"
      using 1 False by simp
    moreover have "n mod b < b" using 1(2) by simp
    ultimately show ?thesis
      using False 1(2-4) by (simp add: to_radix.simps [of b n] radix_acc_append digit_val_char)
  qed
qed

lemma to_radix_nonempty [simp]: "to_radix b n \<noteq> []"
  by (subst to_radix.simps) simp

lemma to_radix_digits:
  "2 \<le> b \<Longrightarrow> b \<le> 16 \<Longrightarrow> c \<in> set (to_radix b n) \<Longrightarrow> \<exists>d < b. c = digit_char d"
proof (induction b n rule: to_radix.induct)
  case (1 b n)
  show ?case
  proof (cases "n < b")
    case True
    with 1(2-4) show ?thesis by (auto simp: to_radix.simps [of b n])
  next
    case False
    have "n mod b < b" using 1(2) by simp
    moreover have "c \<in> set (to_radix b (n div b)) \<or> c = digit_char (n mod b)"
      using False 1(2,4) by (auto simp: to_radix.simps [of b n])
    moreover have "c \<in> set (to_radix b (n div b)) \<Longrightarrow> \<exists>d < b. c = digit_char d"
      using False 1(1-3) by simp
    ultimately show ?thesis by metis
  qed
qed

lemma digit_char_neq:
  "d < 16 \<Longrightarrow> digit_char d \<noteq> CHR ''+''"
  "d < 16 \<Longrightarrow> digit_char d \<noteq> CHR ''/''"
  "d < 16 \<Longrightarrow> digit_char d \<noteq> CHR '':''"
  "d < 16 \<Longrightarrow> digit_char d \<noteq> CHR ''|''"
  "d < 16 \<Longrightarrow> digit_char d \<noteq> nl"
  "d < 16 \<Longrightarrow> digit_char d \<noteq> cr"
  by (auto dest!: arg_cong [where f = "of_char :: char \<Rightarrow> nat"] split: if_splits)

lemma to_radix_not_in:
  assumes "2 \<le> b" "b \<le> 16"
  shows "CHR ''+'' \<notin> set (to_radix b n)" "CHR ''/'' \<notin> set (to_radix b n)"
    "CHR '':'' \<notin> set (to_radix b n)" "CHR ''|'' \<notin> set (to_radix b n)"
    "nl \<notin> set (to_radix b n)" "cr \<notin> set (to_radix b n)"
  using to_radix_digits [OF assms] assms(2) digit_char_neq
  by (metis less_le_trans)+

lemma parse_radix_to_radix [text_simps]:
  assumes "2 \<le> b" "b \<le> 16" "n \<le> mx"
  shows "parse_radix b mx (to_radix b n) = Some n"
  using radix_acc_to_radix [OF assms] to_radix_not_in(1) [OF assms(1,2), of n]
  by (cases "to_radix b n") (auto simp: parse_radix_def)

lemma radix_acc_ge: "radix_acc b mx acc s = Some n \<Longrightarrow> 1 \<le> b \<Longrightarrow> acc \<le> n"
proof (induction s arbitrary: acc)
  case (Cons c cs)
  then obtain d where "acc * b + d \<le> n" by (auto split: option.splits if_splits)
  moreover have "acc \<le> acc * b" using Cons.prems by simp
  ultimately show ?case by linarith
qed simp

text \<open>Parsing into a smaller type is parsing into a larger one and a range check.\<close>

lemma radix_acc_narrow:
  assumes "m \<le> mx" "1 \<le> b"
  shows "radix_acc b m acc s = (if acc \<le> m \<or> s = [] then
     (case radix_acc b mx acc s of None \<Rightarrow> None | Some n \<Rightarrow> if n \<le> m \<or> s = [] then Some n else None) else
     radix_acc b m acc s)"
proof (induction s arbitrary: acc)
  case (Cons c cs)
  show ?case
  proof (cases "digit_val b c")
    case (Some d)
    show ?thesis
    proof (cases "acc * b + d \<le> m")
      case True
      then show ?thesis using Some Cons [of "acc * b + d"] assms by (auto split: option.splits)
    next
      case False
      then have "n > m" if "radix_acc b mx (acc * b + d) cs = Some n" for n
        using radix_acc_ge [OF that assms(2)] by simp
      then show ?thesis using Some False by (auto split: option.splits)
    qed
  qed simp
qed simp

lemma parse_radix_narrow:
  assumes "m \<le> mx" "1 \<le> b"
  shows "parse_radix b m s =
    (case parse_radix b mx s of None \<Rightarrow> None | Some n \<Rightarrow> if n \<le> m then Some n else None)"
proof -
  have "radix_acc b m 0 t =
      (case radix_acc b mx 0 t of None \<Rightarrow> None | Some n \<Rightarrow> if n \<le> m then Some n else None)" for t
    using radix_acc_narrow [OF assms, of 0 t] by (cases t) (simp_all split: option.splits)
  then show ?thesis by (simp add: parse_radix_def del: radix_acc.simps split: list.splits)
qed

lemma radix_acc_le: "radix_acc b mx acc s = Some n \<Longrightarrow> acc \<le> mx \<Longrightarrow> n \<le> mx"
  by (induction s arbitrary: acc) (auto split: option.splits if_splits)

lemma parse_radix_le: "parse_radix b mx s = Some n \<Longrightarrow> n \<le> mx"
  by (auto simp: parse_radix_def simp del: radix_acc.simps split: list.splits if_splits
      dest: radix_acc_le)

lemma parse_u32_show [text_simps]: "parse_u32 (show_u32 w) = Some w"
proof -
  have "unat w < 2 ^ LENGTH(32)" by (rule unsigned_less)
  then have "unat w \<le> u32_max" by simp
  then show ?thesis
    by (simp add: parse_u32_def show_u32_def parse_radix_to_radix)
qed

lemma show_u32_inj: "show_u32 v = show_u32 w \<longleftrightarrow> v = w"
  by (metis option.inject parse_u32_show)

lemma show_u32_not_in [simp]:
  "CHR '':'' \<notin> set (show_u32 w)" "CHR ''|'' \<notin> set (show_u32 w)"
  "nl \<notin> set (show_u32 w)" "cr \<notin> set (show_u32 w)"
  using to_radix_not_in [of 10 "unat w"] by (simp_all add: show_u32_def)

end
