(* ===== verification/Bytes.thy ===== *)
theory Bytes
  imports Text
begin

text \<open>
  Bytes on the wire: big-endian integers (\<open>to_be_bytes\<close>, \<open>from_be_bytes\<close>), the UTF-8 check of
  \<open>std::str::from_utf8\<close>, and the step between byte lists and strings.
\<close>

section \<open>Big-endian integers\<close>

fun be_enc :: "nat \<Rightarrow> nat \<Rightarrow> bytes" where
  "be_enc 0 n = []"
| "be_enc (Suc k) n = be_enc k (n div 256) @ [of_nat n]"

definition be_nat :: "bytes \<Rightarrow> nat" where
  "be_nat bs = foldl (\<lambda>a b. a * 256 + unat b) 0 bs"

definition be16 :: "u16 \<Rightarrow> bytes" where "be16 w = be_enc 2 (unat w)"
definition be32 :: "u32 \<Rightarrow> bytes" where "be32 w = be_enc 4 (unat w)"
definition be64 :: "u64 \<Rightarrow> bytes" where "be64 w = be_enc 8 (unat w)"

definition from_be16 :: "bytes \<Rightarrow> u16" where "from_be16 bs = of_nat (be_nat bs)"
definition from_be32 :: "bytes \<Rightarrow> u32" where "from_be32 bs = of_nat (be_nat bs)"
definition from_be64 :: "bytes \<Rightarrow> u64" where "from_be64 bs = of_nat (be_nat bs)"

section \<open>Strings and bytes\<close>

definition bytes_of :: "string \<Rightarrow> bytes" where
  "bytes_of s = map (\<lambda>c. of_nat (of_char c)) s"

definition str_of :: "bytes \<Rightarrow> string" where
  "str_of bs = map (\<lambda>b. char_of (unat b)) bs"

definition utf8_cont :: "u8 \<Rightarrow> bool" where
  "utf8_cont b \<longleftrightarrow> 0x80 \<le> b \<and> b \<le> 0xBF"

definition utf8_lead3 :: "u8 \<Rightarrow> u8 \<Rightarrow> bool" where
  "utf8_lead3 a b \<longleftrightarrow>
     (if a = 0xE0 then 0xA0 \<le> b \<and> b \<le> 0xBF
      else if a = 0xED then 0x80 \<le> b \<and> b \<le> 0x9F
      else 0xE1 \<le> a \<and> a \<le> 0xEF \<and> utf8_cont b)"

definition utf8_lead4 :: "u8 \<Rightarrow> u8 \<Rightarrow> bool" where
  "utf8_lead4 a b \<longleftrightarrow>
     (if a = 0xF0 then 0x90 \<le> b \<and> b \<le> 0xBF
      else if a = 0xF4 then 0x80 \<le> b \<and> b \<le> 0x8F
      else 0xF1 \<le> a \<and> a \<le> 0xF3 \<and> utf8_cont b)"

definition utf8_width :: "u8 \<Rightarrow> nat" where
  "utf8_width a =
     (if a < 0x80 then 1 else if a < 0xC2 then 0 else if a \<le> 0xDF then 2
      else if a \<le> 0xEF then 3 else if a \<le> 0xF4 then 4 else 0)"

text \<open>
  The well-formedness table of UTF-8 that \<open>from_utf8\<close> checks: no overlong forms, no surrogates,
  nothing above U+10FFFF.
\<close>

fun utf8_valid :: "bytes \<Rightarrow> bool" where
  "utf8_valid [] = True"
| "utf8_valid (a # bs) =
     (if utf8_width a = 1 then utf8_valid bs
      else if utf8_width a = 2 then
        (case bs of b # cs \<Rightarrow> utf8_cont b \<and> utf8_valid cs | _ \<Rightarrow> False)
      else if utf8_width a = 3 then
        (case bs of b # c # cs \<Rightarrow> utf8_lead3 a b \<and> utf8_cont c \<and> utf8_valid cs | _ \<Rightarrow> False)
      else if utf8_width a = 4 then
        (case bs of
           b # c # d # cs \<Rightarrow> utf8_lead4 a b \<and> utf8_cont c \<and> utf8_cont d \<and> utf8_valid cs
         | _ \<Rightarrow> False)
      else False)"

definition from_utf8 :: "bytes \<Rightarrow> string option" where
  "from_utf8 bs = (if utf8_valid bs then Some (str_of bs) else None)"

text \<open>A value of type \<open>String\<close> is a byte list that is valid UTF-8.\<close>

definition valid_str :: "string \<Rightarrow> bool" where
  "valid_str s \<longleftrightarrow> utf8_valid (bytes_of s)"

text \<open>\<open>b as char\<close> is the Latin-1 code point of the byte, printed in UTF-8.\<close>

definition u8_as_char :: "u8 \<Rightarrow> string" where
  "u8_as_char b =
     (if b < 0x80 then [char_of (unat b)]
      else [char_of (0xC0 + unat b div 64), char_of (0x80 + unat b mod 64)])"

section \<open>Lemmas\<close>

lemma length_be_enc [simp]: "length (be_enc k n) = k"
  by (induction k arbitrary: n) simp_all

lemma length_be [simp]: "length (be16 a) = 2" "length (be32 b) = 4" "length (be64 c) = 8"
  by (simp_all add: be16_def be32_def be64_def)

lemma be_nat_Nil [simp]: "be_nat [] = 0"
  by (simp add: be_nat_def)

lemma be_nat_snoc: "be_nat (bs @ [b]) = be_nat bs * 256 + unat b"
  by (simp add: be_nat_def)

lemma unat_u8_of_nat: "unat (of_nat n :: u8) = n mod 256"
  by (simp add: unat_of_nat)

lemma be_nat_enc: "be_nat (be_enc k n) = n mod 256 ^ k"
proof (induction k arbitrary: n)
  case (Suc k)
  have "(n div 256) mod 256 ^ k * 256 + n mod 256 = n mod 256 ^ Suc k"
    using mod_mult2_eq [of n 256 "256 ^ k"] by (simp add: mult.commute add.commute)
  then show ?case using Suc by (simp add: be_nat_snoc unat_u8_of_nat)
qed simp

lemma be_nat_less: "be_nat bs < 256 ^ length bs"
proof (induction bs rule: rev_induct)
  case (snoc b bs)
  have "unat b < 2 ^ LENGTH(8)" by (rule unsigned_less)
  then have "unat b < 256" by simp
  with snoc show ?case by (simp add: be_nat_snoc)
qed simp

lemma be_enc_nat: "be_enc (length bs) (be_nat bs) = bs"
proof (induction bs rule: rev_induct)
  case (snoc b bs)
  have "unat b < 2 ^ LENGTH(8)" by (rule unsigned_less)
  then have b: "unat b < 256" by simp
  then have "(be_nat bs * 256 + unat b) div 256 = be_nat bs" by simp
  moreover have "(of_nat (be_nat bs * 256 + unat b) :: u8) = b"
  proof (rule word_unat_eq_iff [THEN iffD2])
    show "unat (of_nat (be_nat bs * 256 + unat b) :: u8) = unat b"
      using b by (simp only: unat_u8_of_nat) simp
  qed
  ultimately show ?case using snoc by (simp add: be_nat_snoc)
qed simp

lemma be_nat_be [simp]:
  "be_nat (be16 a) = unat a" "be_nat (be32 b) = unat b" "be_nat (be64 c) = unat c"
proof -
  have "unat a < 2 ^ LENGTH(16)" "unat b < 2 ^ LENGTH(32)" "unat c < 2 ^ LENGTH(64)"
    by (rule unsigned_less)+
  then show "be_nat (be16 a) = unat a" "be_nat (be32 b) = unat b" "be_nat (be64 c) = unat c"
    by (simp_all add: be16_def be32_def be64_def be_nat_enc)
qed

lemma from_be_be [simp]:
  "from_be16 (be16 a) = a" "from_be32 (be32 b) = b" "from_be64 (be64 c) = c"
  by (simp_all add: from_be16_def from_be32_def from_be64_def)

lemma be_from_be:
  "length bs = 2 \<Longrightarrow> be16 (from_be16 bs) = bs"
  "length bs = 4 \<Longrightarrow> be32 (from_be32 bs) = bs"
  "length bs = 8 \<Longrightarrow> be64 (from_be64 bs) = bs"
  using be_nat_less [of bs] be_enc_nat [of bs]
  by (simp_all add: be16_def be32_def be64_def from_be16_def from_be32_def from_be64_def unat_of_nat)

lemma bytes_of_simps [simp]:
  "bytes_of [] = []"
  "bytes_of (c # s) = of_nat (of_char c) # bytes_of s"
  "bytes_of (s @ t) = bytes_of s @ bytes_of t"
  "length (bytes_of s) = length s"
  by (simp_all add: bytes_of_def)

lemma str_of_simps [simp]:
  "str_of [] = []"
  "str_of (b # bs) = char_of (unat b) # str_of bs"
  "str_of (bs @ cs) = str_of bs @ str_of cs"
  "length (str_of bs) = length bs"
  by (simp_all add: str_of_def)

lemma str_of_bytes_of [simp]: "str_of (bytes_of s) = s"
  by (induction s) (simp_all add: unat_u8_of_nat)

lemma bytes_of_str_of [simp]: "bytes_of (str_of bs) = bs"
proof (induction bs)
  case (Cons b bs)
  have "unat b < 2 ^ LENGTH(8)" by (rule unsigned_less)
  with Cons show ?case by simp
qed simp

lemma bytes_of_inj: "bytes_of s = bytes_of t \<longleftrightarrow> s = t"
  by (metis str_of_bytes_of)

lemma from_utf8_bytes_of: "from_utf8 (bytes_of s) = (if valid_str s then Some s else None)"
  by (simp add: from_utf8_def valid_str_def)

lemma from_utf8_Some: "from_utf8 bs = Some s \<longleftrightarrow> utf8_valid bs \<and> s = str_of bs"
  by (auto simp: from_utf8_def)

lemma from_utf8_valid_str: "from_utf8 bs = Some s \<Longrightarrow> valid_str s"
  by (auto simp: from_utf8_Some valid_str_def)

lemma utf8_valid_append: "utf8_valid a \<Longrightarrow> utf8_valid (a @ b) = utf8_valid b"
  by (induction a rule: utf8_valid.induct) (auto split: if_split_asm list.split_asm)

lemma utf8_valid_ascii: "\<forall>b \<in> set bs. b < 0x80 \<Longrightarrow> utf8_valid bs"
  by (induction bs) (simp_all add: utf8_width_def)

end
