(* ===== verification/PgOutput.thy ===== *)
theory PgOutput
  imports Bytes
begin

text \<open>
  The decoder of the logical replication protocol, \<^verbatim>\<open>replica/pgoutput.rs\<close>: the message type, the
  cursor over a byte buffer with its checked reads, and \<open>decode\<close>. The reference encoder \<open>encode_msg\<close>
  writes the message format the decoder reads; the locale \<open>codec\<close> is the contract of one reader
  with its writer, and the loop \<open>for _ in 0..n\<close> over a reader is proved once inside it.
\<close>

section \<open>Messages\<close>

record rel_column =
  flags :: u8
  col_name :: string
  type_oid :: u32
  type_modifier :: i32

datatype cell_value = Null | UnchangedToast | Text string

datatype tuple_data = TupleData (cells: "cell_value list")

datatype pgoutput_msg =
    Begin u64 i64 u32
  | Commit u64 u64 i64
  | Relation u32 string string u8 "rel_column list"
  | Insert u32 tuple_data
  | Update u32 "tuple_data option" "tuple_data option" tuple_data
  | Delete u32 "tuple_data option" "tuple_data option"
  | Truncate "u32 list"
  | Message string bytes
  | Other

section \<open>The cursor\<close>

record cursor =
  cur_buf :: bytes
  cur_pos :: nat

type_synonym 'a reader = "cursor \<Rightarrow> ('a \<times> cursor) res"

abbreviation bch :: "char \<Rightarrow> u8" where "bch c \<equiv> of_nat (of_char c)"

definition cur_new :: "bytes \<Rightarrow> cursor" where
  "cur_new b = \<lparr>cur_buf = b, cur_pos = 0\<rparr>"

definition cur_take :: "nat \<Rightarrow> bytes reader" where
  "cur_take n c =
     (if cur_pos c + n > length (cur_buf c)
      then Inl (Protocol ''truncated pgoutput message'')
      else Inr (take n (drop (cur_pos c) (cur_buf c)), c\<lparr>cur_pos := cur_pos c + n\<rparr>))"

definition cur_u8 :: "u8 reader" where
  "cur_u8 c = bindR (cur_take 1 c) (\<lambda>(b, c). Inr (b ! 0, c))"

definition cur_u16 :: "u16 reader" where
  "cur_u16 c = bindR (cur_take 2 c) (\<lambda>(b, c). Inr (from_be16 b, c))"

definition cur_u32 :: "u32 reader" where
  "cur_u32 c = bindR (cur_take 4 c) (\<lambda>(b, c). Inr (from_be32 b, c))"

definition cur_i32 :: "i32 reader" where
  "cur_i32 c = bindR (cur_take 4 c) (\<lambda>(b, c). Inr (from_be32 b, c))"

definition cur_u64 :: "u64 reader" where
  "cur_u64 c = bindR (cur_take 8 c) (\<lambda>(b, c). Inr (from_be64 b, c))"

definition cur_i64 :: "i64 reader" where
  "cur_i64 c = bindR (cur_take 8 c) (\<lambda>(b, c). Inr (from_be64 b, c))"

fun position0 :: "bytes \<Rightarrow> nat option" where
  "position0 [] = None"
| "position0 (b # bs) = (if b = 0 then Some 0 else map_option Suc (position0 bs))"

definition cur_cstr :: "string reader" where
  "cur_cstr c =
     (let rest = drop (cur_pos c) (cur_buf c)
      in bindR (ok_or (Protocol ''unterminated string in pgoutput message'') (position0 rest))
           (\<lambda>nul. bindR (ok_or (Protocol ''non-utf8 string in pgoutput message'')
                            (from_utf8 (take nul rest)))
             (\<lambda>s. Inr (s, c\<lparr>cur_pos := cur_pos c + (nul + 1)\<rparr>))))"

fun read_n :: "nat \<Rightarrow> 'a reader \<Rightarrow> 'a list reader" where
  "read_n 0 rd c = Inr ([], c)"
| "read_n (Suc n) rd c =
     bindR (rd c) (\<lambda>(x, c). bindR (read_n n rd c) (\<lambda>(xs, c). Inr (x # xs, c)))"

definition cur_cell :: "cell_value reader" where
  "cur_cell c =
     bindR (cur_u8 c) (\<lambda>(kind, c).
       if kind = bch CHR ''n'' then Inr (Null, c)
       else if kind = bch CHR ''u'' then Inr (UnchangedToast, c)
       else if kind = bch CHR ''t'' then
         bindR (cur_i32 c) (\<lambda>(len, c).
           if sint len < 0 then Inl (Protocol ''negative tuple cell length'')
           else bindR (cur_take (nat (sint len)) c) (\<lambda>(bs, c).
             bindR (ok_or (Protocol ''non-utf8 tuple cell'') (from_utf8 bs)) (\<lambda>s. Inr (Text s, c))))
       else Inl (Protocol (''unsupported tuple cell kind: '' @ u8_as_char kind)))"

definition cur_tuple :: "tuple_data reader" where
  "cur_tuple c =
     bindR (cur_u16 c) (\<lambda>(ncols, c).
       bindR (read_n (unat ncols) cur_cell c) (\<lambda>(cs, c). Inr (TupleData cs, c)))"

definition cur_column :: "rel_column reader" where
  "cur_column c =
     bindR (cur_u8 c) (\<lambda>(fl, c). bindR (cur_cstr c) (\<lambda>(nm, c).
     bindR (cur_u32 c) (\<lambda>(oid, c). bindR (cur_i32 c) (\<lambda>(tm, c).
       Inr (\<lparr>flags = fl, col_name = nm, type_oid = oid, type_modifier = tm\<rparr>, c)))))"

section \<open>The decoder, one definition per tag\<close>

definition decode_begin :: "cursor \<Rightarrow> pgoutput_msg res" where
  "decode_begin c =
     bindR (cur_u64 c) (\<lambda>(final_lsn, c). bindR (cur_i64 c) (\<lambda>(commit_ts, c).
     bindR (cur_u32 c) (\<lambda>(xid, c). Inr (Begin final_lsn commit_ts xid))))"

definition decode_commit :: "cursor \<Rightarrow> pgoutput_msg res" where
  "decode_commit c =
     bindR (cur_u8 c) (\<lambda>(_, c). bindR (cur_u64 c) (\<lambda>(commit_lsn, c).
     bindR (cur_u64 c) (\<lambda>(end_lsn, c). bindR (cur_i64 c) (\<lambda>(commit_ts, c).
       Inr (Commit commit_lsn end_lsn commit_ts)))))"

definition decode_relation :: "cursor \<Rightarrow> pgoutput_msg res" where
  "decode_relation c =
     bindR (cur_u32 c) (\<lambda>(rel_id, c). bindR (cur_cstr c) (\<lambda>(namespace, c).
     bindR (cur_cstr c) (\<lambda>(name, c). bindR (cur_u8 c) (\<lambda>(ident, c).
     bindR (cur_u16 c) (\<lambda>(ncols, c). bindR (read_n (unat ncols) cur_column c) (\<lambda>(cols, c).
       Inr (Relation rel_id namespace name ident cols)))))))"

definition decode_insert :: "cursor \<Rightarrow> pgoutput_msg res" where
  "decode_insert c =
     bindR (cur_u32 c) (\<lambda>(rel_id, c). bindR (cur_u8 c) (\<lambda>(marker, c).
       if marker \<noteq> bch CHR ''N'' then Inl (Protocol ''insert without new tuple'')
       else bindR (cur_tuple c) (\<lambda>(new, c). Inr (Insert rel_id new))))"

text \<open>The optional key or old tuple that precedes the new tuple of an update.\<close>

definition update_prefix ::
  "u8 \<Rightarrow> (tuple_data option \<times> tuple_data option \<times> u8) reader" where
  "update_prefix marker c =
     (if marker = bch CHR ''K'' then
        bindR (cur_tuple c) (\<lambda>(t, c). bindR (cur_u8 c) (\<lambda>(m, c). Inr ((Some t, None, m), c)))
      else if marker = bch CHR ''O'' then
        bindR (cur_tuple c) (\<lambda>(t, c). bindR (cur_u8 c) (\<lambda>(m, c). Inr ((None, Some t, m), c)))
      else Inr ((None, None, marker), c))"

definition decode_update :: "cursor \<Rightarrow> pgoutput_msg res" where
  "decode_update c =
     bindR (cur_u32 c) (\<lambda>(rel_id, c). bindR (cur_u8 c) (\<lambda>(marker, c).
     bindR (update_prefix marker c) (\<lambda>((key, old, marker), c).
       if marker \<noteq> bch CHR ''N'' then Inl (Protocol ''update without new tuple'')
       else bindR (cur_tuple c) (\<lambda>(new, c). Inr (Update rel_id key old new)))))"

definition decode_delete :: "cursor \<Rightarrow> pgoutput_msg res" where
  "decode_delete c =
     bindR (cur_u32 c) (\<lambda>(rel_id, c). bindR (cur_u8 c) (\<lambda>(marker, c).
       if marker = bch CHR ''K'' then
         bindR (cur_tuple c) (\<lambda>(t, c). Inr (Delete rel_id (Some t) None))
       else if marker = bch CHR ''O'' then
         bindR (cur_tuple c) (\<lambda>(t, c). Inr (Delete rel_id None (Some t)))
       else Inl (Protocol ''delete without key or old tuple'')))"

definition decode_truncate :: "cursor \<Rightarrow> pgoutput_msg res" where
  "decode_truncate c =
     bindR (cur_u32 c) (\<lambda>(nrels, c). bindR (cur_u8 c) (\<lambda>(_, c).
     bindR (read_n (unat nrels) cur_u32 c) (\<lambda>(rel_ids, c). Inr (Truncate rel_ids))))"

definition decode_message :: "cursor \<Rightarrow> pgoutput_msg res" where
  "decode_message c =
     bindR (cur_u8 c) (\<lambda>(_, c). bindR (cur_u64 c) (\<lambda>(_, c). bindR (cur_cstr c) (\<lambda>(prefix, c).
     bindR (cur_i32 c) (\<lambda>(len, c).
       if sint len < 0 then Inl (Protocol ''negative logical message length'')
       else bindR (cur_take (nat (sint len)) c) (\<lambda>(content, c). Inr (Message prefix content))))))"

definition decode :: "bytes \<Rightarrow> pgoutput_msg res" where
  "decode data =
     bindR (cur_u8 (cur_new data)) (\<lambda>(tag, c).
       if tag = bch CHR ''B'' then decode_begin c
       else if tag = bch CHR ''C'' then decode_commit c
       else if tag = bch CHR ''R'' then decode_relation c
       else if tag = bch CHR ''I'' then decode_insert c
       else if tag = bch CHR ''U'' then decode_update c
       else if tag = bch CHR ''D'' then decode_delete c
       else if tag = bch CHR ''T'' then decode_truncate c
       else if tag = bch CHR ''M'' then decode_message c
       else if tag = bch CHR ''O'' \<or> tag = bch CHR ''Y'' then Inr Other
       else Inl (Protocol (''unknown pgoutput message tag: '' @ u8_as_char tag)))"

section \<open>The reference encoder\<close>

definition enc_cstr :: "string \<Rightarrow> bytes" where
  "enc_cstr s = bytes_of s @ [0]"

fun enc_cell :: "cell_value \<Rightarrow> bytes" where
  "enc_cell Null = [bch CHR ''n'']"
| "enc_cell UnchangedToast = [bch CHR ''u'']"
| "enc_cell (Text s) = bch CHR ''t'' # be32 (of_nat (length s)) @ bytes_of s"

definition enc_tuple :: "tuple_data \<Rightarrow> bytes" where
  "enc_tuple t = be16 (of_nat (length (cells t))) @ concat (map enc_cell (cells t))"

definition enc_column :: "rel_column \<Rightarrow> bytes" where
  "enc_column c =
     [flags c] @ enc_cstr (col_name c) @ be32 (type_oid c) @ be32 (type_modifier c)"

text \<open>The tuples before the new one, each with its marker.\<close>

definition enc_old :: "tuple_data option \<Rightarrow> tuple_data option \<Rightarrow> bytes" where
  "enc_old key old =
     (case key of
        Some t \<Rightarrow> bch CHR ''K'' # enc_tuple t
      | None \<Rightarrow> (case old of Some t \<Rightarrow> bch CHR ''O'' # enc_tuple t | None \<Rightarrow> []))"

text \<open>
  \<open>fl\<close> and \<open>lsn\<close> are the fields the protocol carries and the decoder reads past: flags, options
  and the position of a logical message.
\<close>

fun encode_msg :: "u8 \<Rightarrow> u64 \<Rightarrow> pgoutput_msg \<Rightarrow> bytes" where
  "encode_msg fl lsn (Begin l ts x) = bch CHR ''B'' # be64 l @ be64 ts @ be32 x"
| "encode_msg fl lsn (Commit l e ts) = bch CHR ''C'' # [fl] @ be64 l @ be64 e @ be64 ts"
| "encode_msg fl lsn (Relation r ns n ri cols) =
     bch CHR ''R'' # be32 r @ enc_cstr ns @ enc_cstr n @ [ri] @
       be16 (of_nat (length cols)) @ concat (map enc_column cols)"
| "encode_msg fl lsn (Insert r new) = bch CHR ''I'' # be32 r @ [bch CHR ''N''] @ enc_tuple new"
| "encode_msg fl lsn (Update r key old new) =
     bch CHR ''U'' # be32 r @ enc_old key old @ [bch CHR ''N''] @ enc_tuple new"
| "encode_msg fl lsn (Delete r key old) = bch CHR ''D'' # be32 r @ enc_old key old"
| "encode_msg fl lsn (Truncate rs) =
     bch CHR ''T'' # be32 (of_nat (length rs)) @ [fl] @ concat (map be32 rs)"
| "encode_msg fl lsn (Message p content) =
     bch CHR ''M'' # [fl] @ be64 lsn @ enc_cstr p @ be32 (of_nat (length content)) @ content"
| "encode_msg fl lsn Other = [bch CHR ''O'']"

definition wf_name :: "string \<Rightarrow> bool" where
  "wf_name s \<longleftrightarrow> valid_str s \<and> 0 \<notin> set (bytes_of s)"

fun wf_cell :: "cell_value \<Rightarrow> bool" where
  "wf_cell (Text s) \<longleftrightarrow> valid_str s \<and> length s < 2 ^ 31"
| "wf_cell _ \<longleftrightarrow> True"

definition wf_tuple :: "tuple_data \<Rightarrow> bool" where
  "wf_tuple t \<longleftrightarrow> length (cells t) < 2 ^ 16 \<and> list_all wf_cell (cells t)"

text \<open>What the protocol can carry: lengths within their fields, names without NUL, valid UTF-8.\<close>

fun wf_msg :: "pgoutput_msg \<Rightarrow> bool" where
  "wf_msg (Relation r ns n ri cols) \<longleftrightarrow>
     wf_name ns \<and> wf_name n \<and> length cols < 2 ^ 16 \<and> list_all (\<lambda>c. wf_name (col_name c)) cols"
| "wf_msg (Insert r new) \<longleftrightarrow> wf_tuple new"
| "wf_msg (Update r key old new) \<longleftrightarrow>
     \<not> (key \<noteq> None \<and> old \<noteq> None) \<and> pred_option wf_tuple key \<and> pred_option wf_tuple old \<and>
     wf_tuple new"
| "wf_msg (Delete r key old) \<longleftrightarrow>
     (key = None \<longleftrightarrow> old \<noteq> None) \<and> pred_option wf_tuple key \<and> pred_option wf_tuple old"
| "wf_msg (Truncate rs) \<longleftrightarrow> length rs < 2 ^ 32"
| "wf_msg (Message p content) \<longleftrightarrow> wf_name p \<and> length content < 2 ^ 31"
| "wf_msg _ \<longleftrightarrow> True"

section \<open>Readers and writers\<close>

text \<open>A cursor that has read \<open>pre\<close> and has \<open>rest\<close> in front of it.\<close>

definition cur_at :: "bytes \<Rightarrow> bytes \<Rightarrow> cursor" where
  "cur_at pre rest = \<lparr>cur_buf = pre @ rest, cur_pos = length pre\<rparr>"

named_theorems codec \<open>a reader meets what its writer wrote\<close>

text \<open>
  The contract of a reader with its writer: it reads back what was written and stops right behind
  it, and whatever it accepts is well-formed and is exactly what the writer would have written.
\<close>

locale codec =
  fixes rd :: "'a reader" and enc :: "'a \<Rightarrow> bytes" and wf :: "'a \<Rightarrow> bool"
  assumes read_back:
      "wf x \<Longrightarrow> rd (cur_at pre (enc x @ rest)) = Inr (x, cur_at (pre @ enc x) rest)"
    and read_inv:
      "rd (cur_at pre bs) = Inr (x, c) \<Longrightarrow>
         wf x \<and> (\<exists>rest. bs = enc x @ rest \<and> c = cur_at (pre @ enc x) rest)"
begin

lemma read_back_end: "wf x \<Longrightarrow> rd (cur_at pre (enc x)) = Inr (x, cur_at (pre @ enc x) [])"
  using read_back [of x pre "[]"] by simp

lemma read_invE:
  assumes "rd (cur_at pre bs) = Inr (x, c)"
  obtains rest where "wf x" "bs = enc x @ rest" "c = cur_at (pre @ enc x) rest"
  using read_inv [OF assms] by blast

lemma read_n_back:
  "list_all wf xs \<Longrightarrow>
     read_n (length xs) rd (cur_at pre (concat (map enc xs) @ rest)) =
       Inr (xs, cur_at (pre @ concat (map enc xs)) rest)"
  by (induction xs arbitrary: pre) (simp_all add: read_back)

lemma read_n_back_end:
  "list_all wf xs \<Longrightarrow>
     read_n (length xs) rd (cur_at pre (concat (map enc xs))) =
       Inr (xs, cur_at (pre @ concat (map enc xs)) [])"
  using read_n_back [of xs pre "[]"] by simp

lemma read_n_inv:
  "read_n n rd (cur_at pre bs) = Inr (xs, c) \<Longrightarrow>
     length xs = n \<and> list_all wf xs \<and>
     (\<exists>rest. bs = concat (map enc xs) @ rest \<and> c = cur_at (pre @ concat (map enc xs)) rest)"
proof (induction n arbitrary: pre bs xs c)
  case 0
  then show ?case by simp
next
  case (Suc n)
  from Suc.prems obtain x c1 ys where
    x: "rd (cur_at pre bs) = Inr (x, c1)" and
    ys: "read_n n rd c1 = Inr (ys, c)" and xs: "xs = x # ys"
    by auto
  from x obtain r1 where r1: "wf x" "bs = enc x @ r1" "c1 = cur_at (pre @ enc x) r1"
    by (rule read_invE)
  show ?case
    using Suc.IH [OF ys [unfolded r1(3)]] r1 xs by auto
qed

lemma read_n_invE:
  assumes "read_n n rd (cur_at pre bs) = Inr (xs, c)"
  obtains rest where "length xs = n" "list_all wf xs" "bs = concat (map enc xs) @ rest"
    "c = cur_at (pre @ concat (map enc xs)) rest"
  using read_n_inv [OF assms] by blast

end

lemma cur_new_at [codec]: "cur_new b = cur_at [] b"
  by (simp add: cur_new_def cur_at_def)

lemma cur_take_at:
  "cur_take (length bs) (cur_at pre (bs @ rest)) = Inr (bs, cur_at (pre @ bs) rest)"
  by (simp add: cur_take_def cur_at_def)

lemma cur_take_len [codec]:
  "length bs = n \<Longrightarrow> cur_take n (cur_at pre (bs @ rest)) = Inr (bs, cur_at (pre @ bs) rest)"
  using cur_take_at by blast

lemma cur_take_inv:
  assumes "cur_take n (cur_at pre bs) = Inr (x, c)"
  obtains rest where "length x = n" "bs = x @ rest" "c = cur_at (pre @ x) rest"
  using assms that [of "drop n bs"]
  by (auto simp: cur_take_def cur_at_def split: if_splits)

text \<open>A fixed-width integer: \<open>n\<close> bytes and a bijection between the bytes and the value.\<close>

lemma fixed_codec:
  assumes rd: "\<And>c. rd c = bindR (cur_take n c) (\<lambda>(b, c). Inr (dec b, c))"
    and len: "\<And>w. length (enc w) = n"
    and dec_enc: "\<And>w. dec (enc w) = w"
    and enc_dec: "\<And>b. length b = n \<Longrightarrow> enc (dec b) = b"
  shows "codec rd enc (\<lambda>_. True)"
proof
  fix pre rest x
  show "rd (cur_at pre (enc x @ rest)) = Inr (x, cur_at (pre @ enc x) rest)"
    using len dec_enc by (simp add: rd cur_take_len)
next
  fix pre bs x c
  assume "rd (cur_at pre bs) = Inr (x, c)"
  then obtain b c' where b: "cur_take n (cur_at pre bs) = Inr (b, c')" "x = dec b" "c = c'"
    by (auto simp: rd)
  from b(1) show "True \<and> (\<exists>rest. bs = enc x @ rest \<and> c = cur_at (pre @ enc x) rest)"
    by (rule cur_take_inv) (use b enc_dec in auto)
qed

lemma singleton_nth0: "length b = 1 \<Longrightarrow> [b ! 0] = b"
  by (cases b) auto

interpretation c8: codec cur_u8 "\<lambda>b. [b]" "\<lambda>_. True"
  by (rule fixed_codec [where n = 1 and dec = "\<lambda>b. b ! 0"])
    (simp_all add: cur_u8_def singleton_nth0)

interpretation c16: codec cur_u16 be16 "\<lambda>_. True"
  by (rule fixed_codec [where n = 2 and dec = from_be16]) (simp_all add: cur_u16_def be_from_be)

interpretation c32: codec cur_u32 be32 "\<lambda>_. True"
  by (rule fixed_codec [where n = 4 and dec = from_be32]) (simp_all add: cur_u32_def be_from_be)

interpretation ci32: codec cur_i32 be32 "\<lambda>_. True"
  by (rule fixed_codec [where n = 4 and dec = from_be32]) (simp_all add: cur_i32_def be_from_be)

interpretation c64: codec cur_u64 be64 "\<lambda>_. True"
  by (rule fixed_codec [where n = 8 and dec = from_be64]) (simp_all add: cur_u64_def be_from_be)

interpretation ci64: codec cur_i64 be64 "\<lambda>_. True"
  by (rule fixed_codec [where n = 8 and dec = from_be64]) (simp_all add: cur_i64_def be_from_be)

lemma cur_u8_Cons [codec]: "cur_u8 (cur_at pre (b # rest)) = Inr (b, cur_at (pre @ [b]) rest)"
  using c8.read_back by simp

lemma cur_u8_invE:
  assumes "cur_u8 (cur_at pre bs) = Inr (x, c)"
  obtains rest where "bs = x # rest" "c = cur_at (pre @ [x]) rest"
  using c8.read_invE [OF assms] by auto

lemmas codec_ints [codec] =
  c16.read_back [OF TrueI] c32.read_back [OF TrueI] ci32.read_back [OF TrueI]
  c64.read_back [OF TrueI] ci64.read_back [OF TrueI]
  c16.read_back_end [OF TrueI] c32.read_back_end [OF TrueI] ci32.read_back_end [OF TrueI]
  c64.read_back_end [OF TrueI] ci64.read_back_end [OF TrueI]

text \<open>Strings end at the first NUL.\<close>

lemma position0_append: "0 \<notin> set bs \<Longrightarrow> position0 (bs @ 0 # rest) = Some (length bs)"
  by (induction bs) auto

lemma position0_Some:
  "position0 bs = Some n \<Longrightarrow>
     n < length bs \<and> (\<exists>rest. bs = take n bs @ 0 # rest) \<and> 0 \<notin> set (take n bs)"
  by (induction bs arbitrary: n) (auto split: if_splits)

interpretation cstr: codec cur_cstr enc_cstr wf_name
proof
  fix pre rest x
  assume "wf_name x"
  then show "cur_cstr (cur_at pre (enc_cstr x @ rest)) = Inr (x, cur_at (pre @ enc_cstr x) rest)"
    by (simp add: cur_cstr_def cur_at_def enc_cstr_def wf_name_def position0_append
        from_utf8_bytes_of)
next
  fix pre bs x c
  assume "cur_cstr (cur_at pre bs) = Inr (x, c)"
  then obtain n where n: "position0 bs = Some n" "from_utf8 (take n bs) = Some x"
    "c = \<lparr>cur_buf = pre @ bs, cur_pos = length pre + (n + 1)\<rparr>"
    by (auto simp: cur_cstr_def cur_at_def Let_def)
  from position0_Some [OF n(1)] obtain rest where
    rest: "n < length bs" "bs = take n bs @ 0 # rest" "0 \<notin> set (take n bs)" by blast
  have x: "bytes_of x = take n bs" and v: "valid_str x"
    using n(2) by (auto simp: from_utf8_Some valid_str_def)
  have b: "bs = enc_cstr x @ rest" using rest(2) x by (simp add: enc_cstr_def)
  have "length (enc_cstr x) = n + 1" using rest(1) x by (simp add: enc_cstr_def)
  then have "c = cur_at (pre @ enc_cstr x) rest" using n(3) b by (simp add: cur_at_def)
  then show "wf_name x \<and> (\<exists>rest. bs = enc_cstr x @ rest \<and> c = cur_at (pre @ enc_cstr x) rest)"
    using v rest(3) x b by (auto simp: wf_name_def)
qed

lemma sint_len: "n < 2 ^ 31 \<Longrightarrow> sint (of_nat n :: i32) = int n"
  by (simp add: signed_of_nat signed_take_bit_int_eq_self)

lemma sint_len_inv:
  assumes "0 \<le> sint (w :: i32)"
  shows "of_nat (nat (sint w)) = w" "nat (sint w) < 2 ^ 31"
proof -
  have "sint w < 2 ^ (LENGTH(32) - 1)" by (rule sint_lt)
  then show "nat (sint w) < 2 ^ 31" by simp
  show "of_nat (nat (sint w)) = w" using assms by simp
qed

interpretation cell: codec cur_cell enc_cell wf_cell
proof
  fix x pre rest
  assume "wf_cell x"
  then show "cur_cell (cur_at pre (enc_cell x @ rest)) = Inr (x, cur_at (pre @ enc_cell x) rest)"
    by (cases x) (simp_all add: cur_cell_def codec sint_len from_utf8_bytes_of)
next
  fix pre bs x c
  assume a: "cur_cell (cur_at pre bs) = Inr (x, c)"
  from a obtain k c1 where k: "cur_u8 (cur_at pre bs) = Inr (k, c1)" by (auto simp: cur_cell_def)
  from k obtain r1 where r1: "bs = k # r1" "c1 = cur_at (pre @ [k]) r1" by (rule cur_u8_invE)
  show "wf_cell x \<and> (\<exists>rest. bs = enc_cell x @ rest \<and> c = cur_at (pre @ enc_cell x) rest)"
  proof (cases "k = bch CHR ''n'' \<or> k = bch CHR ''u''")
    case True
    then show ?thesis using a r1 k by (auto simp: cur_cell_def split: if_splits)
  next
    case False
    with a k r1 obtain w c2 b s where t: "k = bch CHR ''t''"
      and w: "cur_i32 (cur_at (pre @ [k]) r1) = Inr (w, c2)" "\<not> sint w < 0"
      and b: "cur_take (nat (sint w)) c2 = Inr (b, c)"
      and x: "from_utf8 b = Some s" "x = Text s"
      by (auto simp: cur_cell_def split: if_splits)
    from w(1) obtain r2 where r2: "r1 = be32 w @ r2" "c2 = cur_at (pre @ [k] @ be32 w) r2"
      by (rule ci32.read_invE) simp
    from b [unfolded r2(2)] obtain r3 where r3: "length b = nat (sint w)" "r2 = b @ r3"
      "c = cur_at (pre @ [k] @ be32 w @ b) r3" by (rule cur_take_inv) simp
    have s: "bytes_of s = b" "length s = length b" "valid_str s"
      using x(1) by (auto simp: from_utf8_Some valid_str_def)
    have l: "of_nat (length s) = w" "length s < 2 ^ 31"
      using sint_len_inv [of w] w(2) r3(1) s(2) by simp_all
    have "enc_cell x = k # be32 w @ b" using x(2) t l(1) s(1) by simp
    then show ?thesis using r1 r2 r3 x(2) s(3) l(2) by simp
  qed
qed

interpretation column: codec cur_column enc_column "\<lambda>c. wf_name (col_name c)"
proof
  fix pre rest and x :: rel_column
  assume "wf_name (col_name x)"
  then show "cur_column (cur_at pre (enc_column x @ rest)) = Inr (x, cur_at (pre @ enc_column x) rest)"
    by (simp add: cur_column_def enc_column_def codec cstr.read_back)
next
  fix pre bs c and x :: rel_column
  assume "cur_column (cur_at pre bs) = Inr (x, c)"
  then obtain f c1 nm c2 oid c3 tm where
    a: "cur_u8 (cur_at pre bs) = Inr (f, c1)" "cur_cstr c1 = Inr (nm, c2)"
      "cur_u32 c2 = Inr (oid, c3)" "cur_i32 c3 = Inr (tm, c)"
    and x: "x = \<lparr>flags = f, col_name = nm, type_oid = oid, type_modifier = tm\<rparr>"
    by (auto simp: cur_column_def)
  from a(1) obtain r1 where r1: "bs = f # r1" "c1 = cur_at (pre @ [f]) r1" by (rule cur_u8_invE)
  from a(2) [unfolded r1(2)] obtain r2 where r2: "wf_name nm" "r1 = enc_cstr nm @ r2"
    "c2 = cur_at (pre @ [f] @ enc_cstr nm) r2" by (rule cstr.read_invE) simp
  from a(3) [unfolded r2(3)] obtain r3 where r3: "r2 = be32 oid @ r3"
    "c3 = cur_at (pre @ [f] @ enc_cstr nm @ be32 oid) r3" by (rule c32.read_invE) simp
  from a(4) [unfolded r3(2)] obtain r4 where "r3 = be32 tm @ r4"
    "c = cur_at (pre @ [f] @ enc_cstr nm @ be32 oid @ be32 tm) r4" by (rule ci32.read_invE) simp
  then show "wf_name (col_name x) \<and>
      (\<exists>rest. bs = enc_column x @ rest \<and> c = cur_at (pre @ enc_column x) rest)"
    using r1 r2 r3 x by (simp add: enc_column_def)
qed

lemma unat_len16: "n < 2 ^ 16 \<Longrightarrow> unat (of_nat n :: u16) = n"
  by (simp add: unat_of_nat)

lemma unat_len32: "n < 2 ^ 32 \<Longrightarrow> unat (of_nat n :: u32) = n"
  by (simp add: unat_of_nat)

lemma unat_bounds: "unat (w :: u16) < 2 ^ 16" "unat (v :: u32) < 2 ^ 32"
  using unsigned_less [of w] unsigned_less [of v] by simp_all

interpretation tuple: codec cur_tuple enc_tuple wf_tuple
proof
  fix x pre rest
  assume "wf_tuple x"
  then show "cur_tuple (cur_at pre (enc_tuple x @ rest)) = Inr (x, cur_at (pre @ enc_tuple x) rest)"
    by (simp add: cur_tuple_def enc_tuple_def wf_tuple_def codec unat_len16 cell.read_n_back)
next
  fix pre bs x c
  assume "cur_tuple (cur_at pre bs) = Inr (x, c)"
  then obtain n c1 cs where a: "cur_u16 (cur_at pre bs) = Inr (n, c1)"
      "read_n (unat n) cur_cell c1 = Inr (cs, c)" and x: "x = TupleData cs"
    by (auto simp: cur_tuple_def)
  from a(1) obtain r1 where r1: "bs = be16 n @ r1" "c1 = cur_at (pre @ be16 n) r1"
    by (rule c16.read_invE)
  from a(2) [unfolded r1(2)] obtain r2 where r2: "length cs = unat n" "list_all wf_cell cs"
    "r1 = concat (map enc_cell cs) @ r2" "c = cur_at (pre @ be16 n @ concat (map enc_cell cs)) r2"
    by (rule cell.read_n_invE) simp
  have "of_nat (length cs) = n" using r2(1) by simp
  then show "wf_tuple x \<and> (\<exists>rest. bs = enc_tuple x @ rest \<and> c = cur_at (pre @ enc_tuple x) rest)"
    using r1 r2 x unat_bounds(1) [of n] by (simp add: enc_tuple_def wf_tuple_def)
qed

lemmas codec_parts [codec] =
  cstr.read_back tuple.read_back tuple.read_back_end column.read_n_back_end
  c32.read_n_back_end column.read_n_back c32.read_n_back

lemmas read_invs =
  cur_u8_invE c16.read_invE c32.read_invE ci32.read_invE c64.read_invE ci64.read_invE
  cstr.read_invE tuple.read_invE column.read_n_invE c32.read_n_invE cur_take_inv

section \<open>What each decoder accepts\<close>

lemma decode_begin_inv:
  "decode_begin (cur_at pre bs) = Inr m \<Longrightarrow>
     \<exists>l ts x rest. m = Begin l ts x \<and> bs = be64 l @ be64 ts @ be32 x @ rest"
  by (auto simp: decode_begin_def elim!: read_invs)

lemma decode_commit_inv:
  "decode_commit (cur_at pre bs) = Inr m \<Longrightarrow>
     \<exists>fl l e ts rest. m = Commit l e ts \<and> bs = fl # be64 l @ be64 e @ be64 ts @ rest"
  by (auto simp: decode_commit_def elim!: read_invs)

lemma decode_insert_inv:
  "decode_insert (cur_at pre bs) = Inr m \<Longrightarrow>
     \<exists>r t rest. m = Insert r t \<and> wf_tuple t \<and> bs = be32 r @ bch CHR ''N'' # enc_tuple t @ rest"
  by (auto simp: decode_insert_def elim!: read_invs split: if_splits)

lemma of_nat_unat_len: "length xs = unat (w :: 'a::len word) \<Longrightarrow> of_nat (length xs) = w"
  by simp

lemma decode_truncate_inv:
  "decode_truncate (cur_at pre bs) = Inr m \<Longrightarrow>
     \<exists>fl rs rest. m = Truncate rs \<and> length rs < 2 ^ 32 \<and>
       bs = be32 (of_nat (length rs)) @ fl # concat (map be32 rs) @ rest"
  using unat_bounds(2)
  by (auto simp: decode_truncate_def of_nat_unat_len elim!: read_invs)

lemma decode_relation_inv:
  assumes "decode_relation (cur_at pre bs) = Inr m"
  shows "\<exists>r ns n ri cols rest. m = Relation r ns n ri cols \<and> wf_msg m \<and>
     bs = be32 r @ enc_cstr ns @ enc_cstr n @ ri # be16 (of_nat (length cols)) @
       concat (map enc_column cols) @ rest"
  using assms unat_bounds(1)
  by (auto simp: decode_relation_def of_nat_unat_len elim!: read_invs)

lemma decode_message_inv:
  assumes "decode_message (cur_at pre bs) = Inr m"
  shows "\<exists>fl l p content rest. m = Message p content \<and> wf_msg m \<and>
     bs = fl # be64 l @ enc_cstr p @ be32 (of_nat (length content)) @ content @ rest"
  using assms sint_len_inv
  by (auto simp: decode_message_def elim!: read_invs split: if_splits)

lemma decode_delete_inv:
  assumes "decode_delete (cur_at pre bs) = Inr m"
  shows "\<exists>r k ol rest. m = Delete r k ol \<and> wf_msg m \<and> bs = be32 r @ enc_old k ol @ rest"
  using assms
  by (auto simp: decode_delete_def enc_old_def elim!: read_invs split: if_splits)

lemma decode_update_inv:
  assumes "decode_update (cur_at pre bs) = Inr m"
  shows "\<exists>r k ol t rest. m = Update r k ol t \<and> wf_msg m \<and>
     bs = be32 r @ enc_old k ol @ bch CHR ''N'' # enc_tuple t @ rest"
  using assms
  by (auto simp: decode_update_def update_prefix_def enc_old_def elim!: read_invs split: if_splits)

lemma decode_Nil: "decode [] = Inl (Protocol ''truncated pgoutput message'')"
  by (simp add: decode_def cur_new_def cur_u8_def cur_take_def)

lemma decode_Cons: "decode (t # bs) =
   (let c = cur_at [t] bs in
      if t = bch CHR ''B'' then decode_begin c
      else if t = bch CHR ''C'' then decode_commit c
      else if t = bch CHR ''R'' then decode_relation c
      else if t = bch CHR ''I'' then decode_insert c
      else if t = bch CHR ''U'' then decode_update c
      else if t = bch CHR ''D'' then decode_delete c
      else if t = bch CHR ''T'' then decode_truncate c
      else if t = bch CHR ''M'' then decode_message c
      else if t = bch CHR ''O'' \<or> t = bch CHR ''Y'' then Inr Other
      else Inl (Protocol (''unknown pgoutput message tag: '' @ u8_as_char t)))"
  by (simp add: decode_def cur_new_at cur_u8_Cons Let_def)

lemma decode_accepts:
  assumes "decode data = Inr m"
  shows "wf_msg m \<and> (\<exists>fl lsn rest. data = encode_msg fl lsn m @ rest \<or>
    m = Other \<and> data = bch CHR ''Y'' # rest)"
proof (cases data)
  case Nil
  then show ?thesis using assms by (simp add: decode_Nil)
next
  case (Cons t bs)
  consider "t = bch CHR ''B''" "decode_begin (cur_at [t] bs) = Inr m"
    | "t = bch CHR ''C''" "decode_commit (cur_at [t] bs) = Inr m"
    | "t = bch CHR ''R''" "decode_relation (cur_at [t] bs) = Inr m"
    | "t = bch CHR ''I''" "decode_insert (cur_at [t] bs) = Inr m"
    | "t = bch CHR ''U''" "decode_update (cur_at [t] bs) = Inr m"
    | "t = bch CHR ''D''" "decode_delete (cur_at [t] bs) = Inr m"
    | "t = bch CHR ''T''" "decode_truncate (cur_at [t] bs) = Inr m"
    | "t = bch CHR ''M''" "decode_message (cur_at [t] bs) = Inr m"
    | "t = bch CHR ''O''" "m = Other" | "t = bch CHR ''Y''" "m = Other"
    using assms by (auto simp: Cons decode_Cons Let_def split: if_splits)
  then show ?thesis
    by cases (auto simp: Cons dest!: decode_begin_inv decode_commit_inv decode_relation_inv
        decode_insert_inv decode_update_inv decode_delete_inv decode_truncate_inv
        decode_message_inv)
qed

lemma decode_encode_append:
  assumes "wf_msg m"
  shows "decode (encode_msg fl lsn m @ rest) = Inr m"
proof (cases m)
  case (Update r k ol t)
  then show ?thesis using assms
    by (cases k; cases ol)
      (simp_all add: decode_Cons decode_update_def update_prefix_def enc_old_def codec)
next
  case (Delete r k ol)
  then show ?thesis using assms
    by (cases k; cases ol) (simp_all add: decode_Cons decode_delete_def enc_old_def codec)
qed (use assms in \<open>simp_all add: decode_Cons decode_begin_def decode_commit_def
    decode_relation_def decode_insert_def decode_truncate_def decode_message_def codec
    unat_len16 unat_len32 sint_len\<close>)

lemma length_encode: "length (encode_msg fl lsn m) = length (encode_msg fl' lsn' m)"
  by (cases m) simp_all

section \<open>Properties\<close>

text \<open>
  C5. The decoder accepts exactly the well-formed messages: a buffer decodes to \<open>m\<close> iff \<open>m\<close> is a
  message the protocol can carry and the buffer starts with the encoding of \<open>m\<close>, for some value of
  the fields the decoder reads past (tag \<open>Y\<close> is read as \<open>Other\<close> too). So every message is read
  back as written, bytes behind a message are ignored, and nothing else is accepted.
\<close>

theorem decode_exact:
  "decode data = Inr m \<longleftrightarrow>
     wf_msg m \<and> (\<exists>fl lsn rest. data = encode_msg fl lsn m @ rest \<or>
       m = Other \<and> data = bch CHR ''Y'' # rest)"
proof
  assume "decode data = Inr m"
  then show "wf_msg m \<and> (\<exists>fl lsn rest. data = encode_msg fl lsn m @ rest \<or>
       m = Other \<and> data = bch CHR ''Y'' # rest)" by (rule decode_accepts)
next
  assume a: "wf_msg m \<and> (\<exists>fl lsn rest. data = encode_msg fl lsn m @ rest \<or>
       m = Other \<and> data = bch CHR ''Y'' # rest)"
  then obtain fl lsn rest where
    "data = encode_msg fl lsn m @ rest \<or> m = Other \<and> data = bch CHR ''Y'' # rest" by blast
  then show "decode data = Inr m"
    using a by (auto simp: decode_encode_append decode_Cons Let_def)
qed

text \<open>
  A message cut short anywhere is refused: decoding a proper prefix of the encoding of a
  well-formed message is an error, never a different message.
\<close>

theorem decode_rejects_truncated:
  assumes "wf_msg m" and "k < length (encode_msg fl lsn m)"
  shows "\<exists>e. decode (take k (encode_msg fl lsn m)) = Inl e"
proof (cases "decode (take k (encode_msg fl lsn m))")
  case (Inr m')
  let ?enc = "encode_msg fl lsn m"
  obtain fl' lsn' rest where wf: "wf_msg m'" and
    eq: "take k ?enc = encode_msg fl' lsn' m' @ rest \<or> m' = Other \<and> take k ?enc = bch CHR ''Y'' # rest"
    using decode_accepts [OF Inr] by blast
  have dec: "decode ?enc = Inr m"
    using decode_encode_append [OF assms(1), of fl lsn "[]"] by simp
  have split: "?enc = take k ?enc @ drop k ?enc" by simp
  from eq show ?thesis
  proof
    assume e: "take k ?enc = encode_msg fl' lsn' m' @ rest"
    then have "?enc = encode_msg fl' lsn' m' @ rest @ drop k ?enc" using split by simp
    then have "decode ?enc = Inr m'" using decode_encode_append [OF wf] by metis
    then have "m' = m" using dec by simp
    then have "length (take k ?enc) \<ge> length ?enc"
      using e length_encode [of fl' lsn' m fl lsn] by simp
    then show ?thesis using assms(2) by simp
  next
    assume y: "m' = Other \<and> take k ?enc = bch CHR ''Y'' # rest"
    then have c: "?enc = bch CHR ''Y'' # rest @ drop k ?enc" using split by simp
    then have "decode ?enc = decode (bch CHR ''Y'' # rest @ drop k ?enc)" by (rule arg_cong)
    also have "\<dots> = Inr Other" by (simp add: decode_Cons)
    finally have "decode ?enc = Inr Other" .
    then have "m = Other" using dec by simp
    then show ?thesis using c by simp
  qed
qed simp

theorem decode_rejects_truncated_witness:
  "\<exists>e. decode (take 6 (encode_msg 0 0 (Insert 7 (TupleData [Text ''1'', Null])))) = Inl e"
  by (rule decode_rejects_truncated)
    (simp_all add: wf_tuple_def valid_str_def utf8_width_def enc_tuple_def)

end
