(* ===== verification/Sql.thy ===== *)
theory Sql
  imports PgOutput
begin

text \<open>
  SQL text: the quoting functions \<open>ident\<close> and \<open>lit\<close> of \<^verbatim>\<open>replica/mod.rs\<close> with the cell printers, the
  interface to a local database the components below are written against (\<open>db_ops\<close>), and a lexer for
  the statements the code builds. The lexer is the abstract specification of quoting: what SQL reads
  in the text the code wrote. \<open>lexes_to\<close> and \<open>lexes_any\<close> give the tokens of a piece of text followed
  by anything that may follow it, so statements are lexed piece by piece.
\<close>

section \<open>Quoting\<close>

definition ident :: "string \<Rightarrow> string" where
  "ident s = [dq] @ replace_char dq [dq, dq] s @ [dq]"

definition lit :: "string \<Rightarrow> string" where
  "lit s = [sq] @ replace_char sq [sq, sq] s @ [sq]"

fun cell_lit :: "cell_value \<Rightarrow> string" where
  "cell_lit Null = ''NULL''"
| "cell_lit (Text s) = lit s"
| "cell_lit UnchangedToast = ''NULL''"

fun cell_val :: "cell_value \<Rightarrow> string option" where
  "cell_val Null = None"
| "cell_val UnchangedToast = None"
| "cell_val (Text s) = Some s"

definition target_of :: "string \<Rightarrow> string \<Rightarrow> string" where
  "target_of schema name = ident schema @ ''.'' @ ident name"

section \<open>The local database as the code calls it\<close>

type_synonym sql_row = "string option list"

text \<open>
  \<open>PGlite::exec\<close> and \<open>PGlite::query\<close> over a world \<open>'w\<close> that holds the database. The engine itself is
  not part of the sources, so both are arguments of whatever calls them.
\<close>

record 'w db_ops =
  db_exec :: "string \<Rightarrow> ('w, unit) act"
  db_query :: "string \<Rightarrow> string list \<Rightarrow> ('w, sql_row list) act"

text \<open>\<open>Row::get::<&str>\<close>: out of range and NULL are errors.\<close>

definition get_str :: "nat \<Rightarrow> sql_row \<Rightarrow> string res" where
  "get_str i row =
     (if i < length row
      then ok_or (Protocol ''a Postgres value was `NULL`'') (row ! i)
      else Inl (Protocol (''column index '' @ show_nat i @ '' out of bounds'')))"

text \<open>
  What an action does to a log of statements: it succeeds from every world and appends exactly these
  texts. Loops and sequences of such actions append the concatenation.
\<close>

definition writes :: "('w \<Rightarrow> string list) \<Rightarrow> ('w, unit) act \<Rightarrow> string list \<Rightarrow> bool" where
  "writes log m sqls \<longleftrightarrow> (\<forall>w. \<exists>w'. m w = (Inr (), w') \<and> log w' = log w @ sqls)"

lemma writes_ret [intro!]: "writes log (retA ()) []"
  by (simp add: writes_def)

lemma writes_bind:
  assumes "writes log m p" and "writes log n q"
  shows "writes log (bindA m (\<lambda>_. n)) (p @ q)"
  unfolding writes_def
proof
  fix w
  obtain w1 where 1: "m w = (Inr (), w1)" "log w1 = log w @ p"
    using assms(1) unfolding writes_def by blast
  obtain w2 where 2: "n w1 = (Inr (), w2)" "log w2 = log w1 @ q"
    using assms(2) unfolding writes_def by blast
  show "\<exists>w'. bindA m (\<lambda>_. n) w = (Inr (), w') \<and> log w' = log w @ p @ q"
    using 1 2 by (simp add: bindA_apply)
qed

lemma writes_for:
  "(\<And>x. x \<in> set xs \<Longrightarrow> writes log (f x) (g x)) \<Longrightarrow> writes log (forA xs f) (concat (map g xs))"
proof (induction xs)
  case (Cons x xs)
  then show ?case using writes_bind [of log "f x" "g x" "forA xs f"] by simp
qed auto

lemma concat_if_filter: "concat (map (\<lambda>x. if P x then [f x] else []) xs) = map f (filter P xs)"
  by (induction xs) simp_all

section \<open>A lexer for the statements\<close>

datatype token = TWord string | TQuoted string | TLit string | TSym char

fun scan_quoted :: "char \<Rightarrow> string \<Rightarrow> (string \<times> string) option" where
  "scan_quoted q [] = None"
| "scan_quoted q (c # cs) =
     (if c \<noteq> q then map_option (\<lambda>(s, r). (c # s, r)) (scan_quoted q cs)
      else (case cs of
              [] \<Rightarrow> Some ([], [])
            | d # ds \<Rightarrow> if d = q then map_option (\<lambda>(s, r). (q # s, r)) (scan_quoted q ds)
                       else Some ([], cs)))"

definition word_char :: "char \<Rightarrow> bool" where
  "word_char c \<longleftrightarrow>
     (let n = (of_char c :: nat)
      in 48 \<le> n \<and> n \<le> 57 \<or> 65 \<le> n \<and> n \<le> 90 \<or> n = 95 \<or> 97 \<le> n \<and> n \<le> 122 \<or> 128 \<le> n)"

lemma scan_quoted_length: "scan_quoted q s = Some (t, r) \<Longrightarrow> length r < length s"
proof (induction q s arbitrary: t r rule: scan_quoted.induct)
  case (2 q c cs)
  show ?case
  proof (cases "c = q")
    case False
    then show ?thesis using 2 by fastforce
  next
    case True
    then show ?thesis using 2 by (cases cs) (fastforce split: if_splits)+
  qed
qed simp

text \<open>
  A word directly followed by a quote would be a prefixed literal (\<open>E'..'\<close>, \<open>U&"..\<close>), which the
  lexer refuses; so is a quote that is not closed.
\<close>

function lex :: "string \<Rightarrow> token list option" where
  "lex [] = Some []"
| "lex (c # cs) =
     (if c = CHR '' '' then lex cs
      else if c = dq \<or> c = sq then
        (case scan_quoted c cs of
           None \<Rightarrow> None
         | Some (s, r) \<Rightarrow> map_option ((#) (if c = dq then TQuoted s else TLit s)) (lex r))
      else if word_char c then
        (let w = takeWhile word_char cs; r = dropWhile word_char cs
         in if r \<noteq> [] \<and> (hd r = dq \<or> hd r = sq) then None
            else map_option ((#) (TWord (c # w))) (lex r))
      else map_option ((#) (TSym c)) (lex cs))"
  by pat_completeness auto
termination
  by (relation "measure length")
    (auto simp: length_dropWhile_le le_imp_less_Suc dest: scan_quoted_length)

declare lex.simps(2) [simp del]

text \<open>What may follow a quoted name, a literal or a word.\<close>

definition sep_start :: "string \<Rightarrow> bool" where
  "sep_start s \<longleftrightarrow> (case s of [] \<Rightarrow> True | c # _ \<Rightarrow> c \<noteq> dq \<and> c \<noteq> sq \<and> \<not> word_char c)"

definition lexes_to :: "string \<Rightarrow> token list \<Rightarrow> bool" where
  "lexes_to s ts \<longleftrightarrow> (\<forall>rest. sep_start rest \<longrightarrow> lex (s @ rest) = map_option ((@) ts) (lex rest))"

definition lexes_any :: "string \<Rightarrow> token list \<Rightarrow> bool" where
  "lexes_any s ts \<longleftrightarrow> (\<forall>rest. lex (s @ rest) = map_option ((@) ts) (lex rest))"

text \<open>The tokens of a comma-separated list.\<close>

fun sep_tokens :: "token list \<Rightarrow> token list list \<Rightarrow> token list" where
  "sep_tokens sep [] = []"
| "sep_tokens sep [t] = t"
| "sep_tokens sep (t # u # us) = t @ sep @ sep_tokens sep (u # us)"

fun cell_tokens :: "cell_value \<Rightarrow> token list" where
  "cell_tokens (Text s) = [TLit s]"
| "cell_tokens _ = [TWord ''NULL'']"

definition target_tokens :: "string \<Rightarrow> string \<Rightarrow> token list" where
  "target_tokens schema name = [TQuoted schema, TSym CHR ''.'', TQuoted name]"

section \<open>Lemmas\<close>

named_theorems lexing \<open>pieces of SQL text and their tokens\<close>

lemma map_option_append_id [simp]: "map_option ((@) []) x = x"
  by (cases x) simp_all

lemma map_option_append_append [simp]:
  "map_option ((@) a) (map_option ((@) b) x) = map_option ((@) (a @ b)) x"
  by (cases x) simp_all

lemma append_single: "(@) [t] = (#) t"
  by (simp add: fun_eq_iff)

lemma append_Cons_fun: "(@) (t # ts) = (#) t \<circ> (@) ts"
  by (simp add: fun_eq_iff)

lemma sep_start_simps [simp]:
  "sep_start []"
  "sep_start (c # s) \<longleftrightarrow> c \<noteq> dq \<and> c \<noteq> sq \<and> \<not> word_char c"
  by (simp_all add: sep_start_def)

lemma append_Nil_fun: "(@) [] = (\<lambda>x. x)"
  by (simp add: fun_eq_iff)

lemma not_word_char [simp]:
  "\<not> word_char CHR '' ''" "\<not> word_char CHR ''(''" "\<not> word_char CHR '')''"
  "\<not> word_char CHR '',''" "\<not> word_char CHR ''.''" "\<not> word_char CHR ''=''"
  "\<not> word_char CHR '';''" "\<not> word_char CHR ''[''" "\<not> word_char CHR '']''"
  "\<not> word_char CHR '':''" "\<not> word_char nl" "\<not> word_char CHR ''|''"
  by (simp_all add: word_char_def)

lemma sep_start_append: "s \<noteq> [] \<Longrightarrow> sep_start (s @ t) = sep_start s"
  by (cases s) simp_all

lemma scan_quoted_replace:
  "sep_start rest \<or> rest = [] \<or> hd rest \<noteq> q \<Longrightarrow> q = dq \<or> q = sq \<Longrightarrow>
     scan_quoted q (replace_char q [q, q] s @ q # rest) = Some (s, rest)"
  by (induction s) (auto split: list.splits)

lemma lex_ident: "sep_start rest \<Longrightarrow> lex (ident s @ rest) = map_option ((#) (TQuoted s)) (lex rest)"
  by (simp add: ident_def lex.simps(2) scan_quoted_replace)

lemma lex_lit: "sep_start rest \<Longrightarrow> lex (lit s @ rest) = map_option ((#) (TLit s)) (lex rest)"
  by (simp add: lit_def lex.simps(2) scan_quoted_replace)

lemma lexes_ident [lexing]: "lexes_to (ident s) [TQuoted s]"
  by (simp add: lexes_to_def append_single lex_ident)

lemma lexes_lit [lexing]: "lexes_to (lit s) [TLit s]"
  by (simp add: lexes_to_def append_single lex_lit)

lemma takeWhile_sep: "sep_start rest \<Longrightarrow> takeWhile word_char rest = []"
  by (cases rest) simp_all

lemma dropWhile_sep: "sep_start rest \<Longrightarrow> dropWhile word_char rest = rest"
  by (cases rest) simp_all

lemma lexes_word: "w \<noteq> [] \<Longrightarrow> list_all word_char w \<Longrightarrow> hd w \<noteq> CHR '' '' \<Longrightarrow> lexes_to w [TWord w]"
proof -
  assume a: "w \<noteq> []" "list_all word_char w" "hd w \<noteq> CHR '' ''"
  then obtain c cs where w: "w = c # cs" by (cases w) auto
  have q: "\<not> word_char dq" "\<not> word_char sq" by (simp_all add: word_char_def)
  have t: "takeWhile word_char (cs @ rest) = cs" "dropWhile word_char (cs @ rest) = rest"
    if "sep_start rest" for rest
    using a(2) w that by (simp_all add: takeWhile_append2 dropWhile_append2 list_all_iff
        takeWhile_sep dropWhile_sep)
  show "lexes_to w [TWord w]"
    unfolding lexes_to_def
  proof (intro allI impI)
    fix rest
    assume r: "sep_start rest"
    have "\<not> (rest \<noteq> [] \<and> (hd rest = dq \<or> hd rest = sq))" using r by (cases rest) auto
    then show "lex (w @ rest) = map_option ((@) [TWord w]) (lex rest)"
      using a q w t [OF r] by (auto simp: lex.simps(2) append_single)
  qed
qed

lemma lexes_NULL [lexing]: "lexes_to ''NULL'' [TWord ''NULL'']"
  by (rule lexes_word) (simp_all add: word_char_def)

lemma lexes_cell [lexing]: "lexes_to (cell_lit c) (cell_tokens c)"
  by (cases c) (simp_all add: lexing)

lemma lexes_any_Nil [lexing]: "lexes_any [] []"
  by (simp add: lexes_any_def)

lemma lexes_any_space: "lexes_any s ts \<Longrightarrow> lexes_any (CHR '' '' # s) ts"
  by (simp add: lexes_any_def lex.simps(2))

lemma lexes_any_sym:
  "c \<noteq> CHR '' '' \<Longrightarrow> c \<noteq> dq \<Longrightarrow> c \<noteq> sq \<Longrightarrow> \<not> word_char c \<Longrightarrow> lexes_any s ts \<Longrightarrow>
     lexes_any (c # s) (TSym c # ts)"
  by (simp add: lexes_any_def lex.simps(2) append_Cons_fun option.map_comp)

lemma lexes_any_append: "lexes_any s ts \<Longrightarrow> lexes_any t us \<Longrightarrow> lexes_any (s @ t) (ts @ us)"
  by (simp add: lexes_any_def)

lemma lexes_any_to: "lexes_any s ts \<Longrightarrow> lexes_to t us \<Longrightarrow> lexes_to (s @ t) (ts @ us)"
  by (simp add: lexes_any_def lexes_to_def)

lemma lexes_to_any:
  "lexes_to s ts \<Longrightarrow> lexes_any t us \<Longrightarrow> t \<noteq> [] \<Longrightarrow> sep_start t \<Longrightarrow> lexes_any (s @ t) (ts @ us)"
  by (simp add: lexes_any_def lexes_to_def sep_start_append)

lemma lexes_any_to': "lexes_any s ts \<Longrightarrow> lexes_to s ts"
  by (simp add: lexes_any_def lexes_to_def)

lemma lexes_to_to:
  "lexes_to s ts \<Longrightarrow> lexes_any sep us \<Longrightarrow> sep \<noteq> [] \<Longrightarrow> sep_start sep \<Longrightarrow> lexes_to t vs \<Longrightarrow>
     lexes_to (s @ sep @ t) (ts @ us @ vs)"
  using lexes_any_to [OF lexes_to_any, of s ts sep us t vs] by simp

lemma lexes_keyword:
  "w \<noteq> [] \<Longrightarrow> list_all word_char w \<Longrightarrow> hd w \<noteq> CHR '' '' \<Longrightarrow> lexes_any t us \<Longrightarrow> t \<noteq> [] \<Longrightarrow>
     sep_start t \<Longrightarrow> lexes_any (w @ t) (TWord w # us)"
  using lexes_to_any [OF lexes_word, of w t us] by simp

lemma lexes_join:
  assumes "\<And>x. x \<in> set xs \<Longrightarrow> lexes_to (f x) (g x)" and "lexes_any sep us" and "sep \<noteq> []"
    and "sep_start sep"
  shows "lexes_to (join_str sep (map f xs)) (sep_tokens us (map g xs))"
  using assms(1)
proof (induction xs)
  case Nil
  then show ?case by (simp add: lexes_any_to' lexes_any_Nil)
next
  case (Cons x xs)
  show ?case
  proof (cases xs)
    case Nil
    then show ?thesis using Cons.prems by simp
  next
    case (Cons y ys)
    then show ?thesis
      using lexes_to_to [OF Cons.prems [of x] assms(2-4) Cons.IH] Cons.prems by simp
  qed
qed

lemma lexes_comma [lexing]: "lexes_any '', '' [TSym CHR '','']"
  by (intro lexes_any_sym lexes_any_space lexes_any_Nil) (simp_all add: word_char_def)

lemma lexes_target [lexing]: "lexes_to (target_of s n) (target_tokens s n)"
  using lexes_to_to [OF lexes_ident [of s] lexes_any_sym [OF _ _ _ _ lexes_any_Nil, of "CHR ''.''"]
      _ _ lexes_ident [of n]]
  by (simp add: target_of_def target_tokens_def word_char_def)

lemma lexes_lex: "lexes_to s ts \<Longrightarrow> lex s = Some ts"
  unfolding lexes_to_def by (drule spec [of _ "[]"]) simp

lemma ident_inj: "ident s = ident t \<longleftrightarrow> s = t"
  by (metis lexes_lex [OF lexes_ident] list.inject option.inject token.inject(2))

lemma lit_inj: "lit s = lit t \<longleftrightarrow> s = t"
  by (metis lexes_lex [OF lexes_lit] list.inject option.inject token.inject(3))

section \<open>Properties\<close>

text \<open>
  C6. Quoting is injection-free: whatever the string holds, SQL reads \<open>ident s\<close> as the one quoted
  name \<open>s\<close> and \<open>lit s\<close> as the one literal \<open>s\<close>, and nothing of it leaks into what follows.
\<close>

theorem quoting_sound:
  "lexes_to (ident s) [TQuoted s] \<and> lexes_to (lit s) [TLit s]"
  by (simp add: lexes_ident lexes_lit)

end
