(* ===== verification/Meta.thy ===== *)
theory Meta
  imports Sql
begin

text \<open>
  \<^verbatim>\<open>replica/meta.rs\<close>: log sequence numbers with their text form, and the one-row table
  \<^verbatim>\<open>_pglite_replica\<close> that holds the replica's persistent state. What the engine does with the table's
  statements is an argument; \<open>stores_meta\<close> states the documented meaning of the statements the round
  trip relies on.
\<close>

section \<open>Log sequence numbers\<close>

datatype lsn = Lsn (lsn_val: u64)

instantiation lsn :: linorder
begin

definition less_eq_lsn :: "lsn \<Rightarrow> lsn \<Rightarrow> bool" where
  "less_eq_lsn a b \<longleftrightarrow> lsn_val a \<le> lsn_val b"

definition less_lsn :: "lsn \<Rightarrow> lsn \<Rightarrow> bool" where
  "less_lsn a b \<longleftrightarrow> lsn_val a < lsn_val b"

instance
  by standard (auto simp: less_eq_lsn_def less_lsn_def lsn.expand)

end

definition from_pg_str :: "string \<Rightarrow> lsn res" where
  "from_pg_str s =
     bindR (ok_or (LsnError s) (split_once CHR ''/'' s)) (\<lambda>(hi, lo).
     bindR (ok_or (LsnError s) (parse_radix 16 u64_max hi)) (\<lambda>hi.
     bindR (ok_or (LsnError s) (parse_radix 16 u64_max lo)) (\<lambda>lo.
       if hi > u32_max \<or> lo > u32_max then Inl (LsnError s)
       else Inr (Lsn (push_bit 32 (of_nat hi) OR of_nat lo)))))"

definition to_pg_str :: "lsn \<Rightarrow> string" where
  "to_pg_str l =
     to_radix 16 (unat (drop_bit 32 (lsn_val l))) @ ''/'' @
     to_radix 16 (unat (lsn_val l AND 0xFFFFFFFF))"

section \<open>The state table\<close>

record replica_state =
  st_slot_name :: string
  st_publication :: string
  st_watermark :: lsn
  st_fingerprint :: string

definition meta_create_sql :: string where
  "meta_create_sql = join_str [nl]
     [''CREATE TABLE IF NOT EXISTS _pglite_replica ('',
      ''            id integer PRIMARY KEY DEFAULT 1 CHECK (id = 1),'',
      ''            slot_name text NOT NULL,'',
      ''            publication text NOT NULL,'',
      ''            watermark_lsn text NOT NULL,'',
      ''            fingerprint text NOT NULL,'',
      ''            security_version bigint NOT NULL DEFAULT 0,'',
      ''            security_fingerprint text NOT NULL DEFAULT '' @ [sq, sq] @ '','',
      ''            updated_at timestamptz NOT NULL DEFAULT now()'',
      ''        )'']"

definition ensure_meta_table :: "'w db_ops \<Rightarrow> ('w, unit) act" where
  "ensure_meta_table db =
     bindA (db_exec db meta_create_sql) (\<lambda>_.
     bindA (db_query db (''ALTER TABLE _pglite_replica ADD COLUMN IF NOT EXISTS '' @
              ''security_version bigint NOT NULL DEFAULT 0'') []) (\<lambda>_.
     bindA (db_query db (''ALTER TABLE _pglite_replica ADD COLUMN IF NOT EXISTS '' @
              ''security_fingerprint text NOT NULL DEFAULT '' @ [sq, sq]) []) (\<lambda>_.
       retA ())))"

definition load_sql :: string where
  "load_sql = ''SELECT slot_name, publication, watermark_lsn, fingerprint '' @
     ''FROM _pglite_replica WHERE id = 1''"

definition row_state :: "sql_row \<Rightarrow> replica_state res" where
  "row_state row =
     bindR (get_str 0 row) (\<lambda>slot. bindR (get_str 1 row) (\<lambda>pub.
     bindR (get_str 2 row) (\<lambda>wm. bindR (from_pg_str wm) (\<lambda>lsn.
     bindR (get_str 3 row) (\<lambda>fp.
       Inr \<lparr>st_slot_name = slot, st_publication = pub, st_watermark = lsn, st_fingerprint = fp\<rparr>)))))"

definition load_state :: "'w db_ops \<Rightarrow> ('w, replica_state option) act" where
  "load_state db =
     bindA (db_query db load_sql []) (\<lambda>rows.
       case rows of [] \<Rightarrow> retA None | row # _ \<Rightarrow> liftA (mapR Some (row_state row)))"

definition init_sql :: string where
  "init_sql = join_str [nl]
     [''INSERT INTO _pglite_replica (id, slot_name, publication, watermark_lsn, fingerprint)'',
      ''         VALUES (1, $1, $2, $3, $4)'',
      ''         ON CONFLICT (id) DO UPDATE SET'',
      ''            slot_name = EXCLUDED.slot_name,'',
      ''            publication = EXCLUDED.publication,'',
      ''            watermark_lsn = EXCLUDED.watermark_lsn,'',
      ''            fingerprint = EXCLUDED.fingerprint,'',
      ''            updated_at = now()'']"

definition init_state ::
  "'w db_ops \<Rightarrow> string \<Rightarrow> string \<Rightarrow> lsn \<Rightarrow> string \<Rightarrow> ('w, unit) act" where
  "init_state db slot pub wm fp =
     bindA (db_query db init_sql [slot, pub, to_pg_str wm, fp]) (\<lambda>_. retA ())"

definition update_fp_sql :: string where
  "update_fp_sql =
     ''UPDATE _pglite_replica SET fingerprint = $1, updated_at = now() WHERE id = 1''"

definition update_fingerprint :: "'w db_ops \<Rightarrow> string \<Rightarrow> ('w, unit) act" where
  "update_fingerprint db fp = bindA (db_query db update_fp_sql [fp]) (\<lambda>_. retA ())"

definition sec_fp_sql :: string where
  "sec_fp_sql = ''SELECT security_fingerprint FROM _pglite_replica WHERE id = 1''"

definition meta_security_fingerprint :: "'w db_ops \<Rightarrow> ('w, string option) act" where
  "meta_security_fingerprint db =
     bindA (db_query db sec_fp_sql []) (\<lambda>rows.
       case rows of row # _ \<Rightarrow> liftA (mapR Some (get_str 0 row)) | [] \<Rightarrow> retA None)"

definition bump_sql :: string where
  "bump_sql = ''UPDATE _pglite_replica SET security_version = security_version + 1, '' @
     ''security_fingerprint = $1, updated_at = now() WHERE id = 1''"

definition bump_security :: "'w db_ops \<Rightarrow> string \<Rightarrow> ('w, unit) act" where
  "bump_security db fp = bindA (db_query db bump_sql [fp]) (\<lambda>_. retA ())"

definition sec_version_sql :: string where
  "sec_version_sql = ''SELECT security_version::text FROM _pglite_replica WHERE id = 1''"

definition security_version :: "'w db_ops \<Rightarrow> ('w, u64) act" where
  "security_version db =
     bindA (db_query db sec_version_sql []) (\<lambda>rows.
       case rows of
         [] \<Rightarrow> retA 0
       | row # _ \<Rightarrow>
           bindA (liftA (get_str 0 row)) (\<lambda>s.
             retA (case parse_u64 s of None \<Rightarrow> 0 | Some v \<Rightarrow> v)))"

section \<open>The documented meaning of the statements\<close>

record meta_row =
  mr_slot :: string
  mr_pub :: string
  mr_wm :: string
  mr_fp :: string
  mr_version :: nat
  mr_sec_fp :: string

text \<open>
  \<open>row\<close> reads the table's row out of the world: the select returns it, the upsert writes the four
  columns it names, the two updates write theirs where the row exists, and each succeeds.
\<close>

definition stores_meta :: "'w db_ops \<Rightarrow> ('w \<Rightarrow> meta_row option) \<Rightarrow> bool" where
  "stores_meta db row \<longleftrightarrow>
     (\<forall>w. db_query db load_sql [] w =
        (Inr (case row w of None \<Rightarrow> []
              | Some m \<Rightarrow> [[Some (mr_slot m), Some (mr_pub m), Some (mr_wm m), Some (mr_fp m)]]), w)) \<and>
     (\<forall>w. db_query db sec_fp_sql [] w =
        (Inr (case row w of None \<Rightarrow> [] | Some m \<Rightarrow> [[Some (mr_sec_fp m)]]), w)) \<and>
     (\<forall>w. db_query db sec_version_sql [] w =
        (Inr (case row w of None \<Rightarrow> [] | Some m \<Rightarrow> [[Some (show_nat (mr_version m))]]), w)) \<and>
     (\<forall>w s p l f. \<exists>rs w'. db_query db init_sql [s, p, l, f] w = (Inr rs, w') \<and>
        (\<exists>v sf. (v, sf) = (case row w of None \<Rightarrow> (0, []) | Some m \<Rightarrow> (mr_version m, mr_sec_fp m)) \<and>
           row w' = Some \<lparr>mr_slot = s, mr_pub = p, mr_wm = l, mr_fp = f, mr_version = v, mr_sec_fp = sf\<rparr>)) \<and>
     (\<forall>w f. \<exists>rs w'. db_query db update_fp_sql [f] w = (Inr rs, w') \<and>
        row w' = map_option (\<lambda>m. m\<lparr>mr_fp := f\<rparr>) (row w)) \<and>
     (\<forall>w f. \<exists>rs w'. db_query db bump_sql [f] w = (Inr rs, w') \<and>
        row w' = map_option (\<lambda>m. m\<lparr>mr_version := mr_version m + 1, mr_sec_fp := f\<rparr>) (row w))"

section \<open>Lemmas\<close>

lemma low32: "(w :: u64) AND 0xFFFFFFFF = take_bit 32 w"
proof -
  have "(0xFFFFFFFF :: u64) = mask 32" by (simp add: mask_eq_exp_minus_1)
  then show ?thesis by (simp add: take_bit_eq_mask)
qed

lemma halves: "push_bit 32 (drop_bit 32 w) OR take_bit 32 w = (w :: u64)"
  by (rule bit_word_eqI) (auto simp: bit_simps)

lemma unat_halves:
  "unat (drop_bit 32 (w :: u64)) = unat w div 2 ^ 32"
  "unat (take_bit 32 (w :: u64)) = unat w mod 2 ^ 32"
  by (rule trans [OF unat_drop_bit_eq drop_bit_eq_div])
    (rule trans [OF unsigned_take_bit_eq take_bit_eq_mod])

lemma halves_le: "unat (drop_bit 32 (w :: u64)) \<le> u32_max" "unat (take_bit 32 w) \<le> u32_max"
proof -
  have "unat w < 2 ^ LENGTH(64)" by (rule unsigned_less)
  then show "unat (drop_bit 32 w) \<le> u32_max" by (simp add: unat_halves)
  have "unat w mod 2 ^ 32 < 2 ^ 32" by simp
  then show "unat (take_bit 32 w) \<le> u32_max" by (simp add: unat_halves del: mod_less_divisor)
qed

lemma join_halves:
  assumes "lo \<le> u32_max"
  shows "push_bit 32 (of_nat hi) OR of_nat lo = (of_nat (hi * 2 ^ 32 + lo) :: u64)"
proof -
  have "take_bit 32 lo = lo" using assms by (simp add: take_bit_nat_eq_self_iff)
  then have lo: "take_bit 32 (of_nat lo :: u64) = of_nat lo" by (metis take_bit_of_nat)
  have "push_bit 32 (of_nat hi :: u64) AND take_bit 32 (of_nat lo) = 0"
    by (rule bit_word_eqI) (auto simp: bit_simps)
  then have "push_bit 32 (of_nat hi) OR of_nat lo = push_bit 32 (of_nat hi) + (of_nat lo :: u64)"
    unfolding lo by (simp add: disjunctive_add_eq_or)
  then show ?thesis by (simp add: push_bit_eq_mult)
qed

lemma lsn_round_trip_aux: "from_pg_str (to_pg_str l) = Inr l"
proof -
  let ?h = "unat (drop_bit 32 (lsn_val l))" and ?l = "unat (take_bit 32 (lsn_val l))"
  have b: "?h \<le> u32_max" "?l \<le> u32_max" by (rule halves_le)+
  then have "parse_radix 16 u64_max (to_radix 16 ?h) = Some ?h"
    "parse_radix 16 u64_max (to_radix 16 ?l) = Some ?l"
    by (simp_all add: parse_radix_to_radix)
  moreover have "split_once CHR ''/'' (to_pg_str l) = Some (to_radix 16 ?h, to_radix 16 ?l)"
    unfolding to_pg_str_def low32 by (simp add: split_once_append to_radix_not_in)
  ultimately show ?thesis
    using b by (simp add: from_pg_str_def halves)
qed

section \<open>Properties\<close>

text \<open>
  C38. A position printed is read back: for every 64-bit position, parsing its text form
  gives the position itself.
\<close>

theorem lsn_round_trip: "from_pg_str (to_pg_str l) = Inr l"
  by (rule lsn_round_trip_aux)

text \<open>
  Parsing accepts exactly two hexadecimal numbers of at most 32 bits around a
  slash, the value is the first shifted by 32 bits plus the second, and every other text is refused
  with the text in the error.
\<close>

theorem lsn_parse_spec:
  "from_pg_str s =
     (case split_once CHR ''/'' s of
        None \<Rightarrow> Inl (LsnError s)
      | Some (a, b) \<Rightarrow>
          (case (parse_radix 16 u32_max a, parse_radix 16 u32_max b) of
             (Some hi, Some lo) \<Rightarrow> Inr (Lsn (of_nat (hi * 2 ^ 32 + lo)))
           | _ \<Rightarrow> Inl (LsnError s)))"
proof (cases "split_once CHR ''/'' s")
  case (Some p)
  obtain a b where p: "p = (a, b)" by (cases p)
  have n: "parse_radix 16 u32_max t = (case parse_radix 16 u64_max t of None \<Rightarrow> None
      | Some n \<Rightarrow> if n \<le> u32_max then Some n else None)" for t
    by (rule parse_radix_narrow) simp_all
  show ?thesis
    unfolding from_pg_str_def n using Some p
    by (cases "parse_radix 16 u64_max a"; cases "parse_radix 16 u64_max b")
      (auto simp: join_halves simp del: of_nat_add of_nat_mult)
qed (simp add: from_pg_str_def)

text \<open>A database that holds nothing but the state row, to show that the hypothesis can hold.\<close>

definition mem_meta_db :: "meta_row option db_ops" where
  "mem_meta_db =
     \<lparr>db_exec = (\<lambda>_. retA ()),
      db_query = (\<lambda>sql ps w.
        if sql = load_sql then
          (Inr (case w of None \<Rightarrow> []
                | Some m \<Rightarrow> [[Some (mr_slot m), Some (mr_pub m), Some (mr_wm m), Some (mr_fp m)]]), w)
        else if sql = sec_fp_sql then
          (Inr (case w of None \<Rightarrow> [] | Some m \<Rightarrow> [[Some (mr_sec_fp m)]]), w)
        else if sql = sec_version_sql then
          (Inr (case w of None \<Rightarrow> [] | Some m \<Rightarrow> [[Some (show_nat (mr_version m))]]), w)
        else if sql = init_sql then
          (Inr [], Some \<lparr>mr_slot = ps ! 0, mr_pub = ps ! 1, mr_wm = ps ! 2, mr_fp = ps ! 3,
             mr_version = (case w of None \<Rightarrow> 0 | Some m \<Rightarrow> mr_version m),
             mr_sec_fp = (case w of None \<Rightarrow> [] | Some m \<Rightarrow> mr_sec_fp m)\<rparr>)
        else if sql = update_fp_sql then (Inr [], map_option (\<lambda>m. m\<lparr>mr_fp := ps ! 0\<rparr>) w)
        else if sql = bump_sql then
          (Inr [], map_option (\<lambda>m. m\<lparr>mr_version := mr_version m + 1, mr_sec_fp := ps ! 0\<rparr>) w)
        else (Inr [], w))\<rparr>"

lemma sql_texts_differ [simp]:
  "sec_fp_sql \<noteq> load_sql" "sec_version_sql \<noteq> load_sql" "sec_version_sql \<noteq> sec_fp_sql"
  "init_sql \<noteq> load_sql" "init_sql \<noteq> sec_fp_sql" "init_sql \<noteq> sec_version_sql"
  "update_fp_sql \<noteq> load_sql" "update_fp_sql \<noteq> sec_fp_sql" "update_fp_sql \<noteq> sec_version_sql"
  "update_fp_sql \<noteq> init_sql"
  "bump_sql \<noteq> load_sql" "bump_sql \<noteq> sec_fp_sql" "bump_sql \<noteq> sec_version_sql"
  "bump_sql \<noteq> init_sql" "bump_sql \<noteq> update_fp_sql"
  by (simp_all add: load_sql_def sec_fp_sql_def sec_version_sql_def init_sql_def update_fp_sql_def
      bump_sql_def)

lemma stores_meta_mem: "stores_meta mem_meta_db (\<lambda>w. w)"
  by (auto simp: stores_meta_def mem_meta_db_def split: option.split)

lemma stores_metaD:
  assumes "stores_meta db row"
  shows
    "db_query db load_sql [] w = (Inr (case row w of None \<Rightarrow> []
       | Some m \<Rightarrow> [[Some (mr_slot m), Some (mr_pub m), Some (mr_wm m), Some (mr_fp m)]]), w)"
    "db_query db sec_fp_sql [] w = (Inr (case row w of None \<Rightarrow> [] | Some m \<Rightarrow> [[Some (mr_sec_fp m)]]), w)"
    "db_query db sec_version_sql [] w =
       (Inr (case row w of None \<Rightarrow> [] | Some m \<Rightarrow> [[Some (show_nat (mr_version m))]]), w)"
    "\<exists>rs w'. db_query db init_sql [s, p, l, f] w = (Inr rs, w') \<and>
       (\<exists>v sf. row w' = Some \<lparr>mr_slot = s, mr_pub = p, mr_wm = l, mr_fp = f, mr_version = v, mr_sec_fp = sf\<rparr>)"
    "\<exists>rs w'. db_query db bump_sql [f] w = (Inr rs, w') \<and>
       row w' = map_option (\<lambda>m. m\<lparr>mr_version := mr_version m + 1, mr_sec_fp := f\<rparr>) (row w)"
  using assms unfolding stores_meta_def by blast+

text \<open>
  The replica finds after a restart the state it stored: loading after an initialisation
  returns the slot, the publication, the position and the fingerprint that were written.
\<close>

theorem meta_round_trip:
  assumes "stores_meta db row"
  shows "fst (load_state db (snd (init_state db slot pub wm fp w))) =
    Inr (Some \<lparr>st_slot_name = slot, st_publication = pub, st_watermark = wm, st_fingerprint = fp\<rparr>)"
proof -
  obtain rs w' v sf where w': "db_query db init_sql [slot, pub, to_pg_str wm, fp] w = (Inr rs, w')"
    "row w' = Some \<lparr>mr_slot = slot, mr_pub = pub, mr_wm = to_pg_str wm, mr_fp = fp, mr_version = v, mr_sec_fp = sf\<rparr>"
    using stores_metaD(4) [OF assms] by blast
  then show ?thesis
    using stores_metaD(1) [OF assms, of w']
    by (simp add: init_state_def load_state_def bindA_def row_state_def get_str_def lsn_round_trip_aux)
qed

theorem meta_round_trip_witness:
  "fst (load_state mem_meta_db (snd (init_state mem_meta_db ''slot'' ''pub'' (Lsn 42) ''public|t|id:23'' None))) =
    Inr (Some \<lparr>st_slot_name = ''slot'', st_publication = ''pub'', st_watermark = Lsn 42,
               st_fingerprint = ''public|t|id:23''\<rparr>)"
  by (rule meta_round_trip [OF stores_meta_mem])

text \<open>
  Recording a new security state raises the version by one and keeps its fingerprint:
  both are what the next reads return, for every version below the end of the 64-bit range.
\<close>

theorem meta_bump_security:
  assumes "stores_meta db row" and "row w = Some m" and "mr_version m < u64_max"
  shows "fst (security_version db (snd (bump_security db f w))) = Inr (of_nat (mr_version m + 1)) \<and>
    fst (meta_security_fingerprint db (snd (bump_security db f w))) = Inr (Some f)"
proof -
  obtain rs w' where w': "db_query db bump_sql [f] w = (Inr rs, w')"
    "row w' = Some (m\<lparr>mr_version := mr_version m + 1, mr_sec_fp := f\<rparr>)"
    using stores_metaD(5) [OF assms(1), of f w] assms(2) by auto
  moreover have "parse_u64 (show_nat (mr_version m + 1)) = Some (of_nat (mr_version m + 1))"
    using assms(3) by (simp add: parse_u64_def parse_radix_to_radix del: of_nat_add of_nat_Suc)
  ultimately show ?thesis
    using stores_metaD(2,3) [OF assms(1), of w']
    by (simp add: bump_security_def security_version_def meta_security_fingerprint_def bindA_def
        get_str_def)
qed

theorem meta_bump_security_witness:
  "let w = Some \<lparr>mr_slot = ''s'', mr_pub = ''p'', mr_wm = ''0/0'', mr_fp = [], mr_version = 6, mr_sec_fp = []\<rparr>
   in fst (security_version mem_meta_db (snd (bump_security mem_meta_db ''fp'' w))) = Inr 7 \<and>
      fst (meta_security_fingerprint mem_meta_db (snd (bump_security mem_meta_db ''fp'' w))) = Inr (Some ''fp'')"
  using meta_bump_security [OF stores_meta_mem, of "Some \<lparr>mr_slot = ''s'', mr_pub = ''p'',
      mr_wm = ''0/0'', mr_fp = [], mr_version = 6, mr_sec_fp = []\<rparr>" _ "''fp''"]
  by simp

end
