(* ===== verification/Wire.thy ===== *)
theory Wire
  imports Meta
begin

text \<open>
  \<^verbatim>\<open>replica/wire.rs\<close>: the connection to the upstream server. The message parser, the password
  hashes and the TLS stack are other crates; the model takes what they return. A connection is the
  list of results its next \<open>read_message\<close> calls give (\<open>inbox\<close>) and the bytes written so far; a loop
  that comes to the end of the inbox is still waiting, which is \<open>None\<close>. \<open>read_message\<close> itself, the
  loop over \<open>Message::parse\<close> and \<open>fill\<close>, is modelled over the parser and the chunks the socket
  returns.
\<close>

section \<open>Messages of the server\<close>

text \<open>
  The messages of \<open>postgres_protocol\<close> the code tells apart. Error fields are the pairs of type byte
  and text; what the crate decodes only when it is asked to (the cells of a row, the columns of a description, the
  texts of a notification) is malformed (\<open>Inl\<close>) or the value.
\<close>

datatype backend_msg =
    AuthenticationOk
  | AuthenticationCleartextPassword
  | AuthenticationMd5Password bytes
  | AuthenticationSasl "string list"
  | AuthenticationSaslContinue bytes
  | AuthenticationSaslFinal bytes
  | ParameterStatus
  | BackendKeyData
  | NoticeResponse
  | ReadyForQuery
  | ErrorResponse "(char \<times> string) list"
  | DataRow "string + sql_row"
  | ParameterDescription "string + u32 list"
  | RowDescription "string + (string \<times> u32) list"
  | CommandComplete
  | EmptyQueryResponse
  | CopyInResponse
  | CopyOutResponse
  | CopyData bytes
  | CopyDone
  | NotificationResponse "string + string" "string + string"
  | OtherMessage

type_synonym inbox = "backend_msg res list"

text \<open>\<open>Error::from_error_fields\<close>: the last field of each type counts.\<close>

fun add_field :: "error \<Rightarrow> char \<times> string \<Rightarrow> error" where
  "add_field (Database st m d h) (c, v) =
     (if c = CHR ''C'' then Database v m d h
      else if c = CHR ''M'' then Database st v d h
      else if c = CHR ''D'' then Database st m (Some v) h
      else if c = CHR ''H'' then Database st m d (Some v)
      else Database st m d h)"
| "add_field e _ = e"

definition from_error_fields :: "(char \<times> string) list \<Rightarrow> error" where
  "from_error_fields fs = foldl add_field (Database [] [] None None) fs"

section \<open>Reading messages\<close>

text \<open>
  \<open>fill\<close> appends one chunk or fails; an empty chunk is the end of the stream. The chunks (or IO
  errors) the socket will return are the list \<open>reads\<close>.
\<close>

definition fill :: "bytes \<Rightarrow> (error + bytes) \<Rightarrow> bytes res" where
  "fill buf r =
     bindR r (\<lambda>chunk. if chunk = [] then Inl (Upstream ''connection closed by upstream'')
                      else Inr (buf @ chunk))"

fun read_message ::
  "(bytes \<Rightarrow> string + (backend_msg \<times> bytes) option) \<Rightarrow> bytes \<Rightarrow> (error + bytes) list \<Rightarrow>
     (backend_msg res \<times> bytes \<times> (error + bytes) list) option" where
  "read_message parse buf reads =
     (case parse buf of
        Inl e \<Rightarrow> Some (Inl (Protocol e), buf, reads)
      | Inr (Some (m, rest)) \<Rightarrow> Some (Inr m, rest, reads)
      | Inr None \<Rightarrow>
          (case reads of
             [] \<Rightarrow> None
           | r # rs \<Rightarrow> (case fill buf r of
                          Inl e \<Rightarrow> Some (Inl e, buf, rs)
                        | Inr buf' \<Rightarrow> read_message parse buf' rs)))"

declare read_message.simps [simp del]

section \<open>Queries\<close>

fun simple_query_loop ::
  "inbox \<Rightarrow> sql_row list \<Rightarrow> error option \<Rightarrow> (sql_row list res \<times> inbox) option" where
  "simple_query_loop [] rows err = None"
| "simple_query_loop (Inl e # ms) rows err = Some (Inl e, ms)"
| "simple_query_loop (Inr m # ms) rows err =
     (case m of
        DataRow (Inr vals) \<Rightarrow> simple_query_loop ms (rows @ [vals]) err
      | DataRow (Inl e) \<Rightarrow> Some (Inl (Protocol e), ms)
      | RowDescription _ \<Rightarrow> simple_query_loop ms rows err
      | CommandComplete \<Rightarrow> simple_query_loop ms rows err
      | EmptyQueryResponse \<Rightarrow> simple_query_loop ms rows err
      | ParameterStatus \<Rightarrow> simple_query_loop ms rows err
      | NoticeResponse \<Rightarrow> simple_query_loop ms rows err
      | ErrorResponse fs \<Rightarrow> simple_query_loop ms rows (Some (from_error_fields fs))
      | ReadyForQuery \<Rightarrow>
          Some (case err of Some e \<Rightarrow> Inl e | None \<Rightarrow> Inr rows, ms)
      | _ \<Rightarrow> Some (Inl (Protocol ''unexpected message during simple query''), ms))"

text \<open>
  The query message of the simple protocol (\<open>frontend::query\<close>): tag, length, text, NUL. The crate
  refuses a text that holds a NUL.
\<close>

definition query_wire :: "string \<Rightarrow> bytes" where
  "query_wire sql = bch CHR ''Q'' # be32 (of_nat (4 + length sql + 1)) @ bytes_of sql @ [0]"

text \<open>
  \<open>copy_out\<close> hands each chunk to a callback that may fail; after a failure the chunks are dropped but
  the reply is read to its end. \<open>'s\<close> is what the callback works on.
\<close>

fun copy_out_loop ::
  "(bytes \<Rightarrow> ('s, unit) act) \<Rightarrow> inbox \<Rightarrow> error option \<Rightarrow> 's \<Rightarrow> ((unit res \<times> inbox) \<times> 's) option" where
  "copy_out_loop on_chunk [] err s = None"
| "copy_out_loop on_chunk (Inl e # ms) err s = Some ((Inl e, ms), s)"
| "copy_out_loop on_chunk (Inr m # ms) err s =
     (case m of
        CopyOutResponse \<Rightarrow> copy_out_loop on_chunk ms err s
      | CopyData data \<Rightarrow>
          (case err of
             None \<Rightarrow> (case on_chunk data s of
                        (Inl e, s') \<Rightarrow> copy_out_loop on_chunk ms (Some e) s'
                      | (Inr _, s') \<Rightarrow> copy_out_loop on_chunk ms None s')
           | Some e \<Rightarrow> copy_out_loop on_chunk ms (Some e) s)
      | CopyDone \<Rightarrow> copy_out_loop on_chunk ms err s
      | CommandComplete \<Rightarrow> copy_out_loop on_chunk ms err s
      | ParameterStatus \<Rightarrow> copy_out_loop on_chunk ms err s
      | NoticeResponse \<Rightarrow> copy_out_loop on_chunk ms err s
      | ErrorResponse fs \<Rightarrow> copy_out_loop on_chunk ms (Some (from_error_fields fs)) s
      | ReadyForQuery \<Rightarrow> Some ((case err of Some e \<Rightarrow> Inl e | None \<Rightarrow> Inr (), ms), s)
      | _ \<Rightarrow> Some ((Inl (Protocol ''unexpected message during COPY OUT''), ms), s))"

text \<open>First row, first cell, as the helpers read a single value.\<close>

definition first_cell :: "sql_row list \<Rightarrow> string option" where
  "first_cell rows = (case rows of (v # _) # _ \<Rightarrow> v | _ \<Rightarrow> None)"

definition wal_sender_timeout_sql :: string where
  "wal_sender_timeout_sql =
     ''SELECT setting FROM pg_settings WHERE name = '' @ [sq] @ ''wal_sender_timeout'' @ [sq]"

definition wal_sender_timeout_ms :: "(string \<Rightarrow> ('w, sql_row list) act) \<Rightarrow> ('w, u64 option) act" where
  "wal_sender_timeout_ms simple_query =
     bindA (simple_query wal_sender_timeout_sql) (\<lambda>rows.
       retA (case first_cell rows of
               None \<Rightarrow> None
             | Some s \<Rightarrow> (case parse_u64 s of
                            None \<Rightarrow> None
                          | Some ms \<Rightarrow> if ms > 0 then Some ms else None)))"

definition server_version_num :: "(string \<Rightarrow> ('w, sql_row list) act) \<Rightarrow> ('w, u32) act" where
  "server_version_num simple_query =
     bindA (simple_query ''SHOW server_version_num'') (\<lambda>rows.
       liftA (ok_or (Protocol ''could not read server_version_num'')
                (case first_cell rows of None \<Rightarrow> None | Some s \<Rightarrow> parse_u32 s)))"

section \<open>Opening a connection\<close>

datatype ssl_mode = Disable | Prefer | Require | VerifyFull

datatype transport = TcpPlain | Tls ssl_mode | UnixSocket string

definition ssl_request :: bytes where
  "ssl_request = [0, 0, 0, 8, 0x04, 0xd2, 0x16, 0x2f]"

text \<open>The answer to the SSL request decides the transport.\<close>

definition ssl_answer :: "ssl_mode \<Rightarrow> u8 \<Rightarrow> transport res" where
  "ssl_answer mode b =
     (if b = bch CHR ''S'' then Inr (Tls mode)
      else if b = bch CHR ''N'' \<and> mode = Prefer then Inr TcpPlain
      else if b = bch CHR ''N''
        then Inl (Upstream ''upstream refused SSL but sslmode requires it'')
      else Inl (Protocol (''unexpected SSLRequest response: '' @ u8_as_char b)))"

text \<open>
  \<open>Stream::connect\<close>: a host that is a path is a socket directory; otherwise TCP, with an SSL request
  unless it is disabled. \<open>answer\<close> is the byte read back, or the IO error. The result comes with what
  was written.
\<close>

definition connect_stream ::
  "string \<Rightarrow> nat \<Rightarrow> ssl_mode \<Rightarrow> u8 res \<Rightarrow> transport res \<times> bytes" where
  "connect_stream host port mode answer =
     (case host of
        c # _ \<Rightarrow> if c = CHR ''/'' then (Inr (UnixSocket (host @ ''/.s.PGSQL.'' @ show_nat port)), [])
                 else if mode = Disable then (Inr TcpPlain, [])
                 else (bindR answer (ssl_answer mode), ssl_request)
      | [] \<Rightarrow> if mode = Disable then (Inr TcpPlain, [])
              else (bindR answer (ssl_answer mode), ssl_request))"

text \<open>What the client sends while it authenticates.\<close>

datatype client_msg =
    Startup "(string \<times> string) list"
  | PasswordMessage bytes
  | SaslInitial string bytes
  | SaslResponse bytes

text \<open>
  The cryptography: the MD5 response for a salt, the first and the second SCRAM message (or a failed
  update) and the check of the server's signature.
\<close>

record auth_ops =
  md5_response :: "bytes \<Rightarrow> bytes"
  scram_first :: bytes
  scram_update :: "bytes \<Rightarrow> string + bytes"
  scram_finish :: "bytes \<Rightarrow> bytes \<Rightarrow> string + unit"

definition startup_params :: "string \<Rightarrow> string \<Rightarrow> string \<Rightarrow> bool \<Rightarrow> (string \<times> string) list" where
  "startup_params user database application replication =
     [(''user'', user), (''database'', database), (''application_name'', application)] @
     (if replication then [(''replication'', ''database'')] else [])"

text \<open>One \<open>read_message()?\<close> of the SASL exchange.\<close>

definition next_sasl :: "inbox \<Rightarrow> (backend_msg res \<times> inbox) option" where
  "next_sasl ib = (case ib of [] \<Rightarrow> None | m # ms \<Rightarrow> Some (m, ms))"

definition sasl_exchange ::
  "auth_ops \<Rightarrow> string list \<Rightarrow> inbox \<Rightarrow> client_msg list \<Rightarrow> (unit res \<times> client_msg list \<times> inbox) option"
where
  "sasl_exchange ops mechs ib sent =
     (if ''SCRAM-SHA-256'' \<notin> set mechs
      then Some (Inl (Upstream
        ''upstream offers no supported SASL mechanism (need SCRAM-SHA-256)''), sent, ib)
      else let sent = sent @ [SaslInitial ''SCRAM-SHA-256'' (scram_first ops)]
      in case next_sasl ib of
           None \<Rightarrow> None
         | Some (Inl e, ib) \<Rightarrow> Some (Inl e, sent, ib)
         | Some (Inr (AuthenticationSaslContinue d), ib) \<Rightarrow>
             (case scram_update ops d of
                Inl e \<Rightarrow> Some (Inl (Upstream e), sent, ib)
              | Inr resp \<Rightarrow>
                  let sent = sent @ [SaslResponse resp]
                  in case next_sasl ib of
                       None \<Rightarrow> None
                     | Some (Inl e, ib) \<Rightarrow> Some (Inl e, sent, ib)
                     | Some (Inr (AuthenticationSaslFinal f), ib) \<Rightarrow>
                         (case scram_finish ops d f of
                            Inl e \<Rightarrow> Some (Inl (Upstream e), sent, ib)
                          | Inr _ \<Rightarrow> Some (Inr (), sent, ib))
                     | Some (Inr (ErrorResponse fs), ib) \<Rightarrow>
                         Some (Inl (from_error_fields fs), sent, ib)
                     | Some (Inr _, ib) \<Rightarrow>
                         Some (Inl (Protocol ''unexpected SASL flow message''), sent, ib))
         | Some (Inr (ErrorResponse fs), ib) \<Rightarrow> Some (Inl (from_error_fields fs), sent, ib)
         | Some (Inr _, ib) \<Rightarrow> Some (Inl (Protocol ''unexpected SASL flow message''), sent, ib))"

lemma sasl_exchange_shorter:
  "sasl_exchange ops mechs ib sent = Some (r, sent', ib') \<Longrightarrow> length ib' \<le> length ib"
  by (auto simp: sasl_exchange_def next_sasl_def Let_def
      split: if_splits list.splits sum.splits backend_msg.splits prod.splits)

function auth_loop ::
  "auth_ops \<Rightarrow> bytes \<Rightarrow> inbox \<Rightarrow> client_msg list \<Rightarrow> (unit res \<times> client_msg list \<times> inbox) option" where
  "auth_loop ops pw [] sent = None"
| "auth_loop ops pw (Inl e # ib) sent = Some (Inl e, sent, ib)"
| "auth_loop ops pw (Inr m # ib) sent =
     (case m of
        AuthenticationOk \<Rightarrow> auth_loop ops pw ib sent
      | AuthenticationCleartextPassword \<Rightarrow> auth_loop ops pw ib (sent @ [PasswordMessage pw])
      | AuthenticationMd5Password salt \<Rightarrow>
          auth_loop ops pw ib (sent @ [PasswordMessage (md5_response ops salt)])
      | AuthenticationSasl mechs \<Rightarrow>
          (case sasl_exchange ops mechs ib sent of
             None \<Rightarrow> None
           | Some (Inl e, sent, ib) \<Rightarrow> Some (Inl e, sent, ib)
           | Some (Inr _, sent, ib) \<Rightarrow> auth_loop ops pw ib sent)
      | ParameterStatus \<Rightarrow> auth_loop ops pw ib sent
      | BackendKeyData \<Rightarrow> auth_loop ops pw ib sent
      | NoticeResponse \<Rightarrow> auth_loop ops pw ib sent
      | ReadyForQuery \<Rightarrow> Some (Inr (), sent, ib)
      | ErrorResponse fs \<Rightarrow> Some (Inl (from_error_fields fs), sent, ib)
      | _ \<Rightarrow> Some (Inl (Protocol ''unexpected message during startup''), sent, ib))"
  by pat_completeness auto
termination
  by (relation "measure (\<lambda>(ops, pw, ib, sent). length ib)")
    (auto dest: sasl_exchange_shorter simp: le_imp_less_Suc)

definition connect_and_auth ::
  "auth_ops \<Rightarrow> string \<Rightarrow> bytes \<Rightarrow> string \<Rightarrow> string \<Rightarrow> bool \<Rightarrow> inbox \<Rightarrow>
     (unit res \<times> client_msg list \<times> inbox) option" where
  "connect_and_auth ops user pw database application replication ib =
     auth_loop ops pw ib [Startup (startup_params user database application replication)]"

section \<open>The replication stream\<close>

datatype repl_msg = XLogData bytes | Keepalive u64 bool | StreamCopyDone

text \<open>
  \<open>{:?}\<close> of a \<open>char\<close> below 256: the usual escapes, and \<open>\u{..}\<close> for what does not print (control
  characters, the no-break space and the soft hyphen).
\<close>

definition debug_char :: "u8 \<Rightarrow> string" where
  "debug_char b =
     (let n = unat b; bs = [CHR 0x5C];
          hex = (let h = to_radix 16 n
                 in map (\<lambda>c. if of_char c \<ge> (65 :: nat) then char_of (of_char c + 32 :: nat) else c) h)
      in [sq] @
         (if n = 0 then bs @ ''0''
          else if n = 9 then bs @ ''t''
          else if n = 10 then bs @ ''n''
          else if n = 13 then bs @ ''r''
          else if n = 39 then bs @ [sq]
          else if n = 92 then bs @ bs
          else if n < 32 \<or> 127 \<le> n \<and> n \<le> 160 \<or> n = 173 then bs @ ''u{'' @ hex @ ''}''
          else u8_as_char b) @ [sq])"

text \<open>The payload of one CopyData message.\<close>

definition submessage :: "bytes \<Rightarrow> repl_msg res" where
  "submessage payload =
     (case payload of
        [] \<Rightarrow> Inl (Protocol ''unknown replication submessage: None'')
      | b # _ \<Rightarrow>
          if b = bch CHR ''w'' then
            (if length payload < 25 then Inl (Protocol ''truncated XLogData'')
             else Inr (XLogData (drop 25 payload)))
          else if b = bch CHR ''k'' then
            (if length payload < 18 then Inl (Protocol ''truncated keepalive'')
             else Inr (Keepalive (from_be64 (take 8 (drop 1 payload))) (payload ! 17 \<noteq> 0)))
          else Inl (Protocol (''unknown replication submessage: Some('' @ debug_char b @ '')'')))"

text \<open>
  \<open>read_copy_message\<close>: \<open>Ok(None)\<close> is a read that timed out. The inbox holds what the parser and the
  socket return: a message, a parser error, or the IO error of the read.
\<close>

fun read_copy_message :: "inbox \<Rightarrow> (repl_msg option res \<times> inbox) option" where
  "read_copy_message [] = None"
| "read_copy_message (Inl e # ms) =
     (case e of
        Io WouldBlock _ \<Rightarrow> Some (Inr None, ms)
      | Io TimedOut _ \<Rightarrow> Some (Inr None, ms)
      | _ \<Rightarrow> Some (Inl e, ms))"
| "read_copy_message (Inr m # ms) =
     (case m of
        CopyData payload \<Rightarrow> Some (mapR Some (submessage payload), ms)
      | CopyDone \<Rightarrow> Some (Inr (Some StreamCopyDone), ms)
      | ErrorResponse fs \<Rightarrow> Some (Inl (from_error_fields fs), ms)
      | ParameterStatus \<Rightarrow> read_copy_message ms
      | NoticeResponse \<Rightarrow> read_copy_message ms
      | _ \<Rightarrow> Some (Inl (Protocol ''unexpected message on replication stream''), ms))"

definition pg_epoch_micros :: i64 where
  "pg_epoch_micros = 946684800000000"

definition status_payload :: "lsn \<Rightarrow> i64 \<Rightarrow> bool \<Rightarrow> bytes" where
  "status_payload wm now_micros reply =
     [bch CHR ''r''] @ be64 (lsn_val wm) @ be64 (lsn_val wm) @ be64 (lsn_val wm) @
     be64 (now_micros - pg_epoch_micros) @ [if reply then 1 else 0]"

definition send_status :: "lsn \<Rightarrow> i64 \<Rightarrow> bool \<Rightarrow> bytes" where
  "send_status wm now_micros reply =
     (let payload = status_payload wm now_micros reply
      in [bch CHR ''d''] @ be32 (of_nat (4 + length payload)) @ payload)"

definition start_replication_sql :: "string \<Rightarrow> lsn \<Rightarrow> string \<Rightarrow> string" where
  "start_replication_sql slot start publication =
     ''START_REPLICATION SLOT '' @ [dq] @ replace_char dq [dq, dq] slot @ [dq] @ '' LOGICAL '' @
     to_pg_str start @ '' (proto_version '' @ [sq] @ ''1'' @ [sq] @ '', publication_names '' @
     [sq, dq] @ replace_char dq [dq, dq] publication @ [dq, sq] @ '', messages '' @ [sq] @ ''true'' @
     [sq] @ '')''"

text \<open>
  The wait for CopyBothResponse works on frames: tag and body. Only the parsing of an error frame is
  the message parser's.
\<close>

fun await_copy_both ::
  "(u8 \<times> (string + backend_msg)) res list \<Rightarrow>
     (unit res \<times> (u8 \<times> (string + backend_msg)) res list) option" where
  "await_copy_both [] = None"
| "await_copy_both (Inl e # fs) = Some (Inl e, fs)"
| "await_copy_both (Inr (tag, m) # fs) =
     (if tag = bch CHR ''W'' then Some (Inr (), fs)
      else if tag = bch CHR ''E'' then
        (case m of
           Inl e \<Rightarrow> Some (Inl (Protocol e), fs)
         | Inr (ErrorResponse flds) \<Rightarrow> Some (Inl (from_error_fields flds), fs)
         | Inr _ \<Rightarrow> Some (Inl (Protocol ''malformed error response''), fs))
      else if tag = bch CHR ''N'' then
        (case m of Inl e \<Rightarrow> Some (Inl (Protocol e), fs) | Inr _ \<Rightarrow> await_copy_both fs)
      else Some (Inl (Protocol (''unexpected message '' @ u8_as_char tag @
                   '' awaiting CopyBothResponse'')), fs))"

section \<open>Abstract readings\<close>

text \<open>
  A reply to a simple query: what may stand before the \<open>ReadyForQuery\<close>, the rows in it and its last
  error.
\<close>

fun query_part :: "backend_msg \<Rightarrow> bool" where
  "query_part (DataRow (Inr _)) = True"
| "query_part (RowDescription _) = True"
| "query_part CommandComplete = True"
| "query_part EmptyQueryResponse = True"
| "query_part ParameterStatus = True"
| "query_part NoticeResponse = True"
| "query_part (ErrorResponse _) = True"
| "query_part _ = False"

fun row_of :: "backend_msg \<Rightarrow> sql_row list" where
  "row_of (DataRow (Inr vals)) = [vals]"
| "row_of _ = []"

fun error_of :: "backend_msg \<Rightarrow> error list" where
  "error_of (ErrorResponse fs) = [from_error_fields fs]"
| "error_of _ = []"

definition last_error :: "backend_msg list \<Rightarrow> error option" where
  "last_error ms = (let es = concat (map error_of ms) in if es = [] then None else Some (last es))"

fun copy_part :: "backend_msg \<Rightarrow> bool" where
  "copy_part CopyOutResponse = True"
| "copy_part (CopyData _) = True"
| "copy_part CopyDone = True"
| "copy_part CommandComplete = True"
| "copy_part ParameterStatus = True"
| "copy_part NoticeResponse = True"
| "copy_part (ErrorResponse _) = True"
| "copy_part _ = False"

fun copy_chunk :: "backend_msg \<Rightarrow> bytes list" where
  "copy_chunk (CopyData d) = [d]"
| "copy_chunk _ = []"

fun is_error :: "backend_msg \<Rightarrow> bool" where
  "is_error (ErrorResponse _) = True"
| "is_error _ = False"

text \<open>The chunks the server sent before it reported an error.\<close>

definition copy_chunks :: "backend_msg list \<Rightarrow> bytes list" where
  "copy_chunks ms = concat (map copy_chunk (takeWhile (\<lambda>m. \<not> is_error m) ms))"

text \<open>
  A parser of an incremental protocol: what it makes of a prefix, it makes of the prefix with more
  bytes behind.
\<close>

definition incremental ::
  "(bytes \<Rightarrow> string + (backend_msg \<times> bytes) option) \<Rightarrow> bool" where
  "incremental parse \<longleftrightarrow>
     (\<forall>buf more e. parse buf = Inl e \<longrightarrow> parse (buf @ more) = Inl e) \<and>
     (\<forall>buf more m rest. parse buf = Inr (Some (m, rest)) \<longrightarrow>
        parse (buf @ more) = Inr (Some (m, rest @ more)))"

text \<open>
  The dialogues by which a server lets the client in, with what the client answers: the grammar of
  the startup phase.
\<close>

inductive dialogue :: "auth_ops \<Rightarrow> bytes \<Rightarrow> backend_msg list \<Rightarrow> client_msg list \<Rightarrow> bool"
  for ops :: auth_ops and pw :: bytes where
  ready: "dialogue ops pw [ReadyForQuery] []"
| info: "m \<in> {AuthenticationOk, ParameterStatus, BackendKeyData, NoticeResponse} \<Longrightarrow>
    dialogue ops pw ms cs \<Longrightarrow> dialogue ops pw (m # ms) cs"
| cleartext: "dialogue ops pw ms cs \<Longrightarrow>
    dialogue ops pw (AuthenticationCleartextPassword # ms) (PasswordMessage pw # cs)"
| md5: "dialogue ops pw ms cs \<Longrightarrow>
    dialogue ops pw (AuthenticationMd5Password salt # ms)
      (PasswordMessage (md5_response ops salt) # cs)"
| sasl: "''SCRAM-SHA-256'' \<in> set mechs \<Longrightarrow> scram_update ops d = Inr resp \<Longrightarrow>
    scram_finish ops d f = Inr () \<Longrightarrow> dialogue ops pw ms cs \<Longrightarrow>
    dialogue ops pw
      (AuthenticationSasl mechs # AuthenticationSaslContinue d # AuthenticationSaslFinal f # ms)
      (SaslInitial ''SCRAM-SHA-256'' (scram_first ops) # SaslResponse resp # cs)"

text \<open>The two payloads of the stream, as the server writes them.\<close>

definition xlog_payload :: "u64 \<Rightarrow> u64 \<Rightarrow> i64 \<Rightarrow> bytes \<Rightarrow> bytes" where
  "xlog_payload start wal_end clock d = bch CHR ''w'' # be64 start @ be64 wal_end @ be64 clock @ d"

definition keepalive_payload :: "u64 \<Rightarrow> i64 \<Rightarrow> u8 \<Rightarrow> bytes" where
  "keepalive_payload wal_end clock reply = bch CHR ''k'' # be64 wal_end @ be64 clock @ [reply]"

section \<open>Lemmas\<close>

lemma last_error_Nil [simp]: "last_error [] = None"
  by (simp add: last_error_def)

lemma last_error_Cons:
  "last_error (m # ms) =
     (case last_error ms of Some e \<Rightarrow> Some e
      | None \<Rightarrow> (case m of ErrorResponse fs \<Rightarrow> Some (from_error_fields fs) | _ \<Rightarrow> None))"
  by (cases m) (auto simp: last_error_def Let_def)

lemma simple_query_loop_reply:
  "list_all query_part ms \<Longrightarrow>
   simple_query_loop (map Inr ms @ Inr ReadyForQuery # rest) rows err =
     Some (case (case last_error ms of Some e \<Rightarrow> Some e | None \<Rightarrow> err) of
             Some e \<Rightarrow> Inl e | None \<Rightarrow> Inr (rows @ concat (map row_of ms)), rest)"
proof (induction ms arbitrary: rows err)
  case (Cons m ms)
  then show ?case
    by (cases m rule: query_part.cases) (simp_all add: last_error_Cons split: option.split)
qed (simp split: option.split)

lemma copy_out_loop_failed:
  "list_all copy_part ms \<Longrightarrow>
   copy_out_loop f (map Inr ms @ Inr ReadyForQuery # rest) (Some e) s =
     Some ((Inl (case last_error ms of Some e' \<Rightarrow> e' | None \<Rightarrow> e), rest), s)"
proof (induction ms arbitrary: e)
  case (Cons m ms)
  then show ?case
    by (cases m rule: copy_part.cases) (simp_all add: last_error_Cons split: option.split)
qed simp

lemma copy_out_loop_reply:
  "list_all copy_part ms \<Longrightarrow>
   copy_out_loop f (map Inr ms @ Inr ReadyForQuery # rest) None s =
     (let (r, s') = forA (copy_chunks ms) f s
      in Some ((case last_error ms of Some e \<Rightarrow> Inl e | None \<Rightarrow> r, rest), s'))"
proof (induction ms arbitrary: s)
  case Nil
  then show ?case by (simp add: copy_chunks_def)
next
  case (Cons m ms)
  show ?case
  proof (cases "\<exists>d. m = CopyData d")
    case True
    then obtain d where m: "m = CopyData d" by blast
    obtain r s' where f: "f d s = (r, s')" by (cases "f d s")
    show ?thesis
    proof (cases r)
      case (Inl e)
      then show ?thesis
        using Cons.prems m f
        by (simp add: copy_out_loop_failed copy_chunks_def bindA_apply last_error_Cons
            split: option.split)
    next
      case (Inr u)
      then show ?thesis
        using Cons m f
        by (simp add: copy_chunks_def bindA_apply last_error_Cons split: option.split prod.split)
    qed
  next
    case False
    then show ?thesis
      using Cons
      by (cases m rule: copy_part.cases)
        (simp_all add: copy_out_loop_failed copy_chunks_def last_error_Cons split: option.split)
  qed
qed

lemma dialogue_cases:
  "dialogue ops pw [] cs \<longleftrightarrow> False"
  "dialogue ops pw [ReadyForQuery] cs \<longleftrightarrow> cs = []"
  by (auto elim: dialogue.cases intro: dialogue.intros)

text \<open>What a successful SASL exchange read and wrote.\<close>

lemma sasl_exchange_ok:
  "sasl_exchange ops mechs ib sent = Some (Inr (), sent', ib') \<longleftrightarrow>
     ''SCRAM-SHA-256'' \<in> set mechs \<and>
     (\<exists>d f resp. ib = Inr (AuthenticationSaslContinue d) # Inr (AuthenticationSaslFinal f) # ib' \<and>
        scram_update ops d = Inr resp \<and> scram_finish ops d f = Inr () \<and>
        sent' = sent @ [SaslInitial ''SCRAM-SHA-256'' (scram_first ops), SaslResponse resp])"
  (is "?l = ?r")
proof
  show "?l \<Longrightarrow> ?r"
    by (auto simp: sasl_exchange_def next_sasl_def Let_def
        split: if_splits list.splits sum.splits backend_msg.splits prod.splits)
  show "?r \<Longrightarrow> ?l" by (auto simp: sasl_exchange_def next_sasl_def Let_def)
qed

lemma auth_loop_dialogue:
  "auth_loop ops pw ib sent = Some (Inr (), sent', rest) \<Longrightarrow>
     \<exists>ms cs. ib = map Inr ms @ rest \<and> sent' = sent @ cs \<and> dialogue ops pw ms cs"
proof (induction ops pw ib sent arbitrary: rule: auth_loop.induct)
  case (3 ops pw m ib sent)
  show ?case
  proof (cases m)
    case (AuthenticationSasl mechs)
    obtain s' ib' where x: "sasl_exchange ops mechs ib sent = Some (Inr (), s', ib')"
      "auth_loop ops pw ib' s' = Some (Inr (), sent', rest)"
      using 3(8) AuthenticationSasl by (auto split: option.splits sum.splits prod.splits)
    then obtain ms cs where d: "ib' = map Inr ms @ rest" "sent' = s' @ cs" "dialogue ops pw ms cs"
      using 3(4) [OF AuthenticationSasl x(1)] by blast
    moreover obtain da f resp where e: "''SCRAM-SHA-256'' \<in> set mechs"
      "ib = Inr (AuthenticationSaslContinue da) # Inr (AuthenticationSaslFinal f) # ib'"
      "scram_update ops da = Inr resp" "scram_finish ops da f = Inr ()"
      "s' = sent @ [SaslInitial ''SCRAM-SHA-256'' (scram_first ops), SaslResponse resp]"
      using x(1) unfolding sasl_exchange_ok by blast
    ultimately have "Inr m # ib = map Inr (m # AuthenticationSaslContinue da #
        AuthenticationSaslFinal f # ms) @ rest"
      "sent' = sent @ SaslInitial ''SCRAM-SHA-256'' (scram_first ops) # SaslResponse resp # cs"
      by simp_all
    then show ?thesis
      using dialogue.sasl [OF e(1,3,4) d(3)] AuthenticationSasl by blast
  next
    case ReadyForQuery
    then show ?thesis
      using 3(8) by (auto intro!: exI [where x = "[ReadyForQuery]"] dialogue.ready)
  next
    case AuthenticationOk
    then obtain ms cs where "ib = map Inr ms @ rest" "sent' = sent @ cs" "dialogue ops pw ms cs"
      using 3(1,8) by auto
    then show ?thesis
      using AuthenticationOk by (auto intro!: exI [where x = "m # ms"] dialogue.info)
  next
    case ParameterStatus
    then obtain ms cs where "ib = map Inr ms @ rest" "sent' = sent @ cs" "dialogue ops pw ms cs"
      using 3(5,8) by auto
    then show ?thesis
      using ParameterStatus by (auto intro!: exI [where x = "m # ms"] dialogue.info)
  next
    case BackendKeyData
    then obtain ms cs where "ib = map Inr ms @ rest" "sent' = sent @ cs" "dialogue ops pw ms cs"
      using 3(6,8) by auto
    then show ?thesis
      using BackendKeyData by (auto intro!: exI [where x = "m # ms"] dialogue.info)
  next
    case NoticeResponse
    then obtain ms cs where "ib = map Inr ms @ rest" "sent' = sent @ cs" "dialogue ops pw ms cs"
      using 3(7,8) by auto
    then show ?thesis
      using NoticeResponse by (auto intro!: exI [where x = "m # ms"] dialogue.info)
  next
    case AuthenticationCleartextPassword
    then obtain ms cs where "ib = map Inr ms @ rest"
      "sent' = sent @ PasswordMessage pw # cs" "dialogue ops pw ms cs"
      using 3(2,8) by auto
    then show ?thesis
      using AuthenticationCleartextPassword
      by (auto intro!: exI [where x = "m # ms"] dialogue.cleartext)
  next
    case (AuthenticationMd5Password salt)
    then obtain ms cs where "ib = map Inr ms @ rest"
      "sent' = sent @ PasswordMessage (md5_response ops salt) # cs" "dialogue ops pw ms cs"
      using 3(3,8) by auto
    then show ?thesis
      using AuthenticationMd5Password
      by (auto intro!: exI [where x = "m # ms"] dialogue.md5)
  qed (use 3(8) in simp_all)
qed simp_all

lemma dialogue_auth_loop:
  "dialogue ops pw ms cs \<Longrightarrow>
     auth_loop ops pw (map Inr ms @ rest) sent = Some (Inr (), sent @ cs, rest)"
proof (induction arbitrary: sent rule: dialogue.induct)
  case (sasl mechs d resp f ms cs)
  then have "sasl_exchange ops mechs (map Inr (AuthenticationSaslContinue d #
      AuthenticationSaslFinal f # ms) @ rest) sent =
    Some (Inr (), sent @ [SaslInitial ''SCRAM-SHA-256'' (scram_first ops), SaslResponse resp],
      map Inr ms @ rest)"
    unfolding sasl_exchange_ok by simp
  then show ?case using sasl by simp
next
  case (info m ms cs)
  then show ?case by auto
qed simp_all

section \<open>Properties\<close>

text \<open>
  A simple query resynchronises: the whole reply is read up to its \<open>ReadyForQuery\<close> and
  nothing after it, the result is every row in order, or the last error the server reported, whatever
  rows came before it.
\<close>

theorem simple_query_reads_reply:
  assumes "list_all query_part ms"
  shows "simple_query_loop (map Inr ms @ Inr ReadyForQuery # rest) [] None =
    Some (case last_error ms of Some e \<Rightarrow> Inl e | None \<Rightarrow> Inr (concat (map row_of ms)), rest)"
  by (simp add: simple_query_loop_reply [OF assms] split: option.split)

theorem simple_query_reads_reply_witness:
  "simple_query_loop [Inr (RowDescription (Inr [])), Inr (DataRow (Inr [Some ''1'', None])), Inr CommandComplete,
      Inr ReadyForQuery, Inr CopyDone] [] None = Some (Inr [[Some ''1'', None]], [Inr CopyDone])"
  using simple_query_reads_reply
    [of "[RowDescription (Inr []), DataRow (Inr [Some ''1'', None]), CommandComplete]" "[Inr CopyDone]"]
  by simp

text \<open>
  COPY OUT hands the callback exactly the chunks sent before a server error, in order,
  stops calling it at its first failure, reads the reply to its end all the same, and returns the
  server's last error or else the callback's.
\<close>

theorem copy_out_reads_reply:
  assumes "list_all copy_part ms"
  shows "copy_out_loop f (map Inr ms @ Inr ReadyForQuery # rest) None s =
    (let (r, s') = forA (copy_chunks ms) f s
     in Some ((case last_error ms of Some e \<Rightarrow> Inl e | None \<Rightarrow> r, rest), s'))"
  by (rule copy_out_loop_reply [OF assms])

theorem copy_out_reads_reply_witness:
  "copy_out_loop (\<lambda>d s. if s = [] then (Inr (), s @ [d]) else (Inl Closed, s))
     [Inr CopyOutResponse, Inr (CopyData [1]), Inr (CopyData [2]), Inr (CopyData [3]), Inr CopyDone,
      Inr ReadyForQuery, Inr NoticeResponse] None [] =
   Some ((Inl Closed, [Inr NoticeResponse]), [[1]])"
  using copy_out_reads_reply
    [of "[CopyOutResponse, CopyData [1], CopyData [2], CopyData [3], CopyDone]"
      "\<lambda>d s. if s = [] then (Inr (), s @ [d]) else (Inl Closed, s)" "[Inr NoticeResponse]" "[]"]
  by (simp add: copy_chunks_def bindA_apply last_error_def)

text \<open>
  C27. How the socket cuts the byte stream does not matter: over an incremental parser,
  reading a message gives what the parser makes of all the bytes together, leaves the rest of them to
  be read, and waits exactly when they hold no whole message.
\<close>

theorem read_message_chunks:
  assumes "incremental parse" and "\<forall>c \<in> set cs. c \<noteq> []"
  shows "case read_message parse buf (map Inr cs) of
      None \<Rightarrow> parse (buf @ concat cs) = Inr None
    | Some (Inl e, _) \<Rightarrow> (\<exists>p. parse (buf @ concat cs) = Inl p \<and> e = Protocol p)
    | Some (Inr m, buf', reads) \<Rightarrow>
        \<exists>ds. reads = map Inr ds \<and> parse (buf @ concat cs) = Inr (Some (m, buf' @ concat ds))"
  using assms(2)
proof (induction cs arbitrary: buf)
  case Nil
  then show ?case
    by (simp add: read_message.simps [of _ buf] split: sum.split option.split prod.split)
next
  case (Cons c cs)
  show ?case
  proof (cases "parse buf = Inr None")
    case True
    have e: "(buf @ c) @ concat cs = buf @ concat (c # cs)" by simp
    from True show ?thesis
      using Cons.IH [of "buf @ c", unfolded e] Cons.prems
      by (simp add: read_message.simps [of _ buf] fill_def)
  next
    case False
    show ?thesis
    proof (cases "parse buf")
      case (Inl p)
      then have "parse (buf @ concat (c # cs)) = Inl p"
        using assms(1) by (simp only: incremental_def)
      then show ?thesis using Inl by (simp add: read_message.simps [of _ buf])
    next
      case (Inr x)
      then obtain m rest where x: "parse buf = Inr (Some (m, rest))" using False by (cases x) auto
      then have "parse (buf @ concat (c # cs)) = Inr (Some (m, rest @ concat (c # cs)))"
        using assms(1) by (simp only: incremental_def)
      then show ?thesis
        using x by (auto simp: read_message.simps [of _ buf] intro!: exI [where x = "c # cs"])
    qed
  qed
qed

text \<open>A parser of messages of two bytes each, to show that the hypothesis can hold.\<close>

definition two_byte_parse :: "bytes \<Rightarrow> string + (backend_msg \<times> bytes) option" where
  "two_byte_parse buf = (case buf of a # b # rest \<Rightarrow> Inr (Some (CopyData [a, b], rest)) | _ \<Rightarrow> Inr None)"

lemma incremental_two_byte: "incremental two_byte_parse"
  by (auto simp: incremental_def two_byte_parse_def split: list.splits)

theorem read_message_chunks_witness:
  "\<exists>ds. map Inr ds = [Inr [4] :: error + bytes] \<and>
     two_byte_parse ([1] @ concat [[2, 3], [4]]) = Inr (Some (CopyData [1, 2], [3] @ concat ds))"
  using read_message_chunks [OF incremental_two_byte, of "[[2, 3], [4]]" "[1]"]
  by (simp add: read_message.simps two_byte_parse_def fill_def eq_commute)


text \<open>
  The transport is never downgraded against the mode: TCP without TLS is used exactly
  when TLS is disabled, or when it is merely preferred and the server answers that it has none.
\<close>

theorem connect_no_downgrade:
  "fst (connect_stream host port mode answer) = Inr TcpPlain \<longleftrightarrow>
     take 1 host \<noteq> ''/'' \<and>
     (mode = Disable \<or> mode = Prefer \<and> answer = Inr (bch CHR ''N''))"
  by (cases answer)
    (auto simp: connect_stream_def ssl_answer_def split: list.split if_splits)

text \<open>
  The payloads of the replication stream: a submessage is read as data exactly when it is
  the encoding of a data message with that content, and as a keepalive exactly when it starts with the
  encoding of one, with its position and its request for an answer.
\<close>

theorem submessage_decodes:
  "(submessage p = Inr (XLogData d) \<longleftrightarrow>
      (\<exists>start wal_end clock. p = xlog_payload start wal_end clock d)) \<and>
   (submessage p = Inr (Keepalive w r) \<longleftrightarrow>
      (\<exists>clock b more. p = keepalive_payload w clock b @ more \<and> r = (b \<noteq> 0)))"
proof -
  have cut: "k + n \<le> length q \<Longrightarrow> drop k q = take n (drop k q) @ drop (k + n) q" for k n and q :: bytes
    by (metis append_take_drop_id drop_drop add.commute)
  have be: "length q = 8 \<Longrightarrow> be64 (from_be64 q) = q" for q by (rule be_from_be)
  have "submessage p = Inr (XLogData d) \<longleftrightarrow>
      (\<exists>start wal_end clock. p = xlog_payload start wal_end clock d)" (is "?l \<longleftrightarrow> ?r")
  proof
    assume ?l
    then obtain q where p: "p = bch CHR ''w'' # q" "24 \<le> length q" "d = drop 24 q"
      by (auto simp: submessage_def split: list.splits if_splits)
    then have "q = be64 (from_be64 (take 8 q)) @ be64 (from_be64 (take 8 (drop 8 q))) @
        be64 (from_be64 (take 8 (drop 16 q))) @ d"
      using cut [of 0 8 q] cut [of 8 8 q] cut [of 16 8 q] by (simp add: be)
    then show ?r unfolding xlog_payload_def p(1) by blast
  next
    show "?r \<Longrightarrow> ?l" by (auto simp: submessage_def xlog_payload_def)
  qed
  moreover have "submessage p = Inr (Keepalive w r) \<longleftrightarrow>
     (\<exists>clock b more. p = keepalive_payload w clock b @ more \<and> r = (b \<noteq> 0))" (is "?l \<longleftrightarrow> ?r")
  proof
    assume ?l
    then obtain q where p: "p = bch CHR ''k'' # q" "17 \<le> length q" "w = from_be64 (take 8 q)"
      "r = (q ! 16 \<noteq> 0)"
      by (auto simp: submessage_def split: list.splits if_splits)
    then have "q = be64 w @ be64 (from_be64 (take 8 (drop 8 q))) @ [q ! 16] @ drop 17 q"
      using cut [of 0 8 q] cut [of 8 8 q] Cons_nth_drop_Suc [of 16 q] by (simp add: be)
    then show ?r unfolding keepalive_payload_def using p(1,4) by (metis append.assoc append_Cons append_Nil)
  next
    show "?r \<Longrightarrow> ?l"
      by (auto simp: submessage_def keepalive_payload_def nth_append )
  qed
  ultimately show ?thesis by blast
qed

text \<open>
  A status update is one framed copy message of 38 bytes after its tag: the watermark
  three times (written, flushed, applied), the clock since 2000-01-01 and the reply flag, each where
  the server reads it.
\<close>

theorem send_status_layout:
  "let m = send_status wm now r
   in length m = 39 \<and> hd m = bch CHR ''d'' \<and> unat (from_be32 (take 4 (drop 1 m))) = length m - 1 \<and>
      m ! 5 = bch CHR ''r'' \<and> from_be64 (take 8 (drop 6 m)) = lsn_val wm \<and>
      from_be64 (take 8 (drop 14 m)) = lsn_val wm \<and> from_be64 (take 8 (drop 22 m)) = lsn_val wm \<and>
      from_be64 (take 8 (drop 30 m)) = now - pg_epoch_micros \<and> (m ! 38 \<noteq> 0) = r"
  by (simp add: send_status_def status_payload_def Let_def nth_append nth_Cons')

end
