(* ===== verification/ChangeSql.thy ===== *)
theory ChangeSql
  imports Sql
begin

text \<open>
  From decoded row changes to SQL, \<^verbatim>\<open>impl Rel\<close> of \<^verbatim>\<open>replica/mod.rs\<close>: the arity check, the
  statements for insert, update and delete with the \<open>RowChange\<close> handed to subscribers, and the
  where-clause from the old tuple or from the key columns. The properties say when each operation
  fails, what SQL reads in the statement it returns, and what the published change holds.
\<close>

section \<open>Data\<close>

type_synonym col_pairs = "(string \<times> string option) list"

datatype row_change =
    ChInsert string string col_pairs
  | ChUpdate string string col_pairs col_pairs
  | ChDelete string string col_pairs
  | ChTruncate string string

record rel =
  rel_schema :: string
  rel_name :: string
  rel_columns :: "rel_column list"

definition rel_label :: "rel \<Rightarrow> string" where
  "rel_label r = rel_schema r @ ''.'' @ rel_name r"

section \<open>Operations\<close>

definition target :: "rel \<Rightarrow> string" where
  "target r = target_of (rel_schema r) (rel_name r)"

definition check_arity :: "rel \<Rightarrow> tuple_data \<Rightarrow> unit res" where
  "check_arity r t =
     (if length (cells t) \<noteq> length (rel_columns r)
      then Inl (Protocol (''tuple arity '' @ show_nat (length (cells t)) @
             '' does not match relation '' @ rel_label r @
             '' arity '' @ show_nat (length (rel_columns r))))
      else Inr ())"

fun insert_cells ::
  "rel \<Rightarrow> (rel_column \<times> cell_value) list \<Rightarrow> (string list \<times> string list \<times> col_pairs) res" where
  "insert_cells r [] = Inr ([], [], [])"
| "insert_cells r ((col, cell) # rest) =
     (if cell = UnchangedToast
      then Inl (Protocol (''unchanged-toast cell in insert into '' @ rel_label r))
      else bindR (insert_cells r rest) (\<lambda>(names, vals, row).
             Inr (ident (col_name col) # names, cell_lit cell # vals,
                  (col_name col, cell_val cell) # row)))"

definition insert_sql :: "rel \<Rightarrow> tuple_data \<Rightarrow> (string \<times> row_change) res" where
  "insert_sql r new =
     bindR (check_arity r new) (\<lambda>_.
     bindR (insert_cells r (zip (rel_columns r) (cells new))) (\<lambda>(names, vals, row).
       Inr (''INSERT INTO '' @ target r @ '' ('' @ join_str '', '' names @ '') VALUES ('' @
              join_str '', '' vals @ '')'',
            ChInsert (rel_schema r) (rel_name r) row)))"

fun old_conds :: "(rel_column \<times> cell_value) list \<Rightarrow> (string list \<times> col_pairs)" where
  "old_conds [] = ([], [])"
| "old_conds ((col, cell) # rest) =
     (if cell = UnchangedToast then old_conds rest
      else let (conds, pairs) = old_conds rest
           in ((ident (col_name col) @ '' IS NOT DISTINCT FROM '' @ cell_lit cell) # conds,
               (col_name col, cell_val cell) # pairs))"

fun key_conds ::
  "rel \<Rightarrow> (rel_column \<times> cell_value) list \<Rightarrow> (string list \<times> col_pairs) res" where
  "key_conds r [] = Inr ([], [])"
| "key_conds r ((col, cell) # rest) =
     (if flags col AND 1 = 0 then key_conds r rest
      else bindR (case cell of
                    UnchangedToast \<Rightarrow>
                      Inl (Protocol (''unchanged-toast key cell on '' @ rel_label r))
                  | Null \<Rightarrow> Inr (ident (col_name col) @ '' IS NULL'')
                  | Text s \<Rightarrow> Inr (ident (col_name col) @ '' = '' @ lit s))
             (\<lambda>cond. bindR (key_conds r rest) (\<lambda>(conds, pairs).
                Inr (cond # conds, (col_name col, cell_val cell) # pairs))))"

definition where_clause ::
  "rel \<Rightarrow> tuple_data option \<Rightarrow> tuple_data option \<Rightarrow> tuple_data option \<Rightarrow> (string \<times> col_pairs) res"
where
  "where_clause r key old new =
     (case old of
        Some o_t \<Rightarrow>
          bindR (check_arity r o_t) (\<lambda>_.
            let (conds, pairs) = old_conds (zip (rel_columns r) (cells o_t))
            in if conds = [] then Inl (Protocol (''empty old tuple for '' @ rel_label r))
               else Inr (join_str '' AND '' conds, pairs))
      | None \<Rightarrow>
          bindR (ok_or (ReplicaHalted (''no key available for change on '' @ rel_label r))
                   (case key of Some k \<Rightarrow> Some k | None \<Rightarrow> new)) (\<lambda>source.
          bindR (check_arity r source) (\<lambda>_.
          bindR (key_conds r (zip (rel_columns r) (cells source))) (\<lambda>(conds, pairs).
            if conds = []
            then Inl (ReplicaHalted (''relation '' @ rel_label r @ '' has no replica identity key''))
            else Inr (join_str '' AND '' conds, pairs)))))"

fun update_sets :: "(rel_column \<times> cell_value) list \<Rightarrow> (string list \<times> col_pairs)" where
  "update_sets [] = ([], [])"
| "update_sets ((col, cell) # rest) =
     (if cell = UnchangedToast then update_sets rest
      else let (sets, row) = update_sets rest
           in ((ident (col_name col) @ '' = '' @ cell_lit cell) # sets,
               (col_name col, cell_val cell) # row))"

definition update_sql ::
  "rel \<Rightarrow> tuple_data option \<Rightarrow> tuple_data option \<Rightarrow> tuple_data \<Rightarrow> (string \<times> row_change) res" where
  "update_sql r key old new =
     bindR (check_arity r new) (\<lambda>_.
     bindR (where_clause r key old (Some new)) (\<lambda>(where_sql, key_pairs).
       let (sets, row) = update_sets (zip (rel_columns r) (cells new))
       in if sets = []
          then Inl (Protocol (''update with no assignable columns on '' @ rel_label r))
          else Inr (''UPDATE '' @ target r @ '' SET '' @ join_str '', '' sets @ '' WHERE '' @ where_sql,
                    ChUpdate (rel_schema r) (rel_name r) key_pairs row)))"

definition delete_sql ::
  "rel \<Rightarrow> tuple_data option \<Rightarrow> tuple_data option \<Rightarrow> (string \<times> row_change) res" where
  "delete_sql r key old =
     bindR (where_clause r key old None) (\<lambda>(where_sql, key_pairs).
       Inr (''DELETE FROM '' @ target r @ '' WHERE '' @ where_sql,
            ChDelete (rel_schema r) (rel_name r) key_pairs))"

section \<open>What SQL should read\<close>

definition assign_tokens :: "rel_column \<times> cell_value \<Rightarrow> token list" where
  "assign_tokens p = [TQuoted (col_name (fst p)), TSym CHR ''=''] @ cell_tokens (snd p)"

definition pair_of :: "rel_column \<times> cell_value \<Rightarrow> string \<times> string option" where
  "pair_of p = (col_name (fst p), cell_val (snd p))"

definition distinct_tokens :: "rel_column \<times> cell_value \<Rightarrow> token list" where
  "distinct_tokens p =
     [TQuoted (col_name (fst p)), TWord ''IS'', TWord ''NOT'', TWord ''DISTINCT'', TWord ''FROM'']
       @ cell_tokens (snd p)"

definition key_tokens :: "rel_column \<times> cell_value \<Rightarrow> token list" where
  "key_tokens p =
     (case snd p of
        Text s \<Rightarrow> [TQuoted (col_name (fst p)), TSym CHR ''='', TLit s]
      | _ \<Rightarrow> [TQuoted (col_name (fst p)), TWord ''IS'', TWord ''NULL''])"

text \<open>The columns a row is assigned: all but the unchanged TOAST values.\<close>

definition sent :: "rel \<Rightarrow> tuple_data \<Rightarrow> (rel_column \<times> cell_value) list" where
  "sent r t = filter (\<lambda>p. snd p \<noteq> UnchangedToast) (zip (rel_columns r) (cells t))"

text \<open>The columns of the replica identity.\<close>

definition key_cells :: "rel \<Rightarrow> tuple_data \<Rightarrow> (rel_column \<times> cell_value) list" where
  "key_cells r t = filter (\<lambda>p. flags (fst p) AND 1 \<noteq> 0) (zip (rel_columns r) (cells t))"

definition arity_ok :: "rel \<Rightarrow> tuple_data \<Rightarrow> bool" where
  "arity_ok r t \<longleftrightarrow> length (cells t) = length (rel_columns r)"

text \<open>The rows a change selects: by the whole old row, or by the identity columns.\<close>

definition where_spec ::
  "rel \<Rightarrow> tuple_data option \<Rightarrow> tuple_data option \<Rightarrow> tuple_data option \<Rightarrow>
     (token list \<times> col_pairs) option" where
  "where_spec r key old new =
     (case old of
        Some t \<Rightarrow>
          if arity_ok r t \<and> sent r t \<noteq> []
          then Some (sep_tokens [TWord ''AND''] (map distinct_tokens (sent r t)),
                     map pair_of (sent r t))
          else None
      | None \<Rightarrow>
          (case (case key of Some k \<Rightarrow> Some k | None \<Rightarrow> new) of
             None \<Rightarrow> None
           | Some t \<Rightarrow>
               if arity_ok r t \<and> key_cells r t \<noteq> [] \<and> (\<forall>p \<in> set (key_cells r t). snd p \<noteq> UnchangedToast)
               then Some (sep_tokens [TWord ''AND''] (map key_tokens (key_cells r t)),
                          map pair_of (key_cells r t))
               else None))"

section \<open>Lemmas\<close>

lemma check_arity_iff [simp]:
  "check_arity r t = Inr u \<longleftrightarrow> arity_ok r t"
  by (simp add: check_arity_def arity_ok_def)

lemma insert_cells_eq:
  "insert_cells r ps =
     (if \<exists>p \<in> set ps. snd p = UnchangedToast
      then Inl (Protocol (''unchanged-toast cell in insert into '' @ rel_label r))
      else Inr (map (\<lambda>p. ident (col_name (fst p))) ps, map (\<lambda>p. cell_lit (snd p)) ps, map pair_of ps))"
  by (induction r ps rule: insert_cells.induct) (auto simp: pair_of_def)

lemma old_conds_eq:
  "old_conds ps =
     (map (\<lambda>p. ident (col_name (fst p)) @ '' IS NOT DISTINCT FROM '' @ cell_lit (snd p))
        (filter (\<lambda>p. snd p \<noteq> UnchangedToast) ps),
      map pair_of (filter (\<lambda>p. snd p \<noteq> UnchangedToast) ps))"
  by (induction ps rule: old_conds.induct) (auto simp: pair_of_def)

lemma update_sets_eq:
  "update_sets ps =
     (map (\<lambda>p. ident (col_name (fst p)) @ '' = '' @ cell_lit (snd p))
        (filter (\<lambda>p. snd p \<noteq> UnchangedToast) ps),
      map pair_of (filter (\<lambda>p. snd p \<noteq> UnchangedToast) ps))"
  by (induction ps rule: update_sets.induct) (auto simp: pair_of_def)

definition key_cond :: "rel_column \<times> cell_value \<Rightarrow> string" where
  "key_cond p =
     (case snd p of
        Text s \<Rightarrow> ident (col_name (fst p)) @ '' = '' @ lit s
      | _ \<Rightarrow> ident (col_name (fst p)) @ '' IS NULL'')"

lemma key_conds_eq:
  "key_conds r ps =
     (let ks = filter (\<lambda>p. flags (fst p) AND 1 \<noteq> 0) ps
      in if \<exists>p \<in> set ks. snd p = UnchangedToast
         then Inl (Protocol (''unchanged-toast key cell on '' @ rel_label r))
         else Inr (map key_cond ks, map pair_of ks))"
  by (induction r ps rule: key_conds.induct)
    (auto simp: pair_of_def key_cond_def Let_def split: cell_value.splits)

lemma lexes_assign [lexing]:
  "lexes_to (ident (col_name (fst p)) @ '' = '' @ cell_lit (snd p)) (assign_tokens p)"
proof -
  have "lexes_any '' = '' [TSym CHR ''='']"
    by (intro lexes_any_space lexes_any_sym lexes_any_Nil) (simp_all add: word_char_def)
  from lexes_to_to [OF lexes_ident this _ _ lexes_cell, of "col_name (fst p)" "snd p"]
  show ?thesis by (simp add: assign_tokens_def word_char_def)
qed

text \<open>Fixed pieces of statements are lexed by evaluation.\<close>

lemmas lex_eval = lexes_any_def lex.simps(2) word_char_def append_Cons_fun append_Nil_fun
  option.map_comp comp_def

lemma lexes_keywords [lexing]:
  "lexes_any '' IS NOT DISTINCT FROM ''
     [TWord ''IS'', TWord ''NOT'', TWord ''DISTINCT'', TWord ''FROM'']"
  "lexes_any '' = '' [TSym CHR ''='']"
  "lexes_any '' AND '' [TWord ''AND'']"
  "lexes_any ''INSERT INTO '' [TWord ''INSERT'', TWord ''INTO'']"
  "lexes_any '' ('' [TSym CHR ''('']"
  "lexes_any '') VALUES ('' [TSym CHR '')'', TWord ''VALUES'', TSym CHR ''('']"
  "lexes_any '')'' [TSym CHR '')'']"
  "lexes_any ''UPDATE '' [TWord ''UPDATE'']"
  "lexes_any '' SET '' [TWord ''SET'']"
  "lexes_any '' WHERE '' [TWord ''WHERE'']"
  "lexes_any ''DELETE FROM '' [TWord ''DELETE'', TWord ''FROM'']"
  "lexes_any ''TRUNCATE '' [TWord ''TRUNCATE'']"
  by (simp_all add: lex_eval)

lemma lexes_is_null [lexing]: "lexes_to '' IS NULL'' [TWord ''IS'', TWord ''NULL'']"
proof -
  have "lexes_any '' IS '' [TWord ''IS'']" by (simp add: lex_eval)
  from lexes_any_to [OF this lexes_NULL] show ?thesis by simp
qed

lemma lexes_to_join2:
  "lexes_to s ts \<Longrightarrow> lexes_to t us \<Longrightarrow> t \<noteq> [] \<Longrightarrow> sep_start t \<Longrightarrow> lexes_to (s @ t) (ts @ us)"
  by (simp add: lexes_to_def sep_start_append)

lemma lexes_distinct [lexing]:
  "lexes_to (ident (col_name (fst p)) @ '' IS NOT DISTINCT FROM '' @ cell_lit (snd p))
     (distinct_tokens p)"
  using lexes_to_to [OF lexes_ident lexes_keywords(1) _ _ lexes_cell, of "col_name (fst p)" "snd p"]
  by (simp add: distinct_tokens_def)

lemma lexes_key_cond [lexing]: "lexes_to (key_cond p) (key_tokens p)"
  using lexes_to_to [OF lexes_ident lexes_keywords(2) _ _ lexes_lit, of "col_name (fst p)"]
    lexes_to_join2 [OF lexes_ident lexes_is_null, of "col_name (fst p)"]
  by (simp add: key_cond_def key_tokens_def split: cell_value.splits)

lemmas lexes_list = lexes_join [OF _ lexes_comma]

lemma lexes_names:
  "lexes_to (join_str '', '' (map (\<lambda>p. ident (col_name (fst p))) ps))
     (sep_tokens [TSym CHR '',''] (map (\<lambda>p. [TQuoted (col_name (fst p))]) ps))"
  by (rule lexes_list) (simp_all add: lexing)

lemma lexes_cells:
  "lexes_to (join_str '', '' (map (\<lambda>p. cell_lit (snd p)) ps))
     (sep_tokens [TSym CHR '',''] (map (\<lambda>p. cell_tokens (snd p)) ps))"
  by (rule lexes_list) (simp_all add: lexing)

lemma lexes_assigns:
  "lexes_to (join_str '', '' (map (\<lambda>p. ident (col_name (fst p)) @ '' = '' @ cell_lit (snd p)) ps))
     (sep_tokens [TSym CHR '',''] (map assign_tokens ps))"
  by (rule lexes_list [OF lexes_assign]) simp_all

lemma lexes_distincts:
  "lexes_to (join_str '' AND '' (map (\<lambda>p. ident (col_name (fst p)) @ '' IS NOT DISTINCT FROM '' @
       cell_lit (snd p)) ps))
     (sep_tokens [TWord ''AND''] (map distinct_tokens ps))"
  by (rule lexes_join [OF lexes_distinct lexes_keywords(3)]) simp_all

lemma lexes_key_conds:
  "lexes_to (join_str '' AND '' (map key_cond ps)) (sep_tokens [TWord ''AND''] (map key_tokens ps))"
  by (rule lexes_join [OF lexes_key_cond lexes_keywords(3)]) simp_all

text \<open>The where-clause meets its specification.\<close>

lemma where_clause_ok:
  "where_clause r key old new = Inr (w, pairs) \<Longrightarrow>
     \<exists>ts. where_spec r key old new = Some (ts, pairs) \<and> lexes_to w ts"
  using lexes_distincts lexes_key_conds
  by (auto simp: where_clause_def where_spec_def old_conds_eq key_conds_eq sent_def key_cells_def
      Let_def split: option.splits if_splits)

lemma where_clause_fails:
  "where_spec r key old new = None \<longleftrightarrow> \<not> is_ok (where_clause r key old new)"
  by (auto simp: where_clause_def where_spec_def old_conds_eq key_conds_eq sent_def key_cells_def
      Let_def is_ok_iff split: option.splits if_splits)

lemma toast_free: "arity_ok r t \<Longrightarrow>
   (\<exists>p \<in> set (zip (rel_columns r) (cells t)). snd p = UnchangedToast) \<longleftrightarrow> UnchangedToast \<in> set (cells t)"
proof -
  assume "arity_ok r t"
  then have "map snd (zip (rel_columns r) (cells t)) = cells t" by (simp add: arity_ok_def)
  then have "set (cells t) = snd ` set (zip (rel_columns r) (cells t))" by (metis set_map)
  then show ?thesis by (metis image_iff)
qed

lemma lexes_closed: "lexes_any s ts \<Longrightarrow> lex s = Some ts"
  by (rule lexes_lex [OF lexes_any_to'])

lemma insert_text:
  assumes "lexes_to a ts" "lexes_to b us"
  shows "lex (''INSERT INTO '' @ target r @ '' ('' @ a @ '') VALUES ('' @ b @ '')'') =
    Some ([TWord ''INSERT'', TWord ''INTO''] @ target_tokens (rel_schema r) (rel_name r) @
      [TSym CHR ''(''] @ ts @ [TSym CHR '')'', TWord ''VALUES'', TSym CHR ''(''] @ us @
      [TSym CHR '')''])"
proof -
  have "lexes_any (b @ '')'') (us @ [TSym CHR '')''])"
    by (rule lexes_to_any [OF assms(2) lexes_keywords(7)]) simp_all
  then have "lexes_any ('') VALUES ('' @ b @ '')'')
      ([TSym CHR '')'', TWord ''VALUES'', TSym CHR ''(''] @ us @ [TSym CHR '')''])"
    by (rule lexes_any_append [OF lexes_keywords(6)])
  then have "lexes_any (a @ '') VALUES ('' @ b @ '')'')
      (ts @ [TSym CHR '')'', TWord ''VALUES'', TSym CHR ''(''] @ us @ [TSym CHR '')''])"
    by (rule lexes_to_any [OF assms(1)]) simp_all
  then have "lexes_any ('' ('' @ a @ '') VALUES ('' @ b @ '')'')
      ([TSym CHR ''(''] @ ts @ [TSym CHR '')'', TWord ''VALUES'', TSym CHR ''(''] @ us @ [TSym CHR '')''])"
    by (rule lexes_any_append [OF lexes_keywords(5)])
  then have "lexes_any (target r @ '' ('' @ a @ '') VALUES ('' @ b @ '')'')
      (target_tokens (rel_schema r) (rel_name r) @ [TSym CHR ''(''] @ ts @
        [TSym CHR '')'', TWord ''VALUES'', TSym CHR ''(''] @ us @ [TSym CHR '')''])"
    unfolding target_def by (rule lexes_to_any [OF lexes_target]) simp_all
  from lexes_any_append [OF lexes_keywords(4) this] show ?thesis
    by (rule lexes_closed)
qed

lemma update_text:
  assumes "lexes_to a ts" "lexes_to w us"
  shows "lex (''UPDATE '' @ target r @ '' SET '' @ a @ '' WHERE '' @ w) =
    Some ([TWord ''UPDATE''] @ target_tokens (rel_schema r) (rel_name r) @
      [TWord ''SET''] @ ts @ [TWord ''WHERE''] @ us)"
proof -
  have "lexes_to (a @ '' WHERE '' @ w) (ts @ [TWord ''WHERE''] @ us)"
    by (rule lexes_to_to [OF assms(1) lexes_keywords(10) _ _ assms(2)]) simp_all
  then have "lexes_to (target r @ '' SET '' @ a @ '' WHERE '' @ w)
      (target_tokens (rel_schema r) (rel_name r) @ [TWord ''SET''] @ ts @ [TWord ''WHERE''] @ us)"
    unfolding target_def by (intro lexes_to_to [OF lexes_target lexes_keywords(9)]) simp_all
  from lexes_any_to [OF lexes_keywords(8) this] show ?thesis
    by (rule lexes_lex)
qed

lemma delete_text:
  assumes "lexes_to w us"
  shows "lex (''DELETE FROM '' @ target r @ '' WHERE '' @ w) =
    Some ([TWord ''DELETE'', TWord ''FROM''] @ target_tokens (rel_schema r) (rel_name r) @
      [TWord ''WHERE''] @ us)"
proof -
  have "lexes_to (target r @ '' WHERE '' @ w)
      (target_tokens (rel_schema r) (rel_name r) @ [TWord ''WHERE''] @ us)"
    unfolding target_def by (rule lexes_to_to [OF lexes_target lexes_keywords(10) _ _ assms]) simp_all
  from lexes_any_to [OF lexes_keywords(11) this] show ?thesis
    by (rule lexes_lex)
qed

section \<open>Properties\<close>

text \<open>
  An insert becomes a statement exactly when the tuple has the relation's arity and no unchanged
  TOAST cell; then SQL reads in the statement an insert into the relation's table of exactly the
  tuple's cells under the relation's column names, whatever bytes names and cells hold, and the
  published change pairs each column with its cell.
\<close>

theorem insert_sql_spec:
  "case insert_sql r new of
     Inl _ \<Rightarrow> \<not> (arity_ok r new \<and> UnchangedToast \<notin> set (cells new))
   | Inr (stmt, ch) \<Rightarrow>
       arity_ok r new \<and> UnchangedToast \<notin> set (cells new) \<and>
       lex stmt = Some ([TWord ''INSERT'', TWord ''INTO''] @
         target_tokens (rel_schema r) (rel_name r) @ [TSym CHR ''(''] @
         sep_tokens [TSym CHR '',''] (map (\<lambda>p. [TQuoted (col_name (fst p))]) (zip (rel_columns r) (cells new))) @
         [TSym CHR '')'', TWord ''VALUES'', TSym CHR ''(''] @
         sep_tokens [TSym CHR '',''] (map (\<lambda>p. cell_tokens (snd p)) (zip (rel_columns r) (cells new))) @
         [TSym CHR '')'']) \<and>
       ch = ChInsert (rel_schema r) (rel_name r) (map pair_of (zip (rel_columns r) (cells new)))"
proof (cases "insert_sql r new")
  case (Inl e)
  then show ?thesis
    using toast_free [of r new] by (auto simp: insert_sql_def bindR_eq_Inl insert_cells_eq
        check_arity_def arity_ok_def split: if_splits)
next
  case (Inr p)
  obtain stmt ch where p: "p = (stmt, ch)" by (cases p)
  from Inr p have a: "arity_ok r new"
    and t: "\<not> (\<exists>p \<in> set (zip (rel_columns r) (cells new)). snd p = UnchangedToast)"
    and s: "stmt = ''INSERT INTO '' @ target r @ '' ('' @
        join_str '', '' (map (\<lambda>p. ident (col_name (fst p))) (zip (rel_columns r) (cells new))) @
        '') VALUES ('' @
        join_str '', '' (map (\<lambda>p. cell_lit (snd p)) (zip (rel_columns r) (cells new))) @ '')''"
    and c: "ch = ChInsert (rel_schema r) (rel_name r) (map pair_of (zip (rel_columns r) (cells new)))"
    by (auto simp: insert_sql_def insert_cells_eq split: if_splits)
  show ?thesis
    unfolding Inr p sum.case prod.case s
    using a t c toast_free [OF a] insert_text [OF lexes_names lexes_cells] by simp
qed

text \<open>
  C7. An update becomes a statement exactly when the new tuple has the relation's arity, it assigns
  some column and the rows it selects are determined (by the old row, else by the identity columns
  of the key tuple, else of the new tuple); then SQL reads in the statement an update of the
  relation's table that assigns all columns but the unchanged TOAST values and selects by exactly
  those conditions, and the published change holds the same key and row.
\<close>

theorem update_sql_spec:
  "case update_sql r key old new of
     Inl _ \<Rightarrow> \<not> (arity_ok r new \<and> sent r new \<noteq> [] \<and> where_spec r key old (Some new) \<noteq> None)
   | Inr (stmt, ch) \<Rightarrow>
       arity_ok r new \<and> sent r new \<noteq> [] \<and>
       (\<exists>ts pairs. where_spec r key old (Some new) = Some (ts, pairs) \<and>
          lex stmt = Some ([TWord ''UPDATE''] @ target_tokens (rel_schema r) (rel_name r) @
            [TWord ''SET''] @ sep_tokens [TSym CHR '',''] (map assign_tokens (sent r new)) @
            [TWord ''WHERE''] @ ts) \<and>
          ch = ChUpdate (rel_schema r) (rel_name r) pairs (map pair_of (sent r new)))"
proof (cases "update_sql r key old new")
  case (Inl e)
  show ?thesis
  proof (cases "where_clause r key old (Some new)")
    case (Inl e')
    then have "where_spec r key old (Some new) = None" by (simp add: where_clause_fails)
    then show ?thesis using \<open>update_sql r key old new = Inl e\<close> by simp
  next
    case (Inr wp)
    then show ?thesis
      using Inl by (cases wp) (auto simp: update_sql_def bindR_eq_Inl update_sets_eq sent_def
          check_arity_def arity_ok_def Let_def split: if_splits)
  qed
next
  case (Inr p)
  obtain stmt ch where p: "p = (stmt, ch)" by (cases p)
  from Inr p obtain w pairs where a: "arity_ok r new"
    and w: "where_clause r key old (Some new) = Inr (w, pairs)" and n: "sent r new \<noteq> []"
    and s: "stmt = ''UPDATE '' @ target r @ '' SET '' @
        join_str '', '' (map (\<lambda>p. ident (col_name (fst p)) @ '' = '' @ cell_lit (snd p)) (sent r new)) @
        '' WHERE '' @ w"
    and c: "ch = ChUpdate (rel_schema r) (rel_name r) pairs (map pair_of (sent r new))"
    by (auto simp: update_sql_def update_sets_eq sent_def Let_def split: if_splits)
  from where_clause_ok [OF w] obtain ts where
    "where_spec r key old (Some new) = Some (ts, pairs)" "lexes_to w ts" by blast
  then show ?thesis
    unfolding Inr p sum.case prod.case s using a n c update_text [OF lexes_assigns] by blast
qed

text \<open>
  A delete becomes a statement exactly when the rows it selects are determined by the old row or
  by the key tuple; then SQL reads in the statement a delete from the relation's table selecting by
  exactly those conditions, and the published change holds the same key.
\<close>

theorem delete_sql_spec:
  "case delete_sql r key old of
     Inl _ \<Rightarrow> where_spec r key old None = None
   | Inr (stmt, ch) \<Rightarrow>
       (\<exists>ts pairs. where_spec r key old None = Some (ts, pairs) \<and>
          lex stmt = Some ([TWord ''DELETE'', TWord ''FROM''] @
            target_tokens (rel_schema r) (rel_name r) @ [TWord ''WHERE''] @ ts) \<and>
          ch = ChDelete (rel_schema r) (rel_name r) pairs)"
proof (cases "where_clause r key old None")
  case (Inl e)
  then show ?thesis by (simp add: delete_sql_def where_clause_fails)
next
  case (Inr p)
  obtain w pairs where p: "p = (w, pairs)" by (cases p)
  from where_clause_ok [OF Inr [unfolded p]] obtain ts where
    "where_spec r key old None = Some (ts, pairs)" "lexes_to w ts" by blast
  then show ?thesis
    using Inr p delete_text by (simp add: delete_sql_def)
qed

end
