(* ===== verification/Schema.thy ===== *)
theory Schema
  imports ChangeSql "HOL-Library.AList"
begin

text \<open>
  \<^verbatim>\<open>replica/backfill.rs\<close>, the data and the pure functions: tables, columns and user-defined types with
  the statements that create them, the fingerprint of a schema (the text the replica stores and later
  compares), and the classification of a changed relation against a stored fingerprint line.
\<close>

section \<open>Data\<close>

record col_def =
  cd_name :: string
  cd_type_sql :: string
  cd_type_oid :: u32
  cd_not_null :: bool

record table_def =
  td_schema :: string
  td_name :: string
  td_columns :: "col_def list"
  td_pk :: "string list"
  td_replica_identity :: string
  td_row_filter :: "string option"
  td_indexes :: "string list"

datatype type_def =
    EnumDef string string "string list"
  | CompositeDef string string "(string \<times> string) list"
  | DomainDef string string string bool "string list"
  | RangeDef string string string

fun ty_schema :: "type_def \<Rightarrow> string" where
  "ty_schema (EnumDef s _ _) = s"
| "ty_schema (CompositeDef s _ _) = s"
| "ty_schema (DomainDef s _ _ _ _) = s"
| "ty_schema (RangeDef s _ _) = s"

fun ty_name :: "type_def \<Rightarrow> string" where
  "ty_name (EnumDef _ n _) = n"
| "ty_name (CompositeDef _ n _) = n"
| "ty_name (DomainDef _ n _ _ _) = n"
| "ty_name (RangeDef _ n _) = n"

definition ty_target :: "type_def \<Rightarrow> string" where
  "ty_target t = target_of (ty_schema t) (ty_name t)"

section \<open>Statements\<close>

definition drop_sql :: "type_def \<Rightarrow> string" where
  "drop_sql t =
     ''DROP '' @ (case t of DomainDef _ _ _ _ _ \<Rightarrow> ''DOMAIN'' | _ \<Rightarrow> ''TYPE'') @ '' IF EXISTS '' @
     ty_target t @ '' CASCADE''"

fun create_sql :: "type_def \<Rightarrow> string" where
  "create_sql (EnumDef s n labels) =
     ''CREATE TYPE '' @ ty_target (EnumDef s n labels) @ '' AS ENUM ('' @
     join_str '', '' (map lit labels) @ '')''"
| "create_sql (CompositeDef s n attrs) =
     ''CREATE TYPE '' @ ty_target (CompositeDef s n attrs) @ '' AS ('' @
     join_str '', '' (map (\<lambda>(a, ty). ident a @ '' '' @ ty) attrs) @ '')''"
| "create_sql (DomainDef s n base not_null checks) =
     ''CREATE DOMAIN '' @ ty_target (DomainDef s n base not_null checks) @ '' AS '' @ base @
     (if not_null then '' NOT NULL'' else []) @ concat (map (\<lambda>c. CHR '' '' # c) checks)"
| "create_sql (RangeDef s n subtype) =
     ''CREATE TYPE '' @ ty_target (RangeDef s n subtype) @ '' AS RANGE (subtype = '' @ subtype @ '')''"

definition td_target :: "table_def \<Rightarrow> string" where
  "td_target t = target_of (td_schema t) (td_name t)"

definition col_sql :: "col_def \<Rightarrow> string" where
  "col_sql c = ident (cd_name c) @ '' '' @ cd_type_sql c @ (if cd_not_null c then '' NOT NULL'' else [])"

definition create_table_sql :: "table_def \<Rightarrow> string" where
  "create_table_sql t =
     ''CREATE TABLE '' @ td_target t @ '' ('' @
     join_str '', ''
       (map col_sql (td_columns t) @
        (if td_pk t = [] then []
         else [''PRIMARY KEY ('' @ join_str '', '' (map ident (td_pk t)) @ '')''])) @ '')''"

section \<open>Fingerprints\<close>

definition fp_col :: "string \<times> u32 \<Rightarrow> string" where
  "fp_col p = fst p @ '':'' @ show_u32 (snd p)"

definition fingerprint_line :: "string \<Rightarrow> string \<Rightarrow> (string \<times> u32) list \<Rightarrow> string" where
  "fingerprint_line schema table cols =
     schema @ ''|'' @ table @ concat (map (\<lambda>p. CHR ''|'' # fp_col p) cols)"

definition td_cols :: "table_def \<Rightarrow> (string \<times> u32) list" where
  "td_cols t = map (\<lambda>c. (cd_name c, cd_type_oid c)) (td_columns t)"

definition td_line :: "table_def \<Rightarrow> string" where
  "td_line t = fingerprint_line (td_schema t) (td_name t) (td_cols t)"

definition fingerprint :: "table_def list \<Rightarrow> string" where
  "fingerprint tables = join_str [nl] (map td_line tables)"

section \<open>Reading a fingerprint back\<close>

datatype schema_change = Additive nat | Incompatible string

text \<open>One segment of a line: name and oid around the last colon; other segments are dropped.\<close>

definition seg_col :: "string \<Rightarrow> (string \<times> u32) option" where
  "seg_col seg =
     (case rsplit_once CHR '':'' seg of
        None \<Rightarrow> None
      | Some (name, oid) \<Rightarrow> map_option (Pair name) (parse_u32 oid))"

definition line_cols :: "string \<Rightarrow> (string \<times> u32) list" where
  "line_cols line = List.map_filter seg_col (drop 2 (split_on CHR ''|'' line))"

fun changed_column ::
  "nat \<Rightarrow> (string \<times> u32) list \<Rightarrow> (string \<times> u32) list \<Rightarrow> string option" where
  "changed_column i (o_col # os) (n_col # ns) =
     (if o_col \<noteq> n_col
      then Some (''column '' @ show_nat i @ '' changed (was '' @ fp_col o_col @ '', now '' @
             fp_col n_col @ '')'')
      else changed_column (Suc i) os ns)"
| "changed_column i _ _ = None"

definition classify_schema_change :: "string \<Rightarrow> (string \<times> u32) list \<Rightarrow> schema_change" where
  "classify_schema_change expected_line new =
     (let old = line_cols expected_line
      in if length new < length old
         then Incompatible (''a column was removed (had '' @ show_nat (length old) @ '', now '' @
                show_nat (length new) @ '')'')
         else (case changed_column 0 old new of
                 Some reason \<Rightarrow> Incompatible reason
               | None \<Rightarrow> Additive (length old)))"

text \<open>
  The map from a table to its line that \<open>stream_loop\<close> and \<open>resync_schema\<close> build from a fingerprint; a
  later line for the same table wins.
\<close>

definition line_key :: "string \<Rightarrow> (string \<times> string) option" where
  "line_key line = (case splitn 3 CHR ''|'' line of s # t # _ \<Rightarrow> Some (s, t) | _ \<Rightarrow> None)"

type_synonym line_map = "((string \<times> string) \<times> string) list"

fun expected_of :: "string list \<Rightarrow> line_map \<Rightarrow> line_map" where
  "expected_of [] m = m"
| "expected_of (line # ls) m =
     expected_of ls (case line_key line of None \<Rightarrow> m | Some k \<Rightarrow> AList.update k line m)"

section \<open>Abstract readings\<close>

text \<open>Names the text format can carry: no separator, and no line break.\<close>

definition plain_name :: "string \<Rightarrow> bool" where
  "plain_name s \<longleftrightarrow> CHR ''|'' \<notin> set s \<and> nl \<notin> set s \<and> cr \<notin> set s"

definition plain_table :: "table_def \<Rightarrow> bool" where
  "plain_table t \<longleftrightarrow> plain_name (td_schema t) \<and> plain_name (td_name t) \<and>
     (\<forall>c \<in> set (td_columns t). plain_name (cd_name c))"

definition td_key :: "table_def \<Rightarrow> string \<times> string" where
  "td_key t = (td_schema t, td_name t)"

text \<open>The tokens of a column definition and of a table, given those of the type texts.\<close>

definition col_tokens :: "(col_def \<Rightarrow> token list) \<Rightarrow> col_def \<Rightarrow> token list" where
  "col_tokens ty c = [TQuoted (cd_name c)] @ ty c @
     (if cd_not_null c then [TWord ''NOT'', TWord ''NULL''] else [])"

definition table_tokens :: "(col_def \<Rightarrow> token list) \<Rightarrow> table_def \<Rightarrow> token list" where
  "table_tokens ty t =
     [TWord ''CREATE'', TWord ''TABLE''] @ target_tokens (td_schema t) (td_name t) @ [TSym CHR ''(''] @
     sep_tokens [TSym CHR '','']
       (map (col_tokens ty) (td_columns t) @
        (if td_pk t = [] then []
         else [[TWord ''PRIMARY'', TWord ''KEY'', TSym CHR ''(''] @
               sep_tokens [TSym CHR '',''] (map (\<lambda>c. [TQuoted c]) (td_pk t)) @ [TSym CHR '')'']])) @
     [TSym CHR '')'']"

section \<open>Lemmas\<close>

lemma map_of_update: "map_of (AList.update k v m) = (map_of m)(k \<mapsto> v)"
  by (rule update_conv')

lemma fp_col_simps: "rsplit_once CHR '':'' (fp_col p) = Some (fst p, show_u32 (snd p))"
  unfolding fp_col_def by (simp add: rsplit_once_append)

lemma seg_col_fp [simp]: "seg_col (fp_col p) = Some p"
  by (simp add: seg_col_def fp_col_simps parse_u32_show)

lemma split_concat_sep:
  "c \<notin> set a \<Longrightarrow> \<forall>x \<in> set xs. c \<notin> set x \<Longrightarrow>
     split_on c (a @ concat (map (\<lambda>x. c # x) xs)) = a # xs"
proof (induction xs arbitrary: a)
  case (Cons x xs)
  then show ?case by (simp add: split_on_append)
qed (simp add: split_on_none)

lemma fp_col_sep: "CHR ''|'' \<notin> set (fst p) \<Longrightarrow> CHR ''|'' \<notin> set (fp_col p)"
  by (simp add: fp_col_def)

lemma split_fingerprint_line:
  assumes "CHR ''|'' \<notin> set s" "CHR ''|'' \<notin> set t" "\<forall>p \<in> set cols. CHR ''|'' \<notin> set (fst p)"
  shows "split_on CHR ''|'' (fingerprint_line s t cols) = s # t # map fp_col cols"
proof -
  have "split_on CHR ''|'' (s @ concat (map (\<lambda>x. CHR ''|'' # x) (t # map fp_col cols))) =
      s # t # map fp_col cols"
    using assms by (intro split_concat_sep) (auto simp: fp_col_sep)
  then show ?thesis by (simp add: fingerprint_line_def comp_def)
qed

lemma line_cols_fingerprint:
  assumes "CHR ''|'' \<notin> set s" "CHR ''|'' \<notin> set t" "\<forall>p \<in> set cols. CHR ''|'' \<notin> set (fst p)"
  shows "line_cols (fingerprint_line s t cols) = cols"
  using split_fingerprint_line [OF assms]
  by (simp add: line_cols_def List.map_filter_def filter_map_comp comp_def)

lemma changed_column_None:
  "length os \<le> length ns \<Longrightarrow> changed_column i os ns = None \<longleftrightarrow> take (length os) ns = os"
  by (induction i os ns rule: changed_column.induct) auto

lemma line_key_fingerprint:
  assumes "CHR ''|'' \<notin> set s" "CHR ''|'' \<notin> set t"
  shows "line_key (fingerprint_line s t cols) = Some (s, t)"
proof (cases cols)
  case Nil
  then show ?thesis
    using assms by (simp add: line_key_def fingerprint_line_def split_once_append split_once_None
        numeral_3_eq_3 split_once_None [THEN iffD2])
next
  case (Cons p ps)
  then show ?thesis
    using assms by (simp add: line_key_def fingerprint_line_def split_once_append numeral_3_eq_3)
qed

lemma td_line_chars:
  assumes "plain_table t"
  shows "td_line t \<noteq> []" "nl \<notin> set (td_line t)" "cr \<notin> set (td_line t)"
  using assms by (auto simp: td_line_def fingerprint_line_def td_cols_def plain_table_def
      plain_name_def fp_col_def)

lemma str_lines_fingerprint:
  "\<forall>t \<in> set ts. plain_table t \<Longrightarrow> str_lines (fingerprint ts) = map td_line ts"
  unfolding fingerprint_def by (rule str_lines_join) (auto simp: td_line_chars)

lemma line_key_td: "plain_table t \<Longrightarrow> line_key (td_line t) = Some (td_key t)"
  unfolding td_line_def td_key_def
  by (rule line_key_fingerprint) (simp_all add: plain_table_def plain_name_def)

lemma map_of_expected:
  "map_of (expected_of ls m) =
     map_of m ++ map_of (rev (List.map_filter (\<lambda>l. map_option (\<lambda>k. (k, l)) (line_key l)) ls))"
  by (induction ls m rule: expected_of.induct)
    (auto simp: map_of_update map_filter_simps map_add_def fun_eq_iff split: option.split)

lemma map_of_expected_td:
  assumes "\<forall>t \<in> set ts. plain_table t"
  shows "map_of (expected_of (map td_line ts) m) = map_of m ++ map_of (rev (map (\<lambda>t. (td_key t, td_line t)) ts))"
proof -
  have "List.map_filter (\<lambda>l. map_option (\<lambda>k. (k, l)) (line_key l)) (map td_line ts) =
      map (\<lambda>t. (td_key t, td_line t)) ts"
    using assms by (induction ts) (simp_all add: map_filter_simps line_key_td)
  then show ?thesis by (simp add: map_of_expected)
qed

lemma lexes_join_all:
  assumes "list_all2 lexes_to ss ts" and "lexes_any sep us" "sep \<noteq> []" "sep_start sep"
  shows "lexes_to (join_str sep ss) (sep_tokens us ts)"
proof -
  have "length ss = length ts" using assms(1) by (rule list_all2_lengthD)
  moreover have "lexes_to (join_str sep (map fst (zip ss ts))) (sep_tokens us (map snd (zip ss ts)))"
    using assms by (intro lexes_join) (auto simp: list_all2_iff)
  ultimately show ?thesis by simp
qed

lemma lexes_create_keywords [lexing]:
  "lexes_any ''CREATE TABLE '' [TWord ''CREATE'', TWord ''TABLE'']"
  "lexes_any ''PRIMARY KEY ('' [TWord ''PRIMARY'', TWord ''KEY'', TSym CHR ''('']"
  "lexes_any ''CREATE TYPE '' [TWord ''CREATE'', TWord ''TYPE'']"
  "lexes_any '' AS ENUM ('' [TWord ''AS'', TWord ''ENUM'', TSym CHR ''('']"
  "lexes_any '' NOT '' [TWord ''NOT'']"
  "lexes_any '' '' []"
  by (simp_all add: lex_eval option.map_ident)

lemma lexes_col:
  assumes "lexes_to (cd_type_sql c) (ty c)"
  shows "lexes_to (col_sql c) (col_tokens ty c)"
proof -
  have a: "lexes_to (ident (cd_name c) @ '' '' @ cd_type_sql c) ([TQuoted (cd_name c)] @ [] @ ty c)"
    by (rule lexes_to_to [OF lexes_ident lexes_create_keywords(6) _ _ assms]) simp_all
  have "lexes_to '' NOT NULL'' [TWord ''NOT'', TWord ''NULL'']"
    using lexes_any_to [OF lexes_create_keywords(5) lexes_NULL] by simp
  from lexes_to_join2 [OF a this] a show ?thesis
    by (simp add: col_sql_def col_tokens_def)
qed

lemma lexes_close: "lexes_to s ts \<Longrightarrow> lexes_to (s @ '')'') (ts @ [TSym CHR '')''])"
  by (rule lexes_to_join2 [OF _ lexes_any_to' [OF lexes_keywords(7)]]) simp_all

lemma lexes_pk:
  "lexes_to (''PRIMARY KEY ('' @ join_str '', '' (map ident pk) @ '')'')
     ([TWord ''PRIMARY'', TWord ''KEY'', TSym CHR ''(''] @
      sep_tokens [TSym CHR '',''] (map (\<lambda>c. [TQuoted c]) pk) @ [TSym CHR '')''])"
  by (intro lexes_any_to [OF lexes_create_keywords(2)] lexes_close lexes_list lexing) simp_all

section \<open>Properties\<close>

text \<open>
  A changed relation is taken as additive exactly when the columns of the stored line, all of
  them and in their order, are the first columns of the relation, with the same names and type oids;
  every other change is incompatible. The names of the stored line must not hold the separator.
\<close>

theorem classify_additive:
  assumes "plain_name s" "plain_name t" "\<forall>p \<in> set old. plain_name (fst p)"
  shows "classify_schema_change (fingerprint_line s t old) new = Additive n \<longleftrightarrow>
    n = length old \<and> take n new = old"
proof -
  have "line_cols (fingerprint_line s t old) = old"
    using assms by (intro line_cols_fingerprint) (simp_all add: plain_name_def)
  then show ?thesis
    using changed_column_None [of old new 0]
    by (auto simp: classify_schema_change_def Let_def split: option.split)
qed

theorem classify_additive_witness:
  "classify_schema_change (fingerprint_line ''s'' ''t'' [(''id'', 23)]) [(''id'', 23), (''n'', 25)] = Additive 1 \<and>
   classify_schema_change (fingerprint_line ''s'' ''t'' [(''id'', 23)]) [(''id'', 20)] \<noteq> Additive 1"
  using classify_additive [of "''s''" "''t''" "[(''id'', 23)]" "[(''id'', 23), (''n'', 25)]" 1]
    classify_additive [of "''s''" "''t''" "[(''id'', 23)]" "[(''id'', 20)]" 1]
  by (simp add: plain_name_def)

text \<open>
  The stored fingerprint is read back as the schema it was made from: looking a table up in
  the map built from its lines gives the table's own line, and nothing for a table that is not in it.
\<close>

theorem fingerprint_lookup:
  assumes "\<forall>t \<in> set ts. plain_table t" and "distinct (map td_key ts)"
  shows "map_of (expected_of (str_lines (fingerprint ts)) []) k =
    map_option td_line (List.find (\<lambda>t. td_key t = k) ts)"
proof -
  have "distinct (map fst (map (\<lambda>t. (td_key t, td_line t)) ts))" using assms(2) by (simp add: comp_def)
  then have "map_of (rev (map (\<lambda>t. (td_key t, td_line t)) ts)) = map_of (map (\<lambda>t. (td_key t, td_line t)) ts)"
    by (intro map_of_inject_set [THEN iffD2]) (simp_all add: rev_map [symmetric] distinct_rev)
  moreover have "map_of (map (\<lambda>t. (td_key t, td_line t)) ts) k =
      map_option td_line (List.find (\<lambda>t. td_key t = k) ts)"
    by (induction ts) auto
  ultimately show ?thesis
    using assms(1) by (simp add: str_lines_fingerprint map_of_expected_td)
qed

definition sample_table :: table_def where
  "sample_table = \<lparr>td_schema = ''public'', td_name = ''users'',
     td_columns = [\<lparr>cd_name = ''id'', cd_type_sql = ''integer'', cd_type_oid = 23, cd_not_null = True\<rparr>,
                   \<lparr>cd_name = ''name'', cd_type_sql = ''text'', cd_type_oid = 25, cd_not_null = False\<rparr>],
     td_pk = [''id''], td_replica_identity = ''d'', td_row_filter = None, td_indexes = []\<rparr>"

theorem fingerprint_lookup_witness:
  "map_of (expected_of (str_lines (fingerprint [sample_table])) []) (''public'', ''users'') =
     Some (td_line sample_table) \<and>
   map_of (expected_of (str_lines (fingerprint [sample_table])) []) (''public'', ''other'') = None"
  using fingerprint_lookup [of "[sample_table]" "(''public'', ''users'')"]
    fingerprint_lookup [of "[sample_table]" "(''public'', ''other'')"]
  by (simp add: sample_table_def plain_table_def plain_name_def td_key_def)

text \<open>
  Without that condition on names the text is ambiguous: two relations with different
  columns have the same line.
\<close>

theorem fingerprint_ambiguous:
  "fingerprint_line ''public'' ''t'' [(''a:23|b'', 25)] = fingerprint_line ''public'' ''t'' [(''a'', 23), (''b'', 25)]"
  by code_simp

text \<open>
  SQL reads in the statement that creates a table exactly the table's columns in order,
  each with its name, its type and its NOT NULL, and then its primary key, whatever the names hold.
  What a type text lexes to is a hypothesis, since the upstream server prints it.
\<close>

theorem create_table_spec:
  assumes "\<forall>c \<in> set (td_columns t). lexes_to (cd_type_sql c) (ty c)"
  shows "lex (create_table_sql t) = Some (table_tokens ty t)"
proof -
  have "list_all2 lexes_to (map col_sql (td_columns t)) (map (col_tokens ty) (td_columns t))"
    using assms by (simp add: list_all2_map1 list_all2_map2 list_all2_same lexes_col)
  then have "lexes_to (join_str '', '' (map col_sql (td_columns t) @
        (if td_pk t = [] then [] else [''PRIMARY KEY ('' @ join_str '', '' (map ident (td_pk t)) @ '')''])))
      (sep_tokens [TSym CHR '','']
       (map (col_tokens ty) (td_columns t) @
        (if td_pk t = [] then []
         else [[TWord ''PRIMARY'', TWord ''KEY'', TSym CHR ''(''] @
               sep_tokens [TSym CHR '',''] (map (\<lambda>c. [TQuoted c]) (td_pk t)) @ [TSym CHR '')'']])))"
    using lexes_pk [of "td_pk t"]
    by (intro lexes_join_all [OF _ lexes_comma] list_all2_appendI) simp_all
  then show ?thesis
    unfolding create_table_sql_def table_tokens_def td_target_def
    by (intro lexes_lex lexes_any_to [OF lexes_create_keywords(1)]
        lexes_to_to [OF lexes_target lexes_keywords(5)] lexes_close) simp_all
qed

theorem create_table_spec_witness:
  "lex (create_table_sql sample_table) =
     Some (table_tokens (\<lambda>c. [TWord (cd_type_sql c)]) sample_table)"
  by (rule create_table_spec) (auto simp: sample_table_def word_char_def intro!: lexes_word)

end
