(* ===== verification/Topo.thy ===== *)
theory Topo
  imports Text "HOL-Library.While_Combinator"
begin

text \<open>
  \<open>topo_order\<close> of \<^verbatim>\<open>replica/backfill.rs\<close>: the depth-first search with an explicit stack that orders
  the user-defined types so that each comes after the types it uses. The items are oid, oids used and
  definition. The loop is a \<open>while_option\<close>, so not returning is a value of the model; the property
  shows that it never is.
\<close>

type_synonym 'd item = "u32 \<times> u32 list \<times> 'd"

section \<open>The search\<close>

text \<open>The \<open>HashMap\<close> from oid to position: the last item of an oid counts.\<close>

definition topo_index :: "'d item list \<Rightarrow> u32 \<Rightarrow> nat option" where
  "topo_index items = map_of (rev (zip (map fst items) [0..<length items]))"

definition item_deps :: "'d item list \<Rightarrow> nat \<Rightarrow> u32 list" where
  "item_deps items i = fst (snd (items ! i))"

text \<open>
  The inner loop over the dependencies: the position reached with the first unvisited one, or \<open>None\<close>
  at one that is still open, which is a cycle. States are 0 (unvisited), 1 (open) and 2 (done).
\<close>

fun scan_deps ::
  "(u32 \<Rightarrow> nat option) \<Rightarrow> nat list \<Rightarrow> u32 list \<Rightarrow> nat \<Rightarrow> (nat \<times> nat option) option" where
  "scan_deps idx st [] k = Some (k, None)"
| "scan_deps idx st (d # ds) k =
     (case idx d of
        None \<Rightarrow> scan_deps idx st ds (Suc k)
      | Some j \<Rightarrow> if st ! j = 0 then Some (Suc k, Some j)
                  else if st ! j = 1 then None
                  else scan_deps idx st ds (Suc k))"

record topo =
  t_state :: "nat list"
  t_order :: "nat list"
  t_stack :: "(nat \<times> nat) list"
  t_err :: "error option"

definition cycle_error :: "'d item list \<Rightarrow> nat \<Rightarrow> error" where
  "cycle_error items node =
     ReplicaConfigError (''cyclic user-defined type dependency involving type oid '' @
       show_u32 (fst (items ! node)))"

definition topo_step :: "'d item list \<Rightarrow> topo \<Rightarrow> topo" where
  "topo_step items s =
     (case t_stack s of
        [] \<Rightarrow> s
      | (node, di) # rest \<Rightarrow>
          let st = (if di = 0 then (t_state s)[node := 1] else t_state s)
          in (case scan_deps (topo_index items) st (drop di (item_deps items node)) di of
                None \<Rightarrow> s\<lparr>t_err := Some (cycle_error items node)\<rparr>
              | Some (k, Some j) \<Rightarrow> s\<lparr>t_state := st, t_stack := (j, 0) # (node, k) # rest\<rparr>
              | Some (k, None) \<Rightarrow>
                  s\<lparr>t_state := st[node := 2], t_order := t_order s @ [node], t_stack := rest\<rparr>))"

definition topo_dfs :: "'d item list \<Rightarrow> topo \<Rightarrow> topo option" where
  "topo_dfs items s =
     while_option (\<lambda>s. t_err s = None \<and> t_stack s \<noteq> []) (topo_step items) s"

fun topo_starts ::
  "'d item list \<Rightarrow> nat list \<Rightarrow> nat list \<Rightarrow> nat list \<Rightarrow> nat list res option" where
  "topo_starts items [] st order = Some (Inr order)"
| "topo_starts items (i # is) st order =
     (if st ! i \<noteq> 0 then topo_starts items is st order
      else (case topo_dfs items
                   \<lparr>t_state = st, t_order = order, t_stack = [(i, 0)], t_err = None\<rparr> of
              None \<Rightarrow> None
            | Some s \<Rightarrow> (case t_err s of
                           Some e \<Rightarrow> Some (Inl e)
                         | None \<Rightarrow> topo_starts items is (t_state s) (t_order s))))"

text \<open>\<open>defs[i].take().unwrap()\<close>: taking the same definition twice panics.\<close>

fun take_defs :: "nat list \<Rightarrow> 'd option list \<Rightarrow> 'd list option" where
  "take_defs [] ds = Some []"
| "take_defs (i # is) ds =
     (case ds ! i of None \<Rightarrow> None | Some d \<Rightarrow> map_option ((#) d) (take_defs is (ds[i := None])))"

definition topo_order :: "'d item list \<Rightarrow> 'd list res option" where
  "topo_order items =
     (case topo_starts items [0..<length items] (replicate (length items) 0) [] of
        None \<Rightarrow> None
      | Some (Inl e) \<Rightarrow> Some (Inl e)
      | Some (Inr order) \<Rightarrow>
          map_option Inr (take_defs order (map (\<lambda>it. Some (snd (snd it))) items)))"

section \<open>What the order promises\<close>

definition dep_rel :: "'d item list \<Rightarrow> (nat \<times> nat) set" where
  "dep_rel items =
     {(i, j). i < length items \<and> (\<exists>d \<in> set (item_deps items i). topo_index items d = Some j)}"

definition deps_first :: "'d item list \<Rightarrow> nat list \<Rightarrow> bool" where
  "deps_first items order \<longleftrightarrow>
     (\<forall>p < length order. \<forall>j. (order ! p, j) \<in> dep_rel items \<longrightarrow> j \<in> set (take p order))"

section \<open>The invariant of the search\<close>

text \<open>
  Below the top of the stack, a node waits for the one above it, its dependency before the position
  it has reached; all dependencies before that are done.
\<close>

fun chain :: "'d item list \<Rightarrow> nat list \<Rightarrow> nat \<Rightarrow> (nat \<times> nat) list \<Rightarrow> bool" where
  "chain items st up [] = True"
| "chain items st up ((b, kb) # rest) =
     (0 < kb \<and> kb \<le> length (item_deps items b) \<and>
      topo_index items (item_deps items b ! (kb - 1)) = Some up \<and> st ! b = 1 \<and>
      (\<forall>d \<in> set (take (kb - 1) (item_deps items b)). \<forall>j. topo_index items d = Some j \<longrightarrow> st ! j = 2) \<and>
      chain items st b rest)"

definition top_ok :: "'d item list \<Rightarrow> nat list \<Rightarrow> (nat \<times> nat) list \<Rightarrow> bool" where
  "top_ok items st stack \<longleftrightarrow>
     (case stack of
        [] \<Rightarrow> True
      | (a, ka) # rest \<Rightarrow>
          st ! a = (if ka = 0 then 0 else 1) \<and> ka \<le> length (item_deps items a) \<and>
          (\<forall>d \<in> set (take ka (item_deps items a)). \<forall>j. topo_index items d = Some j \<longrightarrow> st ! j = 2) \<and>
          chain items st a rest)"

definition dfs_inv :: "'d item list \<Rightarrow> topo \<Rightarrow> bool" where
  "dfs_inv items s \<longleftrightarrow>
     length (t_state s) = length items \<and>
     (\<forall>i < length items. t_state s ! i \<le> 2) \<and>
     (\<forall>i < length items. t_state s ! i = 1 \<longrightarrow> i \<in> fst ` set (t_stack s)) \<and>
     (\<forall>i < length items. t_state s ! i = 2 \<longleftrightarrow> i \<in> set (t_order s)) \<and>
     set (t_order s) \<subseteq> {..<length items} \<and> distinct (t_order s) \<and>
     fst ` set (t_stack s) \<subseteq> {..<length items} \<and> distinct (map fst (t_stack s)) \<and>
     top_ok items (t_state s) (t_stack s) \<and>
     deps_first items (t_order s)"

definition pending :: "'d item list \<Rightarrow> topo \<Rightarrow> nat set" where
  "pending items s = {i. i < length items \<and> t_state s ! i = 0 \<and> i \<notin> fst ` set (t_stack s)}"

definition dfs_measure :: "'d item list \<Rightarrow> topo \<Rightarrow> nat" where
  "dfs_measure items s =
     2 * card (pending items s) + length (t_stack s) + (if t_err s = None then 1 else 0)"

section \<open>Lemmas\<close>

lemma topo_index_less: "topo_index items d = Some j \<Longrightarrow> j < length items"
  unfolding topo_index_def by (auto dest!: map_of_SomeD set_zip_rightD)

definition settled :: "(u32 \<Rightarrow> nat option) \<Rightarrow> nat list \<Rightarrow> u32 list \<Rightarrow> bool" where
  "settled idx st ds \<longleftrightarrow> (\<forall>d \<in> set ds. \<forall>j. idx d = Some j \<longrightarrow> st ! j \<noteq> 0 \<and> st ! j \<noteq> 1)"

lemma settled_simps [simp]:
  "settled idx st []"
  "settled idx st (d # ds) \<longleftrightarrow>
     (\<forall>j. idx d = Some j \<longrightarrow> st ! j \<noteq> 0 \<and> st ! j \<noteq> 1) \<and> settled idx st ds"
  "settled idx st (ds @ es) \<longleftrightarrow> settled idx st ds \<and> settled idx st es"
  by (auto simp: settled_def)

lemma scan_deps_None:
  "scan_deps idx st ds k = None \<Longrightarrow> \<exists>d \<in> set ds. \<exists>j. idx d = Some j \<and> st ! j = 1"
  by (induction ds arbitrary: k) (auto split: option.splits if_splits)

lemma scan_deps_done:
  "scan_deps idx st ds k = Some (k', None) \<Longrightarrow> k' = k + length ds \<and> settled idx st ds"
proof (induction ds arbitrary: k)
  case (Cons d ds)
  then show ?case
    using Cons.IH [of "Suc k"] by (auto split: option.splits if_splits)
qed simp

lemma scan_deps_next:
  "scan_deps idx st ds k = Some (k', Some j) \<Longrightarrow>
     \<exists>pre d post. ds = pre @ d # post \<and> k' = Suc (k + length pre) \<and> idx d = Some j \<and> st ! j = 0 \<and>
       settled idx st pre"
proof (induction ds arbitrary: k)
  case (Cons d ds)
  show ?case
  proof (cases "\<exists>i. idx d = Some i \<and> st ! i = 0")
    case True
    then show ?thesis using Cons.prems by (intro exI [of _ "[]"]) auto
  next
    case False
    then have "scan_deps idx st ds (Suc k) = Some (k', Some j)"
      "\<forall>i. idx d = Some i \<longrightarrow> st ! i \<noteq> 0 \<and> st ! i \<noteq> 1"
      using Cons.prems by (auto split: option.splits if_splits)
    then obtain pre d' post where "ds = pre @ d' # post" "k' = Suc (Suc k + length pre)"
      "idx d' = Some j" "st ! j = 0" "settled idx st (d # pre)"
      using Cons.IH [of "Suc k"] by auto
    then show ?thesis by (intro exI [of _ "d # pre"]) auto
  qed
qed simp

text \<open>Marking a node done, or opening one that is on no stack, keeps the chain.\<close>

lemma chain_mono:
  assumes "chain items st a rest"
    and "\<And>i. i \<in> fst ` set rest \<Longrightarrow> st' ! i = st ! i" and "\<And>i. st ! i = 2 \<Longrightarrow> st' ! i = 2"
  shows "chain items st' a rest"
  using assms by (induction items st a rest rule: chain.induct) auto

lemma chain_update:
  assumes "chain items st a rest" "node \<notin> fst ` set rest"
    "\<And>i. i \<noteq> node \<Longrightarrow> st' ! i = st ! i" "st ! node = 2 \<Longrightarrow> st' ! node = 2"
  shows "chain items st' a rest"
  using assms(1) by (rule chain_mono) (metis assms(2-4))+

lemma chain_states: "chain items st a rest \<Longrightarrow> i \<in> fst ` set rest \<Longrightarrow> st ! i = 1"
  by (induction items st a rest rule: chain.induct) auto

lemma chain_reach:
  "chain items st a rest \<Longrightarrow> fst ` set rest \<subseteq> {..<length items} \<Longrightarrow> i \<in> fst ` set rest \<Longrightarrow>
     (i, a) \<in> (dep_rel items)\<^sup>+"
proof (induction items st a rest rule: chain.induct)
  case (2 items st up b kb rest)
  have "item_deps items b ! (kb - 1) \<in> set (item_deps items b)"
    using 2(2) by (auto intro!: nth_mem)
  then have e: "(b, up) \<in> dep_rel items" using 2(2,3) by (auto simp: dep_rel_def)
  show ?case
  proof (cases "i = b")
    case False
    then have "(i, b) \<in> (dep_rel items)\<^sup>+" using 2 by auto
    then show ?thesis using e by (rule trancl_into_trancl)
  qed (use e in auto)
qed simp

text \<open>The state after the top of the stack was opened, as every case of the step starts.\<close>

definition opened :: "topo \<Rightarrow> nat list" where
  "opened s = (case t_stack s of (node, 0) # _ \<Rightarrow> (t_state s)[node := 1] | _ \<Rightarrow> t_state s)"

lemma opened_facts:
  assumes inv: "dfs_inv items s" and stk: "t_stack s = (node, di) # rest"
  shows "length (opened s) = length items" "node < length items" "opened s ! node = 1"
    "\<And>i. i \<noteq> node \<Longrightarrow> opened s ! i = t_state s ! i"
    "\<And>i. opened s ! i = 2 \<longleftrightarrow> t_state s ! i = 2"
    "\<And>i. i < length items \<Longrightarrow> opened s ! i \<le> 2"
    "chain items (opened s) node rest" "node \<notin> fst ` set rest"
    "di \<le> length (item_deps items node)"
    "\<And>d j. d \<in> set (take di (item_deps items node)) \<Longrightarrow> topo_index items d = Some j \<Longrightarrow> opened s ! j = 2"
    "fst ` set rest \<subseteq> {..<length items}"
proof -
  have top: "t_state s ! node = (if di = 0 then 0 else 1)" "di \<le> length (item_deps items node)"
    "\<forall>d \<in> set (take di (item_deps items node)). \<forall>j. topo_index items d = Some j \<longrightarrow> t_state s ! j = 2"
    "chain items (t_state s) node rest"
    using inv stk by (auto simp: dfs_inv_def top_ok_def)
  have len: "length (t_state s) = length items" "node < length items" "node \<notin> fst ` set rest"
    "fst ` set rest \<subseteq> {..<length items}" "\<forall>i < length items. t_state s ! i \<le> 2"
    using inv stk by (auto simp: dfs_inv_def)
  have op: "opened s = (if di = 0 then (t_state s)[node := 1] else t_state s)"
    by (simp add: opened_def stk split: nat.split)
  show "length (opened s) = length items" "node < length items" "opened s ! node = 1"
    "\<And>i. i \<noteq> node \<Longrightarrow> opened s ! i = t_state s ! i" "node \<notin> fst ` set rest"
    "di \<le> length (item_deps items node)" "fst ` set rest \<subseteq> {..<length items}"
    using op len top by simp_all
  show two: "opened s ! i = 2 \<longleftrightarrow> t_state s ! i = 2" for i
    using op len top by (cases "i = node") auto
  show "opened s ! i \<le> 2" if "i < length items" for i
    using op len that by (cases "i = node") auto
  show "opened s ! j = 2" if "d \<in> set (take di (item_deps items node))" "topo_index items d = Some j" for d j
    using top(3) that two by blast
  show "chain items (opened s) node rest"
    using top(4) len(3) by (rule chain_update) (use op two in auto)
qed

lemma topo_step_eq:
  assumes "t_stack s = (node, di) # rest"
  shows "topo_step items s =
     (case scan_deps (topo_index items) (opened s) (drop di (item_deps items node)) di of
        None \<Rightarrow> s\<lparr>t_err := Some (cycle_error items node)\<rparr>
      | Some (k, Some j) \<Rightarrow> s\<lparr>t_state := opened s, t_stack := (j, 0) # (node, k) # rest\<rparr>
      | Some (k, None) \<Rightarrow>
          s\<lparr>t_state := (opened s)[node := 2], t_order := t_order s @ [node], t_stack := rest\<rparr>)"
proof -
  have "opened s = (if di = 0 then (t_state s)[node := 1] else t_state s)"
    using assms by (simp add: opened_def split: nat.split)
  then show ?thesis using assms by (simp only: topo_step_def Let_def list.case prod.case)
qed

lemma settled_two:
  assumes "settled (topo_index items) st ds" "\<And>i. i < length items \<Longrightarrow> st ! i \<le> 2"
    "d \<in> set ds" "topo_index items d = Some j"
  shows "st ! j = 2"
  using assms(1,3,4) assms(2) [OF topo_index_less [OF assms(4)]]
  by (auto simp: settled_def le_Suc_eq numeral_2_eq_2)

lemma step_push:
  assumes inv: "dfs_inv items s" and stk: "t_stack s = (node, di) # rest"
    and scan: "scan_deps (topo_index items) (opened s) (drop di (item_deps items node)) di = Some (k, Some j)"
  shows "dfs_inv items (s\<lparr>t_state := opened s, t_stack := (j, 0) # (node, k) # rest\<rparr>)"
    and "pending items (s\<lparr>t_state := opened s, t_stack := (j, 0) # (node, k) # rest\<rparr>) \<subset> pending items s"
proof -
  note f = opened_facts [OF inv stk]
  obtain pre d post where s: "drop di (item_deps items node) = pre @ d # post"
    "k = Suc (di + length pre)" "topo_index items d = Some j" "opened s ! j = 0"
    "settled (topo_index items) (opened s) pre"
    using scan_deps_next [OF scan] by blast
  have j: "j < length items" "j \<noteq> node" "j \<notin> fst ` set rest"
    using topo_index_less [OF s(3)] s(4) f(3) chain_states [OF f(7), of j] by auto
  have deps: "item_deps items node = take di (item_deps items node) @ pre @ d # post"
    using s(1) append_take_drop_id [of di "item_deps items node"] by simp
  have ldi: "length (take di (item_deps items node)) = di" using f(9) by simp
  have k: "k \<le> length (item_deps items node)" "item_deps items node ! (k - 1) = d"
    "take (k - 1) (item_deps items node) = take di (item_deps items node) @ pre"
    using s(2) ldi by (subst deps; simp add: nth_append)+
  have c: "chain items (opened s) j ((node, k) # rest)"
    using f(3,6,7,10) s(2,3,5) k settled_two [OF s(5) f(6)] by (auto simp: k(3))
  have t0: "t_state s ! j = 0" using f(4) [OF j(2)] s(4) by simp
  have one: "i \<in> insert node (fst ` set rest)" if "i < length items" "opened s ! i = 1" for i
    using inv that f(4) [of i] stk by (cases "i = node") (auto simp: dfs_inv_def)
  have two: "(opened s ! i = 2) = (i \<in> set (t_order s))" if "i < length items" for i
    using inv that f(5) by (simp add: dfs_inv_def)
  note push = f(1,2,6,8,11) one two j c s(4) stk
    and old = inv [unfolded dfs_inv_def]
  show "dfs_inv items (s\<lparr>t_state := opened s, t_stack := (j, 0) # (node, k) # rest\<rparr>)"
    unfolding dfs_inv_def using push old by (simp add: top_ok_def)
  have "j \<in> pending items s" using j t0 stk by (auto simp: pending_def)
  then show "pending items (s\<lparr>t_state := opened s, t_stack := (j, 0) # (node, k) # rest\<rparr>) \<subset> pending items s"
    using f(4) stk by (auto simp: pending_def)
qed

lemma step_pop:
  assumes inv: "dfs_inv items s" and stk: "t_stack s = (node, di) # rest"
    and scan: "scan_deps (topo_index items) (opened s) (drop di (item_deps items node)) di = Some (k, None)"
  shows "dfs_inv items (s\<lparr>t_state := (opened s)[node := 2], t_order := t_order s @ [node], t_stack := rest\<rparr>)"
    and "pending items (s\<lparr>t_state := (opened s)[node := 2], t_order := t_order s @ [node], t_stack := rest\<rparr>)
           \<subseteq> pending items s"
proof -
  note f = opened_facts [OF inv stk]
  let ?st = "(opened s)[node := 2]"
  have nn: "node \<notin> set (t_order s)"
    using inv f(2,3,5) unfolding dfs_inv_def by (metis numeral_eq_one_iff semiring_norm(85))
  have all2: "opened s ! j = 2" if "d \<in> set (item_deps items node)" "topo_index items d = Some j" for d j
  proof -
    have "d \<in> set (take di (item_deps items node)) \<or> d \<in> set (drop di (item_deps items node))"
      using that(1) by (metis append_take_drop_id Un_iff set_append)
    then show ?thesis
      using f(10) settled_two [OF conjunct2 [OF scan_deps_done [OF scan]] f(6)] that(2) by blast
  qed
  have df: "deps_first items (t_order s @ [node])"
  proof -
    have "j \<in> set (t_order s)" if "(node, j) \<in> dep_rel items" for j
    proof -
      obtain d where "d \<in> set (item_deps items node)" "topo_index items d = Some j"
        using \<open>(node, j) \<in> dep_rel items\<close> by (auto simp: dep_rel_def)
      then have "t_state s ! j = 2" "j < length items" using all2 f(5) topo_index_less by blast+
      then show ?thesis using inv unfolding dfs_inv_def by blast
    qed
    moreover have "deps_first items (t_order s)" using inv by (simp add: dfs_inv_def)
    ultimately show ?thesis
      by (auto simp: deps_first_def nth_append less_Suc_eq)
  qed
  have c: "chain items ?st node rest"
    using f(7,8) by (rule chain_update) (use f(1,2) in auto)
  have "top_ok items ?st rest"
  proof (cases rest)
    case (Cons p r)
    obtain b kb where p: "p = (b, kb)" by (cases p)
    have ch: "0 < kb" "kb \<le> length (item_deps items b)"
      "topo_index items (item_deps items b ! (kb - 1)) = Some node" "?st ! b = 1"
      "\<forall>d \<in> set (take (kb - 1) (item_deps items b)). \<forall>j. topo_index items d = Some j \<longrightarrow> ?st ! j = 2"
      "chain items ?st b r"
      using c unfolding Cons p by simp_all
    have "take kb (item_deps items b) = take (kb - 1) (item_deps items b) @ [item_deps items b ! (kb - 1)]"
      using ch(1,2) take_Suc_conv_app_nth [of "kb - 1" "item_deps items b"] by simp
    moreover have "?st ! node = 2" using f(1,2) by simp
    ultimately show ?thesis using ch unfolding Cons p top_ok_def by auto
  qed (simp add: top_ok_def)
  then show "dfs_inv items (s\<lparr>t_state := ?st, t_order := t_order s @ [node], t_stack := rest\<rparr>)"
    using inv f(1,2,4,5,6,8,11) nn df stk unfolding dfs_inv_def
    by (auto simp: nth_list_update)
  show "pending items (s\<lparr>t_state := ?st, t_order := t_order s @ [node], t_stack := rest\<rparr>) \<subseteq> pending items s"
  proof
    fix x
    assume x: "x \<in> pending items (s\<lparr>t_state := ?st, t_order := t_order s @ [node], t_stack := rest\<rparr>)"
    then have "x \<noteq> node" using f(1,2) by (auto simp: pending_def)
    then show "x \<in> pending items s" using x f(4) stk by (auto simp: pending_def)
  qed
qed

lemma step_cycle:
  assumes inv: "dfs_inv items s" and stk: "t_stack s = (node, di) # rest"
    and scan: "scan_deps (topo_index items) (opened s) (drop di (item_deps items node)) di = None"
  shows "(node, node) \<in> (dep_rel items)\<^sup>+"
proof -
  note f = opened_facts [OF inv stk]
  obtain d j where d: "d \<in> set (item_deps items node)" "topo_index items d = Some j" "opened s ! j = 1"
    using scan_deps_None [OF scan] by (auto dest: in_set_dropD)
  then have e: "(node, j) \<in> dep_rel items" using f(2) by (auto simp: dep_rel_def)
  have "j = node \<or> j \<in> fst ` set rest"
    using inv d(3) f(4) topo_index_less [OF d(2)] stk by (cases "j = node") (auto simp: dfs_inv_def)
  then have "j = node \<or> (j, node) \<in> (dep_rel items)\<^sup>+"
    using chain_reach [OF f(7) f(11)] by blast
  then show ?thesis using e by (meson r_into_trancl trancl_into_trancl2)
qed

text \<open>What the loop keeps: the search state, the nodes seen, and what an error means.\<close>

definition loop_inv :: "'d item list \<Rightarrow> nat set \<Rightarrow> topo \<Rightarrow> bool" where
  "loop_inv items seen s \<longleftrightarrow>
     dfs_inv items s \<and> seen \<subseteq> fst ` set (t_stack s) \<union> set (t_order s) \<and>
     (case t_err s of
        None \<Rightarrow> True
      | Some e \<Rightarrow> \<exists>node < length items. e = cycle_error items node \<and>
                    (node, node) \<in> (dep_rel items)\<^sup>+)"

lemma loop_step:
  assumes inv: "loop_inv items seen s" and go: "t_err s = None" "t_stack s \<noteq> []"
  shows "loop_inv items seen (topo_step items s) \<and>
    dfs_measure items (topo_step items s) < dfs_measure items s"
proof -
  obtain node di rest where stk: "t_stack s = (node, di) # rest" using go(2) by (cases "t_stack s") auto
  have d: "dfs_inv items s" and seen: "seen \<subseteq> insert node (fst ` set rest) \<union> set (t_order s)"
    using inv stk by (auto simp: loop_inv_def)
  have fin: "finite (pending items s)" by (simp add: pending_def)
  note f = opened_facts [OF d stk]
  show ?thesis
  proof (cases "scan_deps (topo_index items) (opened s) (drop di (item_deps items node)) di")
    case None
    have "topo_step items s = s\<lparr>t_err := Some (cycle_error items node)\<rparr>"
      by (simp add: topo_step_eq [OF stk] None)
    then show ?thesis
      using d step_cycle [OF d stk None] f(2) go(1) seen stk
      by (auto simp: loop_inv_def dfs_inv_def dfs_measure_def pending_def)
  next
    case (Some p)
    obtain k nx where p: "p = (k, nx)" by (cases p)
    show ?thesis
    proof (cases nx)
      case None
      then have scan: "scan_deps (topo_index items) (opened s) (drop di (item_deps items node)) di = Some (k, None)"
        using Some p by simp
      from card_mono [OF fin step_pop(2) [OF d stk scan]]
      show ?thesis
        using step_pop(1) [OF d stk scan] seen go stk
        by (auto simp: topo_step_eq [OF stk] scan loop_inv_def dfs_measure_def)
    next
      case (Some j)
      then have scan: "scan_deps (topo_index items) (opened s) (drop di (item_deps items node)) di = Some (k, Some j)"
        using \<open>scan_deps _ _ _ _ = Some p\<close> p by simp
      from psubset_card_mono [OF fin step_push(2) [OF d stk scan]]
      show ?thesis
        using step_push(1) [OF d stk scan] seen go stk
        by (auto simp: topo_step_eq [OF stk] scan loop_inv_def dfs_measure_def)
    qed
  qed
qed

lemma topo_dfs_returns:
  assumes "loop_inv items seen s"
  shows "\<exists>t. topo_dfs items s = Some t \<and> loop_inv items seen t \<and>
    (t_err t \<noteq> None \<or> t_stack t = [])"
proof -
  obtain t where t: "topo_dfs items s = Some t"
    using measure_while_option_Some
      [where P = "loop_inv items seen" and f = "dfs_measure items"
        and b = "\<lambda>s. t_err s = None \<and> t_stack s \<noteq> []" and c = "topo_step items"]
      loop_step assms unfolding topo_dfs_def by blast
  moreover have "loop_inv items seen t"
    using while_option_rule [where P = "loop_inv items seen", OF _ t [unfolded topo_dfs_def]]
      loop_step assms by blast
  ultimately show ?thesis
    using while_option_stop [OF t [unfolded topo_dfs_def]] by blast
qed

text \<open>Between two starts nothing is open.\<close>

definition rest_inv :: "'d item list \<Rightarrow> nat list \<Rightarrow> nat list \<Rightarrow> bool" where
  "rest_inv items st order \<longleftrightarrow>
     dfs_inv items \<lparr>t_state = st, t_order = order, t_stack = [], t_err = None\<rparr>"

lemma topo_starts_spec:
  "rest_inv items st order \<Longrightarrow> set is \<subseteq> {..<length items} \<Longrightarrow>
   (case topo_starts items is st order of
      None \<Rightarrow> False
    | Some (Inl e) \<Rightarrow> \<exists>node < length items. e = cycle_error items node \<and>
                        (node, node) \<in> (dep_rel items)\<^sup>+
    | Some (Inr order') \<Rightarrow> distinct order' \<and> set order' \<subseteq> {..<length items} \<and>
        set is \<union> set order \<subseteq> set order' \<and> deps_first items order')"
proof (induction "is" arbitrary: st order)
  case Nil
  then show ?case by (simp add: rest_inv_def dfs_inv_def)
next
  case (Cons i "is")
  show ?case
  proof (cases "st ! i = 0")
    case False
    then have "st ! i = 2"
      using Cons.prems by (auto simp: rest_inv_def dfs_inv_def le_Suc_eq numeral_2_eq_2)
    then have "i \<in> set order" using Cons.prems by (auto simp: rest_inv_def dfs_inv_def)
    then show ?thesis
      using Cons.IH [OF Cons.prems(1)] Cons.prems(2) False
      by (auto split: option.splits sum.splits)
  next
    case True
    let ?s = "\<lparr>t_state = st, t_order = order, t_stack = [(i, 0)], t_err = None\<rparr>"
    have "loop_inv items (insert i (set order)) ?s"
      using Cons.prems True
      by (auto simp: loop_inv_def rest_inv_def dfs_inv_def top_ok_def)
    then obtain t where t: "topo_dfs items ?s = Some t"
      "loop_inv items (insert i (set order)) t" "t_err t \<noteq> None \<or> t_stack t = []"
      using topo_dfs_returns by blast
    show ?thesis
    proof (cases "t_err t")
      case (Some e)
      then show ?thesis using t True by (simp add: loop_inv_def)
    next
      case None
      then have stk: "t_stack t = []" using t(3) by simp
      then have "rest_inv items (t_state t) (t_order t)" "insert i (set order) \<subseteq> set (t_order t)"
        using t(2) by (auto simp: rest_inv_def loop_inv_def dfs_inv_def)
      then show ?thesis
        using Cons.IH [of "t_state t" "t_order t"] Cons.prems(2) True t(1) None
        by (auto split: option.splits sum.splits)
    qed
  qed
qed

lemma take_defs_distinct:
  "distinct is \<Longrightarrow> set is \<subseteq> {..<length ds} \<Longrightarrow> (\<And>i. i \<in> set is \<Longrightarrow> ds ! i \<noteq> None) \<Longrightarrow>
     take_defs is ds = Some (map (\<lambda>i. the (ds ! i)) is)"
proof (induction "is" arbitrary: ds)
  case (Cons i "is")
  obtain d where d: "ds ! i = Some d" using Cons.prems(3) [of i] by auto
  have "take_defs is (ds[i := None]) = Some (map (\<lambda>j. the (ds[i := None] ! j)) is)"
    using Cons.prems by (intro Cons.IH) (auto simp: nth_list_update)
  moreover have "map (\<lambda>j. the (ds[i := None] ! j)) is = map (\<lambda>j. the (ds ! j)) is"
    using Cons.prems(1) by (intro map_cong refl) (metis distinct.simps(2) nth_list_update_neq)
  ultimately show ?case using d by simp
qed simp

lemma topo_order_spec:
  "case topo_order items of
     None \<Rightarrow> False
   | Some (Inl e) \<Rightarrow> \<exists>node < length items. e = cycle_error items node \<and>
                       (node, node) \<in> (dep_rel items)\<^sup>+
   | Some (Inr defs) \<Rightarrow> \<exists>order. distinct order \<and> set order = {..<length items} \<and>
        defs = map (\<lambda>i. snd (snd (items ! i))) order \<and> deps_first items order"
proof -
  have "rest_inv items (replicate (length items) 0) []"
    by (simp add: rest_inv_def dfs_inv_def top_ok_def deps_first_def)
  from topo_starts_spec [OF this, of "[0..<length items]"]
  consider e node where "topo_starts items [0..<length items] (replicate (length items) 0) [] = Some (Inl e)"
      "node < length items" "e = cycle_error items node" "(node, node) \<in> (dep_rel items)\<^sup>+"
    | order where "topo_starts items [0..<length items] (replicate (length items) 0) [] = Some (Inr order)"
      "distinct order" "set order = {..<length items}" "deps_first items order"
    by (auto simp: atLeast0LessThan split: option.splits sum.splits)
  then show ?thesis
  proof cases
    case 1
    then show ?thesis by (auto simp: topo_order_def)
  next
    case 2
    then have "take_defs order (map (\<lambda>it. Some (snd (snd it))) items) =
        Some (map (\<lambda>i. snd (snd (items ! i))) order)"
      by (subst take_defs_distinct) auto
    then show ?thesis using 2 by (auto simp: topo_order_def)
  qed
qed

lemma deps_first_acyclic:
  assumes "distinct order" "set order = {..<length items}" "deps_first items order"
  shows "acyclic (dep_rel items)"
proof -
  define pos where "pos i = (THE p. p < length order \<and> order ! p = i)" for i
  have pos: "pos (order ! p) = p" if "p < length order" for p
    unfolding pos_def using that assms(1) by (auto simp: nth_eq_iff_index_eq)
  have "(dep_rel items)\<inverse> \<subseteq> measure pos"
  proof clarify
    fix i j
    assume e: "(i, j) \<in> dep_rel items"
    then have "i \<in> set order" using assms(2) by (auto simp: dep_rel_def)
    then obtain p where p: "p < length order" "order ! p = i" by (auto simp: in_set_conv_nth)
    then have "j \<in> set (take p order)" using e assms(3) by (auto simp: deps_first_def)
    then obtain q where "q < p" "order ! q = j" using p(1) by (auto simp: in_set_conv_nth)
    then show "(j, i) \<in> measure pos" using p pos [of p] pos [of q] by simp
  qed
  then have "acyclic ((dep_rel items)\<inverse>)" by (meson acyclic_subset wf_acyclic wf_measure)
  then show ?thesis by simp
qed

section \<open>Properties\<close>

text \<open>
  C22. Ordering the types always returns, without a panic: either an order that holds every item
  exactly once with all types an item uses before it, or an error naming a type that lies on a cycle
  of uses.
\<close>

theorem topo_order_sorts:
  "case topo_order items of
     None \<Rightarrow> False
   | Some (Inl e) \<Rightarrow> \<exists>node < length items. e = cycle_error items node \<and>
                       (node, node) \<in> (dep_rel items)\<^sup>+
   | Some (Inr defs) \<Rightarrow> \<exists>order. distinct order \<and> set order = {..<length items} \<and>
        defs = map (\<lambda>i. snd (snd (items ! i))) order \<and> deps_first items order"
  by (rule topo_order_spec)

text \<open>
  C23. An order is found exactly when the uses have no cycle.
\<close>

theorem topo_order_iff_acyclic:
  "(\<exists>defs. topo_order items = Some (Inr defs)) \<longleftrightarrow> acyclic (dep_rel items)"
proof
  assume "\<exists>defs. topo_order items = Some (Inr defs)"
  then show "acyclic (dep_rel items)"
    using topo_order_spec [of items] deps_first_acyclic by auto
next
  assume "acyclic (dep_rel items)"
  then show "\<exists>defs. topo_order items = Some (Inr defs)"
    using topo_order_spec [of items]
    by (auto simp: acyclic_def split: option.splits sum.splits)
qed

end
