(* ===== verification/Introspect.thy ===== *)
theory Introspect
  imports Meta Wire Schema Topo "HOL-Library.Multiset"
begin

text \<open>
  \<^verbatim>\<open>replica/backfill.rs\<close>, reading the published schema from the upstream catalog: \<open>introspect\<close>,
  \<open>check_extension_types\<close> and \<open>introspect_types\<close>. The connection is the argument \<open>query\<close>, its
  \<open>simple_query\<close>. In the long query texts a backquote stands for a single quote (\<open>sqlq\<close>).
\<close>

section \<open>Cells of a reply\<close>

definition sqlq :: "string \<Rightarrow> string" where
  "sqlq s = map (\<lambda>c. if c = CHR 0x60 then sq else c) s"

definition cell_at :: "nat \<Rightarrow> sql_row \<Rightarrow> string option" where
  "cell_at i row = (if i < length row then row ! i else None)"

definition cell_str :: "nat \<Rightarrow> sql_row \<Rightarrow> string" where
  "cell_str i row = (case cell_at i row of None \<Rightarrow> [] | Some s \<Rightarrow> s)"

definition need_cell :: "nat \<Rightarrow> sql_row \<Rightarrow> string res" where
  "need_cell i row = ok_or (Protocol ''null in introspection result'') (cell_at i row)"

section \<open>Checks\<close>

definition published_columns_filter :: "u32 \<Rightarrow> string" where
  "published_columns_filter version =
     (if version \<ge> 150000 then sqlq ''AND a.attgenerated = `` AND a.attname = ANY(pt.attnames)''
      else sqlq ''AND a.attgenerated = ``'')"

fun first_unpublished :: "(bool \<times> string) list \<Rightarrow> string option" where
  "first_unpublished [] = None"
| "first_unpublished ((published, op) # rest) =
     (if \<not> published then Some op else first_unpublished rest)"

definition validate_publish_ops :: "string \<Rightarrow> bool list \<Rightarrow> unit res" where
  "validate_publish_ops publication fs =
     (case first_unpublished (zip fs [''insert'', ''update'', ''delete'', ''truncate'']) of
        Some op \<Rightarrow> Inl (ReplicaConfigError (''publication '' @ publication @ '' does not publish '' @ op @
                     ''; the replica cache would silently diverge''))
      | None \<Rightarrow> Inr ())"

definition check_replica_identity :: "string \<Rightarrow> string \<Rightarrow> string \<Rightarrow> unit res" where
  "check_replica_identity schema table relreplident =
     (if relreplident = ''n''
      then Inl (ReplicaConfigError (''published table '' @ schema @ ''.'' @ table @
             '' has REPLICA IDENTITY NOTHING; its updates and deletes cannot be replicated''))
      else Inr ())"

section \<open>Tables\<close>

definition pub_ops_sql :: "string \<Rightarrow> string" where
  "pub_ops_sql pub_lit = concat
     [''SELECT pubinsert::int, pubupdate::int, pubdelete::int, pubtruncate::int FROM '',
      ''pg_publication WHERE pubname = '',
      pub_lit]"

definition columns_sql :: "string \<Rightarrow> u32 \<Rightarrow> string" where
  "columns_sql pub_lit version = concat
     [''SELECT pt.schemaname::text, pt.tablename::text, a.attname::text, '',
      ''format_type(a.atttypid, a.atttypmod), a.attnotnull::int, a.atttypid::text, '',
      ''c.relreplident::text, '',
      (if version \<ge> 150000 then ''pt.rowfilter'' else ''NULL::text''),
      '' FROM pg_publication_tables pt JOIN pg_namespace n ON n.nspname = pt.schemaname '',
      ''JOIN pg_class c ON c.relnamespace = n.oid AND c.relname = pt.tablename JOIN '',
      ''pg_attribute a ON a.attrelid = c.oid WHERE pt.pubname = '',
      pub_lit,
      '' AND a.attnum > 0 AND NOT a.attisdropped '',
      published_columns_filter version,
      '' ORDER BY pt.schemaname, pt.tablename, a.attnum'']"

definition pks_sql :: "string \<Rightarrow> string" where
  "pks_sql pub_lit = concat
     [''SELECT pt.schemaname::text, pt.tablename::text, a.attname::text FROM '',
      ''pg_publication_tables pt JOIN pg_namespace n ON n.nspname = pt.schemaname JOIN '',
      ''pg_class c ON c.relnamespace = n.oid AND c.relname = pt.tablename JOIN pg_index i '',
      ''ON i.indrelid = c.oid AND i.indisprimary JOIN pg_attribute a ON a.attrelid = c.oid '',
      ''AND a.attnum = ANY(i.indkey) WHERE pt.pubname = '',
      pub_lit,
      '' ORDER BY pt.schemaname, pt.tablename, a.attnum'']"

definition indexes_sql :: "string \<Rightarrow> u32 \<Rightarrow> string" where
  "indexes_sql pub_lit version = concat
     [''SELECT pt.schemaname::text, pt.tablename::text, pg_get_indexdef(i.indexrelid) FROM '',
      ''pg_publication_tables pt JOIN pg_namespace n ON n.nspname = pt.schemaname JOIN '',
      ''pg_class c ON c.relnamespace = n.oid AND c.relname = pt.tablename JOIN pg_index i '',
      ''ON i.indrelid = c.oid WHERE pt.pubname = '',
      pub_lit,
      '' AND NOT i.indisprimary AND i.indisvalid AND i.indisready AND i.indexprs IS NULL '',
      ''AND i.indpred IS NULL AND NOT EXISTS ( SELECT 1 FROM '',
      sqlq ''unnest(string_to_array(i.indkey::text, ` `)::int[]) AS col(attnum) JOIN '',
      ''pg_attribute a2 ON a2.attrelid = c.oid AND a2.attnum = col.attnum WHERE col.attnum '',
      ''> 0 AND '',
      (if version \<ge> 150000 then ''a2.attname <> ALL(pt.attnames)'' else ''false''),
      '' ) ORDER BY pt.schemaname, pt.tablename'']"

text \<open>One row of the column query: a new table where the names change, then a column of the last table.\<close>

definition open_table :: "table_def list \<Rightarrow> sql_row \<Rightarrow> string \<Rightarrow> string \<Rightarrow> table_def list res" where
  "open_table tables row schema table =
     (if tables = [] \<or> td_schema (last tables) \<noteq> schema \<or> td_name (last tables) \<noteq> table
      then bindR (need_cell 6 row) (\<lambda>ri.
           bindR (check_replica_identity schema table ri) (\<lambda>_.
             Inr (tables @ [\<lparr>td_schema = schema, td_name = table, td_columns = [], td_pk = [],
                             td_replica_identity = ri, td_row_filter = cell_at 7 row,
                             td_indexes = []\<rparr>])))
      else Inr tables)"

definition row_column :: "sql_row \<Rightarrow> col_def res" where
  "row_column row =
     bindR (need_cell 5 row) (\<lambda>oid_text.
     bindR (ok_or (Protocol ''bad type oid in introspection result'') (parse_u32 oid_text)) (\<lambda>oid.
     bindR (need_cell 2 row) (\<lambda>name. bindR (need_cell 3 row) (\<lambda>ty. bindR (need_cell 4 row) (\<lambda>nn.
       Inr \<lparr>cd_name = name, cd_type_sql = ty, cd_type_oid = oid, cd_not_null = (nn = ''1'')\<rparr>)))))"

definition push_column :: "table_def list \<Rightarrow> col_def \<Rightarrow> table_def list" where
  "push_column tables c =
     butlast tables @ [(last tables)\<lparr>td_columns := td_columns (last tables) @ [c]\<rparr>]"

definition add_column_row :: "table_def list \<Rightarrow> sql_row \<Rightarrow> table_def list res" where
  "add_column_row tables row =
     bindR (need_cell 0 row) (\<lambda>schema. bindR (need_cell 1 row) (\<lambda>table.
     bindR (open_table tables row schema table) (\<lambda>tables.
     bindR (row_column row) (\<lambda>c. Inr (push_column tables c)))))"

fun column_tables :: "sql_row list \<Rightarrow> table_def list \<Rightarrow> table_def list res" where
  "column_tables [] tables = Inr tables"
| "column_tables (row # rows) tables =
     bindR (add_column_row tables row) (\<lambda>tables. column_tables rows tables)"

text \<open>\<open>iter_mut().find(..)\<close>: the first table of that name is changed.\<close>

fun update_table :: "string \<Rightarrow> string \<Rightarrow> (table_def \<Rightarrow> table_def) \<Rightarrow> table_def list \<Rightarrow> table_def list" where
  "update_table s n f [] = []"
| "update_table s n f (t # ts) =
     (if td_schema t = s \<and> td_name t = n then f t # ts else t # update_table s n f ts)"

definition add_pk_row :: "sql_row \<Rightarrow> table_def list \<Rightarrow> table_def list" where
  "add_pk_row row =
     update_table (cell_str 0 row) (cell_str 1 row) (\<lambda>t. t\<lparr>td_pk := td_pk t @ [cell_str 2 row]\<rparr>)"

definition add_index_row :: "sql_row \<Rightarrow> table_def list \<Rightarrow> table_def list" where
  "add_index_row row =
     update_table (cell_str 0 row) (cell_str 1 row) (\<lambda>t. t\<lparr>td_indexes := td_indexes t @ [cell_str 2 row]\<rparr>)"

fun check_keys :: "table_def list \<Rightarrow> unit res" where
  "check_keys [] = Inr ()"
| "check_keys (t # ts) =
     (if td_pk t = [] \<and> td_replica_identity t \<noteq> ''f''
      then Inl (ReplicaConfigError (''published table '' @ td_schema t @ ''.'' @ td_name t @
             '' has no primary key and is not REPLICA IDENTITY FULL; run ALTER TABLE '' @
             td_schema t @ ''.'' @ td_name t @
             '' REPLICA IDENTITY FULL so its updates and deletes can be replicated''))
      else check_keys ts)"

definition introspect ::
  "(string \<Rightarrow> ('w, sql_row list) act) \<Rightarrow> string \<Rightarrow> ('w, table_def list) act" where
  "introspect query publication =
     (let pub_lit = lit publication in
      bindA (query (pub_ops_sql pub_lit)) (\<lambda>ops.
      bindA (liftA (case ops of
                      [] \<Rightarrow> Inl (ReplicaConfigError (''publication '' @ publication @ '' does not exist''))
                    | row # _ \<Rightarrow> Inr row)) (\<lambda>row.
      bindA (liftA (validate_publish_ops publication
                      (map (\<lambda>i. cell_at i row = Some ''1'') [0, 1, 2, 3]))) (\<lambda>_.
      bindA (server_version_num query) (\<lambda>version.
      bindA (query (columns_sql pub_lit version)) (\<lambda>cols.
      bindA (if cols = []
             then failA (ReplicaConfigError (''publication '' @ publication @
                    '' does not exist or contains no tables''))
             else retA ()) (\<lambda>_.
      bindA (liftA (column_tables cols [])) (\<lambda>tables.
      bindA (query (pks_sql pub_lit)) (\<lambda>pks.
      let tables = fold add_pk_row pks tables in
      bindA (query (indexes_sql pub_lit version)) (\<lambda>idxs.
      let tables = fold add_index_row idxs tables in
      bindA (liftA (check_keys tables)) (\<lambda>_. retA tables)))))))))))"

section \<open>Types of extensions\<close>

definition oid_array :: "u32 list \<Rightarrow> string" where
  "oid_array oids = ''ARRAY['' @ join_str '', '' (map show_u32 oids) @ '']::oid[]''"

definition ext_types_sql :: "u32 list \<Rightarrow> string" where
  "ext_types_sql oids = concat
     [''SELECT a.col_oid::text, n.nspname::text, t.typname::text, e.extname::text FROM '',
      ''(SELECT unnest('',
      oid_array oids,
      '') AS col_oid) a JOIN pg_type base ON base.oid = a.col_oid JOIN pg_type t ON t.oid = '',
      sqlq ''CASE WHEN base.typtype = `b` AND base.typelem <> 0 THEN base.typelem ELSE base.oid '',
      sqlq ''END JOIN pg_depend d ON d.objid = t.oid AND d.classid = `pg_type`::regclass AND '',
      sqlq ''d.deptype = `e` JOIN pg_extension e ON e.oid = d.refobjid JOIN pg_namespace n ON '',
      ''n.oid = t.typnamespace'']"

text \<open>The type oids of all columns, each once, in order of first use.\<close>

definition push_new :: "u32 \<Rightarrow> u32 list \<Rightarrow> u32 list" where
  "push_new oid oids = (if oid \<in> set oids then oids else oids @ [oid])"

definition column_oids :: "table_def list \<Rightarrow> u32 list" where
  "column_oids tables = fold push_new (map cd_type_oid (concat (map td_columns tables))) []"

definition column_location :: "table_def list \<Rightarrow> u32 \<Rightarrow> string" where
  "column_location tables oid =
     (case List.find (\<lambda>(t, c). cd_type_oid c = oid)
             (concat (map (\<lambda>t. map (Pair t) (td_columns t)) tables)) of
        None \<Rightarrow> ''a published column''
      | Some (t, c) \<Rightarrow> td_schema t @ ''.'' @ td_name t @ ''.'' @ cd_name c)"

definition parse_oid :: "string option \<Rightarrow> u32" where
  "parse_oid v = (case v of None \<Rightarrow> 0 | Some s \<Rightarrow> (case parse_u32 s of None \<Rightarrow> 0 | Some n \<Rightarrow> n))"

definition check_extension_types ::
  "(string \<Rightarrow> ('w, sql_row list) act) \<Rightarrow> table_def list \<Rightarrow> ('w, unit) act" where
  "check_extension_types query tables =
     (let oids = column_oids tables in
      if oids = [] then retA ()
      else bindA (query (ext_types_sql oids)) (\<lambda>rows.
        case rows of
          [] \<Rightarrow> retA ()
        | row # _ \<Rightarrow>
            failA (ReplicaConfigError (''column '' @
              column_location tables (case parse_u32 (cell_str 0 row) of None \<Rightarrow> 0 | Some n \<Rightarrow> n) @
              '' uses type '' @ cell_str 1 row @ ''.'' @ cell_str 2 row @ '' from extension '' @
              [sq] @ cell_str 3 row @ [sq] @
              '', which pglite does not provide; exclude the table from the publication or remove the column''))))"

section \<open>User-defined types\<close>

definition used_types_sql :: "string \<Rightarrow> string" where
  "used_types_sql pub_lit = concat
     [''WITH RECURSIVE used(oid) AS ( SELECT a.atttypid FROM pg_publication_tables pt JOIN '',
      ''pg_namespace tn ON tn.nspname = pt.schemaname JOIN pg_class c ON c.relnamespace = '',
      ''tn.oid AND c.relname = pt.tablename JOIN pg_attribute a ON a.attrelid = c.oid AND '',
      ''a.attnum > 0 AND NOT a.attisdropped WHERE pt.pubname = '',
      pub_lit,
      '' UNION SELECT dep.oid FROM used u JOIN pg_type t ON t.oid = u.oid CROSS JOIN '',
      ''LATERAL ( SELECT t.typelem AS oid WHERE t.typelem <> 0 UNION ALL SELECT '',
      sqlq ''t.typbasetype WHERE t.typtype = `d` UNION ALL SELECT rng.rngsubtype FROM pg_range '',
      ''rng WHERE rng.rngtypid = t.oid UNION ALL SELECT ca.atttypid FROM pg_attribute ca '',
      sqlq ''WHERE t.typtype = `c` AND ca.attrelid = t.typrelid AND ca.attnum > 0 AND NOT '',
      ''ca.attisdropped ) dep WHERE dep.oid <> 0 ) SELECT u.oid::text, t.typtype::text, '',
      ''n.nspname::text, t.typname::text, t.typbasetype::text, t.typnotnull::int, '',
      ''format_type(t.typbasetype, t.typtypmod), (SELECT rng.rngsubtype::text FROM pg_range '',
      ''rng WHERE rng.rngtypid = t.oid), format_type((SELECT rng.rngsubtype FROM pg_range '',
      ''rng WHERE rng.rngtypid = t.oid), -1) FROM used u JOIN pg_type t ON t.oid = u.oid '',
      sqlq ''JOIN pg_namespace n ON n.oid = t.typnamespace WHERE t.typtype IN (`e`, `c`, `d`, '',
      sqlq ''`r`)'']"

definition attrs_sql :: "u32 list \<Rightarrow> string" where
  "attrs_sql oids = concat
     [''SELECT t.oid::text, a.attname::text, format_type(a.atttypid, a.atttypmod), '',
      ''a.atttypid::text FROM pg_type t JOIN pg_attribute a ON a.attrelid = t.typrelid '',
      ''WHERE t.oid = ANY('',
      oid_array oids,
      '') AND a.attnum > 0 AND NOT a.attisdropped ORDER BY t.oid, a.attnum'']"

definition labels_sql :: "u32 list \<Rightarrow> string" where
  "labels_sql oids = concat
     [''SELECT t.oid::text, e.enumlabel::text FROM pg_enum e JOIN pg_type t ON t.oid = '',
      ''e.enumtypid WHERE t.oid = ANY('',
      oid_array oids,
      '') ORDER BY t.oid, e.enumsortorder'']"

definition checks_sql :: "u32 list \<Rightarrow> string" where
  "checks_sql oids = concat
     [''SELECT con.contypid::text, pg_get_constraintdef(con.oid) FROM pg_constraint con '',
      ''WHERE con.contypid = ANY('',
      oid_array oids,
      sqlq '') AND con.contype = `c` ORDER BY con.contypid, con.conname'']"

record raw_type =
  rt_oid :: u32
  rt_typtype :: string
  rt_schema :: string
  rt_name :: string
  rt_basetype :: u32
  rt_not_null :: bool
  rt_base_fmt :: string
  rt_rngsub :: u32
  rt_rngsub_fmt :: string

definition raw_of :: "sql_row \<Rightarrow> raw_type" where
  "raw_of row =
     \<lparr>rt_oid = parse_oid (cell_at 0 row), rt_typtype = cell_str 1 row, rt_schema = cell_str 2 row,
      rt_name = cell_str 3 row, rt_basetype = parse_oid (cell_at 4 row),
      rt_not_null = (cell_at 5 row = Some ''1''), rt_base_fmt = cell_str 6 row,
      rt_rngsub = parse_oid (cell_at 7 row), rt_rngsub_fmt = cell_str 8 row\<rparr>"

definition oids_of :: "string \<Rightarrow> raw_type list \<Rightarrow> u32 list" where
  "oids_of kind raws = map rt_oid (filter (\<lambda>r. rt_typtype r = kind) raws)"

text \<open>\<open>map.entry(oid).or_default().push(x)\<close> for each row, and \<open>remove(&oid).unwrap_or_default()\<close>.\<close>

definition push_entry :: "(sql_row \<Rightarrow> 'a) \<Rightarrow> sql_row \<Rightarrow> (u32 \<rightharpoonup> 'a list) \<Rightarrow> (u32 \<rightharpoonup> 'a list)" where
  "push_entry f row m =
     (let oid = parse_oid (cell_at 0 row)
      in m(oid \<mapsto> (case m oid of None \<Rightarrow> [] | Some xs \<Rightarrow> xs) @ [f row]))"

definition entry :: "(u32 \<rightharpoonup> 'a list) \<Rightarrow> u32 \<Rightarrow> 'a list" where
  "entry m oid = (case m oid of None \<Rightarrow> [] | Some xs \<Rightarrow> xs)"

record type_maps =
  tm_attrs :: "u32 \<rightharpoonup> (string \<times> string) list"
  tm_deps :: "u32 \<rightharpoonup> u32 list"
  tm_labels :: "u32 \<rightharpoonup> string list"
  tm_checks :: "u32 \<rightharpoonup> string list"

text \<open>One item, with the entries of its oid taken out of the maps; other kinds are skipped.\<close>

definition type_item ::
  "u32 set \<Rightarrow> raw_type \<Rightarrow> type_maps \<Rightarrow> type_def item option \<times> type_maps" where
  "type_item oidset r m =
     (let in_set = (\<lambda>oid. oid \<noteq> 0 \<and> oid \<in> oidset); oid = rt_oid r
      in if rt_typtype r = ''e'' then
           (Some (oid, [], EnumDef (rt_schema r) (rt_name r) (entry (tm_labels m) oid)),
            m\<lparr>tm_labels := (tm_labels m)(oid := None)\<rparr>)
         else if rt_typtype r = ''c'' then
           (Some (oid, filter in_set (entry (tm_deps m) oid),
                  CompositeDef (rt_schema r) (rt_name r) (entry (tm_attrs m) oid)),
            m\<lparr>tm_deps := (tm_deps m)(oid := None), tm_attrs := (tm_attrs m)(oid := None)\<rparr>)
         else if rt_typtype r = ''d'' then
           (Some (oid, if in_set (rt_basetype r) then [rt_basetype r] else [],
                  DomainDef (rt_schema r) (rt_name r) (rt_base_fmt r) (rt_not_null r)
                    (entry (tm_checks m) oid)),
            m\<lparr>tm_checks := (tm_checks m)(oid := None)\<rparr>)
         else if rt_typtype r = ''r'' then
           (Some (oid, if in_set (rt_rngsub r) then [rt_rngsub r] else [],
                  RangeDef (rt_schema r) (rt_name r) (rt_rngsub_fmt r)), m)
         else (None, m))"

fun type_items :: "u32 set \<Rightarrow> raw_type list \<Rightarrow> type_maps \<Rightarrow> type_def item list" where
  "type_items oidset [] m = []"
| "type_items oidset (r # rs) m =
     (case type_item oidset r m of
        (None, m) \<Rightarrow> type_items oidset rs m
      | (Some it, m) \<Rightarrow> it # type_items oidset rs m)"

definition query_if_any ::
  "(string \<Rightarrow> ('w, sql_row list) act) \<Rightarrow> u32 list \<Rightarrow> (u32 list \<Rightarrow> string) \<Rightarrow> ('w, sql_row list) act" where
  "query_if_any query oids sql = (if oids = [] then retA [] else query (sql oids))"

text \<open>The search for an order always returns (\<open>topo_order_sorts\<close>), so \<open>the\<close> is defined there.\<close>

definition introspect_types ::
  "(string \<Rightarrow> ('w, sql_row list) act) \<Rightarrow> string \<Rightarrow> ('w, type_def list) act" where
  "introspect_types query publication =
     bindA (query (used_types_sql (lit publication))) (\<lambda>rows.
     if rows = [] then retA []
     else let raws = map raw_of rows in
       bindA (query_if_any query (oids_of ''c'' raws) attrs_sql) (\<lambda>attr_rows.
       bindA (query_if_any query (oids_of ''e'' raws) labels_sql) (\<lambda>label_rows.
       bindA (query_if_any query (oids_of ''d'' raws) checks_sql) (\<lambda>check_rows.
       liftA (the (topo_order (type_items (set (map rt_oid raws)) raws
         \<lparr>tm_attrs = fold (push_entry (\<lambda>r. (cell_str 1 r, cell_str 2 r))) attr_rows Map.empty,
          tm_deps = fold (push_entry (\<lambda>r. parse_oid (cell_at 3 r))) attr_rows Map.empty,
          tm_labels = fold (push_entry (cell_str 1)) label_rows Map.empty,
          tm_checks = fold (push_entry (cell_str 1)) check_rows Map.empty\<rparr>)))))))"

section \<open>Abstract readings\<close>

text \<open>A table whose updates and deletes can be replicated.\<close>

definition replicable :: "table_def \<Rightarrow> bool" where
  "replicable t \<longleftrightarrow> td_columns t \<noteq> [] \<and> td_replica_identity t \<noteq> ''n'' \<and>
     (td_pk t \<noteq> [] \<or> td_replica_identity t = ''f'')"

text \<open>The columns of the tables in order, each with its table, and the same of the rows.\<close>

definition table_cells :: "table_def list \<Rightarrow> ((string \<times> string) \<times> col_def res) list" where
  "table_cells tables = concat (map (\<lambda>t. map (\<lambda>c. (td_key t, Inr c)) (td_columns t)) tables)"

definition row_cells :: "sql_row list \<Rightarrow> ((string \<times> string) \<times> col_def res) list" where
  "row_cells rows = map (\<lambda>row. ((cell_str 0 row, cell_str 1 row), row_column row)) rows"

definition user_kind :: "string \<Rightarrow> bool" where
  "user_kind k \<longleftrightarrow> k = ''e'' \<or> k = ''c'' \<or> k = ''d'' \<or> k = ''r''"

section \<open>Lemmas\<close>

lemma need_cell_Inr [simp]: "need_cell i row = Inr s \<longleftrightarrow> cell_at i row = Some s"
  by (simp add: need_cell_def)

lemma table_cells_append: "table_cells (ts @ us) = table_cells ts @ table_cells us"
  by (simp add: table_cells_def)

lemma table_cells_push:
  "tables \<noteq> [] \<Longrightarrow> table_cells (push_column tables c) = table_cells tables @ [(td_key (last tables), Inr c)]"
proof -
  assume "tables \<noteq> []"
  then have t: "tables = butlast tables @ [last tables]" by simp
  show ?thesis
    by (subst (2) t, unfold push_column_def table_cells_append)
      (simp add: table_cells_def td_key_def)
qed

text \<open>What the tables read so far keep: each has a column and can be replicated.\<close>

definition read_ok :: "table_def list \<Rightarrow> bool" where
  "read_ok tables \<longleftrightarrow> (\<forall>t \<in> set tables. td_columns t \<noteq> [] \<and> td_replica_identity t \<noteq> ''n'')"

lemma open_table_ok:
  assumes "open_table tables row schema table = Inr tables'"
  shows "tables' \<noteq> []" "td_key (last tables') = (schema, table)" "read_ok (butlast tables') \<or> \<not> read_ok tables"
    "td_replica_identity (last tables') \<noteq> ''n'' \<or> \<not> read_ok tables" "table_cells tables' = table_cells tables"
  using assms
  by (auto simp: open_table_def td_key_def read_ok_def table_cells_def check_replica_identity_def
      split: if_splits dest: in_set_butlastD)

lemma add_column_row_ok:
  assumes "add_column_row tables row = Inr tables'"
  shows "read_ok tables \<Longrightarrow> read_ok tables'" "tables' \<noteq> []"
    "table_cells tables' = table_cells tables @ row_cells [row]"
proof -
  obtain schema table ts c where r: "cell_at 0 row = Some schema" "cell_at 1 row = Some table"
    "open_table tables row schema table = Inr ts" "row_column row = Inr c"
    "tables' = push_column ts c"
    using assms by (auto simp: add_column_row_def)
  note o = open_table_ok [OF r(3)]
  show "tables' \<noteq> []" by (simp add: r(5) push_column_def)
  show "read_ok tables \<Longrightarrow> read_ok tables'"
    using o(1,3,4) by (auto simp: r(5) push_column_def read_ok_def)
  show "table_cells tables' = table_cells tables @ row_cells [row]"
    using o(1,2,5) r(1,2,4) by (simp add: r(5) table_cells_push row_cells_def cell_str_def)
qed

lemma column_tables_ok:
  "column_tables rows tables = Inr tables' \<Longrightarrow>
     (read_ok tables \<longrightarrow> read_ok tables') \<and> (rows \<noteq> [] \<or> tables \<noteq> [] \<longrightarrow> tables' \<noteq> []) \<and>
     table_cells tables' = table_cells tables @ row_cells rows"
proof (induction rows arbitrary: tables)
  case Nil
  then show ?case by (simp add: row_cells_def)
next
  case (Cons row rows)
  then obtain ts where ts: "add_column_row tables row = Inr ts" "column_tables rows ts = Inr tables'"
    by auto
  show ?case
    using Cons.IH [OF ts(2)] add_column_row_ok [OF ts(1)] by (simp add: row_cells_def)
qed

text \<open>The key and index rows change neither columns nor identities.\<close>

lemma update_table_keeps:
  assumes "\<And>t. td_columns (f t) = td_columns t \<and> td_replica_identity (f t) = td_replica_identity t"
  shows "read_ok (update_table s n f ts) = read_ok ts" "update_table s n f ts = [] \<longleftrightarrow> ts = []"
proof -
  show "read_ok (update_table s n f ts) = read_ok ts"
    using assms by (induction ts) (auto simp: read_ok_def)
  show "update_table s n f ts = [] \<longleftrightarrow> ts = []" by (cases ts) auto
qed

lemma fold_update_keeps:
  assumes "\<And>row ts. read_ok (g row ts) = read_ok ts" "\<And>row ts. g row ts = [] \<longleftrightarrow> ts = []"
  shows "read_ok (fold g rows ts) = read_ok ts" "fold g rows ts = [] \<longleftrightarrow> ts = []"
  using assms by (induction rows arbitrary: ts) auto

lemma pk_index_keep:
  "read_ok (fold add_index_row is (fold add_pk_row ps ts)) = read_ok ts"
  "fold add_index_row is (fold add_pk_row ps ts) = [] \<longleftrightarrow> ts = []"
  by (simp_all add: fold_update_keeps add_pk_row_def add_index_row_def update_table_keeps)

lemma check_keys_ok:
  "check_keys ts = Inr u \<longleftrightarrow> (\<forall>t \<in> set ts. td_pk t \<noteq> [] \<or> td_replica_identity t = ''f'')"
  by (induction ts) auto

lemma first_unpublished_None: "first_unpublished ps = None \<longleftrightarrow> (\<forall>p \<in> set ps. fst p)"
  by (induction ps rule: first_unpublished.induct) auto

lemma validate_publish_ops_ok:
  "validate_publish_ops p [a, b, c, d] = Inr u \<longleftrightarrow> a \<and> b \<and> c \<and> d"
  by (auto simp: validate_publish_ops_def first_unpublished_None split: option.split)

lemma push_new_fold: "distinct acc \<Longrightarrow> distinct (fold push_new xs acc) \<and>
    set (fold push_new xs acc) = set acc \<union> set xs"
  by (induction xs arbitrary: acc) (auto simp: push_new_def)

lemma column_oids_set:
  "distinct (column_oids tables)"
  "set (column_oids tables) = (\<Union>t \<in> set tables. cd_type_oid ` set (td_columns t))"
  using push_new_fold [of "[]" "map cd_type_oid (concat (map td_columns tables))"]
  by (auto simp: column_oids_def)

definition ty_key :: "type_def \<Rightarrow> string \<times> string" where
  "ty_key d = (ty_schema d, ty_name d)"

lemma type_items_keys:
  "map (\<lambda>it. ty_key (snd (snd it))) (type_items oidset raws m) =
     map (\<lambda>r. (rt_schema r, rt_name r)) (filter (\<lambda>r. user_kind (rt_typtype r)) raws)"
  by (induction raws arbitrary: m) (simp_all add: type_item_def Let_def ty_key_def user_kind_def)

lemma map_nth_order_mset:
  assumes "distinct order" "set order = {..<length xs}"
  shows "mset (map (\<lambda>i. xs ! i) order) = mset xs"
proof -
  have "mset order = mset [0..<length xs]"
    using assms by (subst set_eq_iff_mset_eq_distinct [symmetric]) (auto simp: atLeast0LessThan)
  then have "mset (map (\<lambda>i. xs ! i) order) = mset (map (\<lambda>i. xs ! i) [0..<length xs])"
    by (simp only: mset_map)
  then show ?thesis by (simp only: map_nth)
qed

lemma topo_order_mset:
  assumes "the (topo_order items) = Inr defs"
  shows "mset defs = mset (map (\<lambda>it. snd (snd it)) items)"
proof -
  obtain order where o: "distinct order" "set order = {..<length items}"
    "defs = map (\<lambda>i. snd (snd (items ! i))) order"
    using topo_order_spec [of items] assms by (auto split: option.splits sum.splits)
  then have d: "defs = map (\<lambda>it. snd (snd it)) (map (\<lambda>i. items ! i) order)" by simp
  show ?thesis unfolding d by (simp only: mset_map map_nth_order_mset [OF o(1,2), unfolded mset_map])
qed

section \<open>Properties\<close>

text \<open>
  C21. A schema that introspection accepts can be replicated: the publication publishes inserts,
  updates, deletes and truncates, there is a table, and every table has a column, a replica identity
  other than NOTHING, and a primary key or the identity FULL.
\<close>

theorem introspect_replicable:
  assumes "introspect query publication w = (Inr tables, w')"
  shows "tables \<noteq> [] \<and> (\<forall>t \<in> set tables. replicable t) \<and>
    (\<exists>row rows w1. query (pub_ops_sql (lit publication)) w = (Inr (row # rows), w1) \<and>
       cell_at 0 row = Some ''1'' \<and> cell_at 1 row = Some ''1'' \<and> cell_at 2 row = Some ''1'' \<and>
       cell_at 3 row = Some ''1'')"
proof -
  obtain ops w1 row u where ops: "query (pub_ops_sql (lit publication)) w = (Inr ops, w1)"
    "(case ops of [] \<Rightarrow> Inl (ReplicaConfigError (''publication '' @ publication @ '' does not exist''))
      | row # _ \<Rightarrow> Inr row) = Inr row"
    "validate_publish_ops publication (map (\<lambda>i. cell_at i row = Some ''1'') [0, 1, 2, 3]) = Inr u"
    using assms by (auto simp: introspect_def Let_def bindA_eq_Inr)
  obtain cols ts pks idxs where r: "cols \<noteq> []" "column_tables cols [] = Inr ts"
    "tables = fold add_index_row idxs (fold add_pk_row pks ts)" "check_keys tables = Inr ()"
    using assms by (auto simp: introspect_def Let_def bindA_eq_Inr split: if_splits)
  have "read_ok ts" "ts \<noteq> []"
    using column_tables_ok [OF r(2)] r(1) by (simp_all add: read_ok_def)
  then have "read_ok tables" "tables \<noteq> []" by (simp_all add: r(3) pk_index_keep)
  then show ?thesis
    using ops r(4) by (auto simp: replicable_def read_ok_def check_keys_ok validate_publish_ops_ok
        split: list.splits)
qed

text \<open>A connection that gives the scripted replies in order.\<close>

definition scripted :: "string \<Rightarrow> (sql_row list list, sql_row list) act" where
  "scripted sql w = (case w of [] \<Rightarrow> (Inl Closed, []) | r # rs \<Rightarrow> (Inr r, rs))"

lemma parse_samples:
  "parse_u32 ''7'' = Some 7" "parse_u32 ''0'' = Some 0" "parse_u32 ''23'' = Some 23"
  "parse_u32 ''25'' = Some 25" "parse_u32 ''150004'' = Some 150004"
  by (simp_all add: parse_u32_def parse_radix_def digit_val_def)

lemmas introspect_eval = parse_samples cell_at_def cell_str_def need_cell_def open_table_def
  check_replica_identity_def row_column_def push_column_def add_column_row_def add_pk_row_def
  parse_oid_def scripted_def bindA_def Let_def

theorem introspect_replicable_witness:
  "let tables = [\<lparr>td_schema = ''public'', td_name = ''t'',
       td_columns = [\<lparr>cd_name = ''id'', cd_type_sql = ''integer'', cd_type_oid = 23, cd_not_null = True\<rparr>],
       td_pk = [''id''], td_replica_identity = ''d'', td_row_filter = None, td_indexes = []\<rparr>]
   in tables \<noteq> [] \<and> (\<forall>t \<in> set tables. replicable t)"
proof -
  have "introspect scripted ''p'' [[map Some [''1'', ''1'', ''1'', ''1'']], [[Some ''150004'']],
      [[Some ''public'', Some ''t'', Some ''id'', Some ''integer'', Some ''1'', Some ''23'', Some ''d'', None]],
      [map Some [''public'', ''t'', ''id'']], []] =
    (Inr [\<lparr>td_schema = ''public'', td_name = ''t'',
       td_columns = [\<lparr>cd_name = ''id'', cd_type_sql = ''integer'', cd_type_oid = 23, cd_not_null = True\<rparr>],
       td_pk = [''id''], td_replica_identity = ''d'', td_row_filter = None, td_indexes = []\<rparr>], [])"
    by (simp add: introspect_def introspect_eval validate_publish_ops_def server_version_num_def
        first_cell_def)
  from introspect_replicable [OF this] show ?thesis by (simp add: Let_def)
qed

text \<open>
  The rows of the catalog are grouped into tables without loss: the columns of the tables,
  in order and each with its table, are exactly the rows read.
\<close>

theorem column_tables_lossless:
  assumes "column_tables rows [] = Inr tables"
  shows "table_cells tables = row_cells rows"
  using column_tables_ok [OF assms] by (simp add: table_cells_def)

theorem column_tables_lossless_witness:
  "\<exists>tables. column_tables [map Some [''s'', ''a'', ''x'', ''text'', ''0'', ''25'', ''f'']] [] = Inr tables \<and>
     table_cells tables = row_cells [map Some [''s'', ''a'', ''x'', ''text'', ''0'', ''25'', ''f'']]"
proof -
  have "column_tables [map Some [''s'', ''a'', ''x'', ''text'', ''0'', ''25'', ''f'']] [] =
    Inr [\<lparr>td_schema = ''s'', td_name = ''a'',
       td_columns = [\<lparr>cd_name = ''x'', cd_type_sql = ''text'', cd_type_oid = 25, cd_not_null = False\<rparr>],
       td_pk = [], td_replica_identity = ''f'', td_row_filter = None, td_indexes = []\<rparr>]"
    by (simp add: introspect_eval)
  from column_tables_lossless [OF this] this show ?thesis by blast
qed

text \<open>
  The types created are exactly the user-defined types the upstream reports: every enum,
  composite, domain and range row gives one definition of that name, and there is no other.
\<close>

theorem introspect_types_complete:
  assumes "introspect_types query publication w = (Inr defs, w')"
    and "query (used_types_sql (lit publication)) w = (Inr rows, w1)"
  shows "mset (map ty_key defs) =
    mset (map (\<lambda>row. (cell_str 2 row, cell_str 3 row)) (filter (\<lambda>row. user_kind (cell_str 1 row)) rows))"
proof (cases "rows = []")
  case True
  then show ?thesis using assms by (simp add: introspect_types_def bindA_def)
next
  case False
  then obtain oids m where t: "the (topo_order (type_items oids (map raw_of rows) m)) = Inr defs"
    using assms by (auto simp: introspect_types_def bindA_eq_Inr Let_def)
  have "image_mset ty_key (mset defs) =
      image_mset ty_key (mset (map (\<lambda>it. snd (snd it)) (type_items oids (map raw_of rows) m)))"
    by (simp only: topo_order_mset [OF t])
  then have "mset (map ty_key defs) =
      mset (map (\<lambda>it. ty_key (snd (snd it))) (type_items oids (map raw_of rows) m))"
    by (simp only: mset_map [symmetric] map_map comp_def)
  then show ?thesis
    by (simp only: type_items_keys filter_map_comp map_map comp_def) (simp add: raw_of_def)
qed

lemma topo_order_one: "topo_order [(7, [], x)] = Some (Inr [x])"
  by (simp add: topo_order_def topo_dfs_def topo_index_def topo_step_def item_deps_def Let_def
      while_option_unfold [of _ _ "\<lparr>t_state = [0], t_order = [], t_stack = [(0, 0)], t_err = None\<rparr>"])
    (simp add: while_option_unfold)

theorem introspect_types_complete_witness:
  "mset (map ty_key [EnumDef ''public'' ''mood'' [''sad'']]) = mset [(''public'', ''mood'')]"
proof -
  have a: "scripted sql (rs # w) = (Inr rs, w)" for sql rs w by (simp add: scripted_def)
  have "introspect_types scripted ''p''
      [[map Some [''7'', ''e'', ''public'', ''mood'', ''0'', ''0'']], [map Some [''7'', ''sad'']]] =
    (Inr [EnumDef ''public'' ''mood'' [''sad'']], [])"
    by (simp add: introspect_types_def introspect_eval query_if_any_def oids_of_def raw_of_def
        type_item_def push_entry_def entry_def topo_order_one)
  from introspect_types_complete [OF this a] show ?thesis
    by (simp add: cell_str_def cell_at_def user_kind_def)
qed

text \<open>
  Extension types are refused before anything is created: the check passes exactly when there is
  no column, or the query over the types of all columns, each asked for once, returns no row.
\<close>

theorem extension_types_refused:
  "fst (check_extension_types query tables w) = Inr () \<longleftrightarrow>
     column_oids tables = [] \<or> fst (query (ext_types_sql (column_oids tables)) w) = Inr []"
proof (cases "query (ext_types_sql (column_oids tables)) w")
  case (Pair r w')
  then show ?thesis
    by (cases r) (auto simp: check_extension_types_def Let_def bindA_def split: list.split)
qed

end
