(* ===== verification/Backfill.thy ===== *)
theory Backfill
  imports Introspect
begin

text \<open>
  \<^verbatim>\<open>replica/backfill.rs\<close>, the writing half: \<open>bootstrap_schema\<close> creates the published schema,
  \<open>copy_tables\<close> copies the rows in batches, and \<open>apply_schema_delta\<close> brings an existing schema up to
  date. The local database is the argument \<open>db\<close>; \<open>copy_in\<close> and \<open>copy_out\<close> are the two COPY
  operations. A \<open>HashMap\<close> is a list of pairs with one entry per key; the order in which its keys are
  visited is the argument \<open>visit\<close>.
\<close>

section \<open>Bootstrap\<close>

definition ensure_schema :: "'w db_ops \<Rightarrow> string \<Rightarrow> ('w, unit) act" where
  "ensure_schema db s =
     (if s \<noteq> ''public'' then db_exec db (''CREATE SCHEMA IF NOT EXISTS '' @ ident s) else retA ())"

definition drop_table_sql :: "string \<times> string \<Rightarrow> string" where
  "drop_table_sql k = ''DROP TABLE IF EXISTS '' @ target_of (fst k) (snd k) @ '' CASCADE''"

definition run_query :: "'w db_ops \<Rightarrow> string \<Rightarrow> ('w, unit) act" where
  "run_query db sql = bindA (db_query db sql []) (\<lambda>_. retA ())"

definition rebuild_table :: "'w db_ops \<Rightarrow> table_def \<Rightarrow> ('w, unit) act" where
  "rebuild_table db t =
     bindA (ensure_schema db (td_schema t)) (\<lambda>_.
     bindA (db_exec db (drop_table_sql (td_key t))) (\<lambda>_.
     bindA (db_exec db (create_table_sql t)) (\<lambda>_.
       forA (td_indexes t) (run_query db))))"

definition rebuild_type :: "'w db_ops \<Rightarrow> type_def \<Rightarrow> ('w, unit) act" where
  "rebuild_type db ty =
     bindA (ensure_schema db (ty_schema ty)) (\<lambda>_.
     bindA (db_exec db (drop_sql ty)) (\<lambda>_. db_exec db (create_sql ty)))"

definition bootstrap_schema ::
  "'w db_ops \<Rightarrow> type_def list \<Rightarrow> table_def list \<Rightarrow> ('w, unit) act" where
  "bootstrap_schema db types tables =
     bindA (forA types (rebuild_type db)) (\<lambda>_. forA tables (rebuild_table db))"

section \<open>Copying the rows\<close>

definition copy_batch_bytes :: nat where
  "copy_batch_bytes = 1048576"

definition col_list :: "table_def \<Rightarrow> string" where
  "col_list t = join_str '', '' (map (\<lambda>c. ident (cd_name c)) (td_columns t))"

definition copy_in_sql :: "table_def \<Rightarrow> string" where
  "copy_in_sql t = ''COPY '' @ td_target t @ '' ('' @ col_list t @ '') FROM STDIN''"

definition copy_out_sql :: "table_def \<Rightarrow> string" where
  "copy_out_sql t =
     (case td_row_filter t of
        Some filter_sql \<Rightarrow> ''COPY (SELECT '' @ col_list t @ '' FROM '' @ td_target t @ '' WHERE '' @
          filter_sql @ '') TO STDOUT''
      | None \<Rightarrow> ''COPY '' @ td_target t @ '' ('' @ col_list t @ '') TO STDOUT'')"

text \<open>The closure over the batch: collect, and copy in what has reached the batch size.\<close>

definition on_chunk ::
  "(string \<Rightarrow> bytes \<Rightarrow> ('w, unit) act) \<Rightarrow> string \<Rightarrow> bytes \<Rightarrow> (bytes \<times> 'w, unit) act" where
  "on_chunk copy_in sql chunk s =
     (let (batch, w) = s; batch = batch @ chunk
      in if length batch \<ge> copy_batch_bytes
         then (case copy_in sql batch w of
                 (Inl e, w') \<Rightarrow> (Inl e, (batch, w'))
               | (Inr _, w') \<Rightarrow> (Inr (), ([], w')))
         else (Inr (), (batch, w)))"

type_synonym 'w copier = "string \<Rightarrow> (bytes \<Rightarrow> (bytes \<times> 'w, unit) act) \<Rightarrow> (bytes \<times> 'w, unit) act"

definition copy_table ::
  "'w copier \<Rightarrow> (string \<Rightarrow> bytes \<Rightarrow> ('w, unit) act) \<Rightarrow> table_def \<Rightarrow> ('w, unit) act" where
  "copy_table copy_out copy_in t w =
     (case copy_out (copy_out_sql t) (on_chunk copy_in (copy_in_sql t)) ([], w) of
        (Inl e, (_, w')) \<Rightarrow> (Inl e, w')
      | (Inr _, (batch, w')) \<Rightarrow>
          if batch \<noteq> [] then copy_in (copy_in_sql t) batch w' else (Inr (), w'))"

definition copy_tables ::
  "'w copier \<Rightarrow> (string \<Rightarrow> bytes \<Rightarrow> ('w, unit) act) \<Rightarrow> table_def list \<Rightarrow> ('w, unit) act" where
  "copy_tables copy_out copy_in tables = forA tables (copy_table copy_out copy_in)"

section \<open>Schema changes\<close>

definition old_entry :: "string \<Rightarrow> ((string \<times> string) \<times> (string \<times> u32) list) option" where
  "old_entry line =
     (case split_on CHR ''|'' line of
        s # t # segs \<Rightarrow> Some ((s, t), List.map_filter seg_col segs)
      | _ \<Rightarrow> None)"

type_synonym old_map = "((string \<times> string) \<times> (string \<times> u32) list) list"

fun old_tables :: "string list \<Rightarrow> old_map \<Rightarrow> old_map" where
  "old_tables [] m = m"
| "old_tables (line # ls) m =
     old_tables ls (case old_entry line of None \<Rightarrow> m | Some (k, cols) \<Rightarrow> AList.update k cols m)"

definition type_exists_sql :: string where
  "type_exists_sql =
     ''SELECT 1 FROM pg_type t JOIN pg_namespace n ON n.oid = t.typnamespace '' @
     ''WHERE n.nspname = $1 AND t.typname = $2''"

definition delta_type :: "'w db_ops \<Rightarrow> type_def \<Rightarrow> ('w, unit) act" where
  "delta_type db ty =
     bindA (db_query db type_exists_sql [ty_schema ty, ty_name ty]) (\<lambda>rows.
       if rows = []
       then bindA (ensure_schema db (ty_schema ty)) (\<lambda>_. db_exec db (create_sql ty))
       else retA ())"

definition delta_drop :: "'w db_ops \<Rightarrow> (string \<times> string) set \<Rightarrow> string \<times> string \<Rightarrow> ('w, unit) act" where
  "delta_drop db new_keys k =
     (if k \<notin> new_keys then db_exec db (drop_table_sql k) else retA ())"

definition add_column_sql :: "string \<times> string \<Rightarrow> string \<Rightarrow> string \<Rightarrow> string" where
  "add_column_sql k name type_sql =
     ''ALTER TABLE '' @ target_of (fst k) (snd k) @ '' ADD COLUMN IF NOT EXISTS '' @ ident name @
     '' '' @ type_sql"

definition drop_column_sql :: "string \<times> string \<Rightarrow> string \<Rightarrow> string" where
  "drop_column_sql k name =
     ''ALTER TABLE '' @ target_of (fst k) (snd k) @ '' DROP COLUMN IF EXISTS '' @ ident name"

definition delta_add :: "'w db_ops \<Rightarrow> table_def \<Rightarrow> string set \<Rightarrow> col_def \<Rightarrow> ('w, unit) act" where
  "delta_add db t old_names c =
     (if cd_name c \<notin> old_names
      then db_exec db (add_column_sql (td_key t) (cd_name c) (cd_type_sql c)) else retA ())"

definition delta_old :: "'w db_ops \<Rightarrow> table_def \<Rightarrow> string \<times> u32 \<Rightarrow> ('w, unit) act" where
  "delta_old db t p =
     (if fst p \<notin> cd_name ` set (td_columns t)
      then db_exec db (drop_column_sql (td_key t) (fst p))
      else if \<exists>c \<in> set (td_columns t). cd_name c = fst p \<and> cd_type_oid c \<noteq> snd p
      then failA (ReplicaHalted (''incompatible column type change on '' @ td_schema t @ ''.'' @
             td_name t @ '' column '' @ fst p @
             ''; run Replica::decommission and start again for a full resync''))
      else retA ())"

definition delta_table :: "'w db_ops \<Rightarrow> old_map \<Rightarrow> table_def \<Rightarrow> ('w, unit) act" where
  "delta_table db old t =
     (case map_of old (td_key t) of
        None \<Rightarrow> rebuild_table db t
      | Some old_cols \<Rightarrow>
          bindA (forA (td_columns t) (delta_add db t (fst ` set old_cols))) (\<lambda>_.
            forA old_cols (delta_old db t)))"

definition sync_tables ::
  "((string \<times> string) list \<Rightarrow> (string \<times> string) list) \<Rightarrow> 'w db_ops \<Rightarrow> old_map \<Rightarrow> table_def list \<Rightarrow>
     ('w, unit) act" where
  "sync_tables visit db old new_tables =
     bindA (forA (visit (map fst old)) (delta_drop db (set (map td_key new_tables)))) (\<lambda>_.
       forA new_tables (delta_table db old))"

definition apply_schema_delta ::
  "((string \<times> string) list \<Rightarrow> (string \<times> string) list) \<Rightarrow> (string \<Rightarrow> ('w, sql_row list) act) \<Rightarrow>
     'w db_ops \<Rightarrow> string \<Rightarrow> string list \<Rightarrow> ('w, table_def list) act" where
  "apply_schema_delta visit query db publication old_lines =
     bindA (introspect query publication) (\<lambda>new_tables.
     bindA (check_extension_types query new_tables) (\<lambda>_.
     bindA (introspect_types query publication) (\<lambda>new_types.
     bindA (forA new_types (delta_type db)) (\<lambda>_.
     bindA (sync_tables visit db (old_tables old_lines []) new_tables) (\<lambda>_.
       retA new_tables)))))"

section \<open>Abstract statements\<close>

text \<open>
  The schema statements as data, the text each is written as, and what each does to a catalog that
  maps a table to its columns with their type oids.
\<close>

datatype ddl =
    DCreateSchema string
  | DDropTable "string \<times> string"
  | DCreateTable table_def
  | DIndex string
  | DAddColumn "string \<times> string" col_def
  | DDropColumn "string \<times> string" string

fun render :: "ddl \<Rightarrow> string" where
  "render (DCreateSchema s) = ''CREATE SCHEMA IF NOT EXISTS '' @ ident s"
| "render (DDropTable k) = drop_table_sql k"
| "render (DCreateTable t) = create_table_sql t"
| "render (DIndex sql) = sql"
| "render (DAddColumn k c) = add_column_sql k (cd_name c) (cd_type_sql c)"
| "render (DDropColumn k n) = drop_column_sql k n"

type_synonym catalog = "string \<times> string \<Rightarrow> (string \<rightharpoonup> u32) option"

fun run_ddl :: "ddl \<Rightarrow> catalog \<Rightarrow> catalog" where
  "run_ddl (DCreateSchema s) cat = cat"
| "run_ddl (DDropTable k) cat = cat(k := None)"
| "run_ddl (DCreateTable t) cat = cat(td_key t := Some (map_of (td_cols t)))"
| "run_ddl (DIndex sql) cat = cat"
| "run_ddl (DAddColumn k c) cat =
     cat(k := map_option (\<lambda>m. if m (cd_name c) = None then m(cd_name c \<mapsto> cd_type_oid c) else m) (cat k))"
| "run_ddl (DDropColumn k n) cat = cat(k := map_option (\<lambda>m. m(n := None)) (cat k))"

definition schema_cat :: "table_def list \<Rightarrow> catalog" where
  "schema_cat ts k = map_option (\<lambda>t. map_of (td_cols t)) (List.find (\<lambda>t. td_key t = k) ts)"

definition old_cat :: "old_map \<Rightarrow> catalog" where
  "old_cat old k = map_option map_of (map_of old k)"

text \<open>A kept column whose type has changed.\<close>

definition type_conflict :: "old_map \<Rightarrow> table_def \<Rightarrow> bool" where
  "type_conflict old t \<longleftrightarrow>
     (case map_of old (td_key t) of
        None \<Rightarrow> False
      | Some cols \<Rightarrow> \<exists>p \<in> set cols. \<exists>c \<in> set (td_columns t). cd_name c = fst p \<and> cd_type_oid c \<noteq> snd p)"

text \<open>
  A database that performs every statement and notes it; \<open>performs\<close> is what an action then does to
  the notes.
\<close>

definition notes_statements :: "'w db_ops \<Rightarrow> ('w \<Rightarrow> string list) \<Rightarrow> bool" where
  "notes_statements db log \<longleftrightarrow>
     (\<forall>sql w. \<exists>w'. db_exec db sql w = (Inr (), w') \<and> log w' = log w @ [sql]) \<and>
     (\<forall>sql ps w. \<exists>rows w'. db_query db sql ps w = (Inr rows, w') \<and> log w' = log w @ [sql])"

definition performs :: "('w \<Rightarrow> string list) \<Rightarrow> ('w, unit) act \<Rightarrow> ddl list \<Rightarrow> bool" where
  "performs log m plan \<longleftrightarrow> writes log m (map render plan)"

definition plan_rebuild :: "table_def \<Rightarrow> ddl list" where
  "plan_rebuild t =
     (if td_schema t \<noteq> ''public'' then [DCreateSchema (td_schema t)] else []) @
     [DDropTable (td_key t), DCreateTable t] @ map DIndex (td_indexes t)"

definition plan_table :: "old_map \<Rightarrow> table_def \<Rightarrow> ddl list" where
  "plan_table old t =
     (case map_of old (td_key t) of
        None \<Rightarrow> plan_rebuild t
      | Some cols \<Rightarrow>
          map (DAddColumn (td_key t)) (filter (\<lambda>c. cd_name c \<notin> fst ` set cols) (td_columns t)) @
          map (DDropColumn (td_key t))
            (filter (\<lambda>n. n \<notin> cd_name ` set (td_columns t)) (map fst cols)))"

definition plan_sync ::
  "((string \<times> string) list \<Rightarrow> (string \<times> string) list) \<Rightarrow> old_map \<Rightarrow> table_def list \<Rightarrow> ddl list" where
  "plan_sync visit old new =
     map DDropTable (filter (\<lambda>k. k \<notin> set (map td_key new)) (visit (map fst old))) @
     concat (map (plan_table old) new)"

section \<open>Lemmas: the code performs the plan\<close>

lemma performs_iff:
  "performs log m plan \<longleftrightarrow> (\<forall>w. \<exists>w'. m w = (Inr (), w') \<and> log w' = log w @ map render plan)"
  by (simp add: performs_def writes_def)

lemma performs_ret [intro!]: "performs log (retA ()) []"
  by (simp add: performs_def writes_ret)

lemma performs_bind:
  "performs log m p \<Longrightarrow> performs log n q \<Longrightarrow> performs log (bindA m (\<lambda>_. n)) (p @ q)"
  by (simp add: performs_def writes_bind)

lemma performs_for:
  "(\<And>x. x \<in> set xs \<Longrightarrow> performs log (f x) (g x)) \<Longrightarrow> performs log (forA xs f) (concat (map g xs))"
  using writes_for [of xs log f "\<lambda>x. map render (g x)"]
  by (simp add: performs_def map_concat comp_def)

lemma performs_exec: "notes_statements db log \<Longrightarrow> performs log (db_exec db (render d)) [d]"
  by (simp add: notes_statements_def performs_iff)

lemma performs_query: "notes_statements db log \<Longrightarrow> performs log (run_query db sql) [DIndex sql]"
  unfolding notes_statements_def performs_iff run_query_def bindA_def
  by (metis (mono_tags, lifting) list.simps(8,9) old.sum.simps(6) prod.simps(2) render.simps(4) retA_apply)

lemma performs_schema:
  "notes_statements db log \<Longrightarrow>
     performs log (ensure_schema db s) (if s \<noteq> ''public'' then [DCreateSchema s] else [])"
  using performs_exec [of db log "DCreateSchema s"] by (auto simp: ensure_schema_def)

lemma performs_rebuild:
  assumes "notes_statements db log"
  shows "performs log (rebuild_table db t) (plan_rebuild t)"
proof -
  have i: "performs log (forA (td_indexes t) (run_query db)) (concat (map (\<lambda>s. [DIndex s]) (td_indexes t)))"
    by (rule performs_for) (rule performs_query [OF assms])
  have "concat (map (\<lambda>s. [DIndex s]) (td_indexes t)) = map DIndex (td_indexes t)"
    by (induction "td_indexes t") simp_all
  with performs_bind [OF performs_schema [OF assms, of "td_schema t"]
      performs_bind [OF performs_exec [OF assms, of "DDropTable (td_key t)"]
        performs_bind [OF performs_exec [OF assms, of "DCreateTable t"] i]]]
  show ?thesis by (simp add: rebuild_table_def plan_rebuild_def)
qed

lemma performs_delta_table:
  assumes n: "notes_statements db log" and c: "\<not> type_conflict old t"
  shows "performs log (delta_table db old t) (plan_table old t)"
proof (cases "map_of old (td_key t)")
  case None
  then show ?thesis using performs_rebuild [OF n] by (simp add: delta_table_def plan_table_def)
next
  case (Some cols)
  have a: "performs log (delta_add db t (fst ` set cols) c)
      (if cd_name c \<notin> fst ` set cols then [DAddColumn (td_key t) c] else [])" for c
    using performs_exec [OF n, of "DAddColumn (td_key t) c"] by (auto simp: delta_add_def)
  have d: "performs log (delta_old db t p)
      (if fst p \<notin> cd_name ` set (td_columns t) then [DDropColumn (td_key t) (fst p)] else [])"
    if "p \<in> set cols" for p
    using performs_exec [OF n, of "DDropColumn (td_key t) (fst p)"] c that Some
    by (auto simp: delta_old_def type_conflict_def)
  have "concat (map (\<lambda>p. if fst p \<notin> cd_name ` set (td_columns t) then [DDropColumn (td_key t) (fst p)] else []) cols) =
      map (DDropColumn (td_key t)) (filter (\<lambda>n. n \<notin> cd_name ` set (td_columns t)) (map fst cols))"
    unfolding concat_if_filter filter_map_comp by simp
  moreover have "performs log (forA (td_columns t) (delta_add db t (fst ` set cols)))
      (concat (map (\<lambda>c. if cd_name c \<notin> fst ` set cols then [DAddColumn (td_key t) c] else []) (td_columns t)))"
    by (rule performs_for) (rule a)
  moreover have "performs log (forA cols (delta_old db t)) (concat (map (\<lambda>p.
      if fst p \<notin> cd_name ` set (td_columns t) then [DDropColumn (td_key t) (fst p)] else []) cols))"
    by (rule performs_for) (rule d)
  ultimately show ?thesis
    using performs_bind [of log "forA (td_columns t) (delta_add db t (fst ` set cols))" _ "forA cols (delta_old db t)"]
    by (simp only: delta_table_def plan_table_def Some option.case concat_if_filter)
qed

lemma performs_sync:
  assumes n: "notes_statements db log" and c: "\<forall>t \<in> set new. \<not> type_conflict old t"
  shows "performs log (sync_tables visit db old new) (plan_sync visit old new)"
proof -
  have d: "performs log (delta_drop db (set (map td_key new)) k)
      (if k \<notin> set (map td_key new) then [DDropTable k] else [])" for k
    using performs_exec [OF n, of "DDropTable k"] by (auto simp: delta_drop_def)
  have t: "performs log (delta_table db old t) (plan_table old t)" if "t \<in> set new" for t
    using performs_delta_table [OF n] c that by blast
  from performs_bind [OF performs_for [OF d, of "visit (map fst old)"] performs_for [OF t, of new]]
  show ?thesis by (simp only: sync_tables_def plan_sync_def concat_if_filter)
qed

section \<open>Lemmas: the plan brings the catalog up to date\<close>

lemma fold_run_append: "fold run_ddl (p @ q) cat = fold run_ddl q (fold run_ddl p cat)"
  by simp

lemma schema_cat_None: "schema_cat ts k = None \<longleftrightarrow> k \<notin> td_key ` set ts"
  by (induction ts) (auto simp: schema_cat_def)

lemma schema_cat_Cons:
  "schema_cat (t # ts) k = (if td_key t = k then Some (map_of (td_cols t)) else schema_cat ts k)"
  by (simp add: schema_cat_def)

lemma run_adds:
  "fold run_ddl (map (DAddColumn k) cs) cat =
     cat(k := map_option (\<lambda>m. map_of (map (\<lambda>c. (cd_name c, cd_type_oid c)) cs) ++ m) (cat k))"
proof (induction cs arbitrary: cat)
  case Nil
  then show ?case by (simp add: fun_eq_iff option.map_ident)
next
  case (Cons c cs)
  then show ?case
    by (cases "cat k") (auto simp: fun_eq_iff map_add_def split: option.split)
qed

lemma run_drops:
  "fold run_ddl (map (DDropColumn k) ns) cat =
     cat(k := map_option (\<lambda>m n. if n \<in> set ns then None else m n) (cat k))"
proof (induction ns arbitrary: cat)
  case Nil
  then show ?case by (simp add: fun_eq_iff option.map_ident)
next
  case (Cons n ns)
  then show ?case by (cases "cat k") (auto simp: fun_eq_iff)
qed

lemma run_indexes: "fold run_ddl (map DIndex xs) cat = cat"
  by (induction xs) simp_all

lemma run_drop_tables:
  "fold run_ddl (map DDropTable ks) cat = (\<lambda>k. if k \<in> set ks then None else cat k)"
  by (induction ks arbitrary: cat) (auto simp: fun_eq_iff)

lemma run_plan_table:
  assumes "\<not> type_conflict old t" and "cat (td_key t) = old_cat old (td_key t)"
  shows "fold run_ddl (plan_table old t) cat = cat(td_key t := Some (map_of (td_cols t)))"
proof (cases "map_of old (td_key t)")
  case None
  then show ?thesis by (simp add: plan_table_def plan_rebuild_def run_indexes)
next
  case (Some cols)
  let ?new = "filter (\<lambda>c. cd_name c \<notin> fst ` set cols) (td_columns t)"
  let ?gone = "filter (\<lambda>n. n \<notin> cd_name ` set (td_columns t)) (map fst cols)"
  have same: "cd_type_oid c = snd p" if "p \<in> set cols" "c \<in> set (td_columns t)" "cd_name c = fst p" for p c
    using assms(1) that Some by (auto simp: type_conflict_def)
  have "(if n \<in> set ?gone then None
         else (map_of (map (\<lambda>c. (cd_name c, cd_type_oid c)) ?new) ++ map_of cols) n) = map_of (td_cols t) n" for n
  proof (cases "map_of cols n")
    case None
    then have n: "n \<notin> fst ` set cols" by (simp add: map_of_eq_None_iff)
    have "map_of (map (\<lambda>c. (cd_name c, cd_type_oid c)) (filter (\<lambda>c. cd_name c \<notin> fst ` set cols) cs)) n =
        map_of (map (\<lambda>c. (cd_name c, cd_type_oid c)) cs) n" for cs
      using n by (induction cs) auto
    then have "map_of (map (\<lambda>c. (cd_name c, cd_type_oid c)) ?new) n = map_of (td_cols t) n"
      by (simp add: td_cols_def)
    then show ?thesis using n None by (auto simp: map_add_def)
  next
    case (Some oid)
    then have p: "(n, oid) \<in> set cols" by (rule map_of_SomeD)
    show ?thesis
    proof (cases "n \<in> cd_name ` set (td_columns t)")
      case False
      then have "map_of (td_cols t) n = None"
        by (auto simp: map_of_eq_None_iff td_cols_def)
      then show ?thesis using False p by force
    next
      case True
      then obtain oid' where o: "map_of (td_cols t) n = Some oid'"
        by (cases "map_of (td_cols t) n") (auto simp: map_of_eq_None_iff td_cols_def image_iff)
      then have "oid' = oid" using same [OF p] map_of_SomeD [OF o] by (auto simp: td_cols_def)
      then show ?thesis using Some True o by (auto simp: map_add_def)
    qed
  qed
  then have "(\<lambda>n. if n \<in> set ?gone then None
      else (map_of (map (\<lambda>c. (cd_name c, cd_type_oid c)) ?new) ++ map_of cols) n) = map_of (td_cols t)"
    by (simp add: fun_eq_iff)
  then show ?thesis
    using assms(2) Some
    by (simp add: plan_table_def run_adds run_drops old_cat_def del: set_filter)
qed

lemma run_plan_tables:
  assumes "\<forall>t \<in> set ts. \<not> type_conflict old t" "distinct (map td_key ts)"
    "\<forall>t \<in> set ts. cat (td_key t) = old_cat old (td_key t)"
  shows "fold run_ddl (concat (map (plan_table old) ts)) cat =
    (\<lambda>k. case schema_cat ts k of None \<Rightarrow> cat k | Some m \<Rightarrow> Some m)"
  using assms
proof (induction ts arbitrary: cat)
  case Nil
  then show ?case by (simp add: schema_cat_def)
next
  case (Cons t ts)
  let ?cat = "cat(td_key t := Some (map_of (td_cols t)))"
  have "fold run_ddl (concat (map (plan_table old) ts)) ?cat =
      (\<lambda>k. case schema_cat ts k of None \<Rightarrow> ?cat k | Some m \<Rightarrow> Some m)"
    using Cons.prems by (intro Cons.IH) (auto simp: image_iff)
  moreover have "fold run_ddl (plan_table old t) cat = ?cat"
    using Cons.prems by (intro run_plan_table) auto
  ultimately have r: "fold run_ddl (concat (map (plan_table old) (t # ts))) cat =
      (\<lambda>k. case schema_cat ts k of None \<Rightarrow> ?cat k | Some m \<Rightarrow> Some m)"
    by simp
  have "schema_cat ts (td_key t) = None"
    using Cons.prems(2) by (simp add: schema_cat_None)
  then show ?case unfolding r schema_cat_Cons by (intro ext) (auto split: option.split)
qed

lemma run_plan_sync:
  assumes "\<forall>t \<in> set new. \<not> type_conflict old t" "distinct (map td_key new)"
    "\<And>xs. set (visit xs) = set xs"
  shows "fold run_ddl (plan_sync visit old new) (old_cat old) = schema_cat new"
proof -
  let ?cat = "\<lambda>k. if k \<in> set (filter (\<lambda>k. k \<notin> set (map td_key new)) (visit (map fst old))) then None
                 else old_cat old k"
  have "?cat (td_key t) = old_cat old (td_key t)" if "t \<in> set new" for t using that by auto
  then have run: "fold run_ddl (plan_sync visit old new) (old_cat old) =
      (\<lambda>k. case schema_cat new k of None \<Rightarrow> ?cat k | Some m \<Rightarrow> Some m)"
    unfolding plan_sync_def fold_run_append run_drop_tables
    using assms(1,2) by (intro run_plan_tables) auto
  have none: "?cat k = None" if "schema_cat new k = None" for k
  proof -
    have "k \<notin> set (map td_key new)" using that by (simp add: schema_cat_None)
    moreover have "k \<in> set (map fst old) \<or> old_cat old k = None"
      by (auto simp: old_cat_def map_of_eq_None_iff)
    ultimately show ?thesis using assms(3) by auto
  qed
  show ?thesis
    unfolding run
  proof (rule ext)
    fix k
    show "(case schema_cat new k of None \<Rightarrow> ?cat k | Some m \<Rightarrow> Some m) = schema_cat new k"
      using none [of k] by (cases "schema_cat new k") simp_all
  qed
qed

section \<open>Lemmas: a changed type stops the update\<close>

definition halting :: "('w, unit) act \<Rightarrow> bool" where
  "halting m \<longleftrightarrow> (\<forall>w. \<exists>msg w'. m w = (Inl (ReplicaHalted msg), w'))"

lemma halting_bind1: "halting m \<Longrightarrow> halting (bindA m f)"
  unfolding halting_def by (metis bindA_Inl)

lemma halting_bind2: "performs log m p \<Longrightarrow> halting n \<Longrightarrow> halting (bindA m (\<lambda>_. n))"
  unfolding halting_def performs_iff by (metis bindA_Inr)

lemma halting_for:
  assumes "x \<in> set xs" "C x"
    and "\<And>x. x \<in> set xs \<Longrightarrow> C x \<Longrightarrow> halting (f x)"
    and "\<And>x. x \<in> set xs \<Longrightarrow> \<not> C x \<Longrightarrow> performs log (f x) (g x)"
  shows "halting (forA xs f)"
  using assms
proof (induction xs)
  case (Cons y ys)
  show ?case
  proof (cases "C y")
    case True
    then show ?thesis using Cons.prems(3) [of y] by (simp add: halting_bind1)
  next
    case False
    then have "halting (forA ys f)" using Cons by auto
    then show ?thesis using halting_bind2 [OF Cons.prems(4) [of y]] False by simp
  qed
qed simp

lemma halting_delta_table:
  assumes n: "notes_statements db log" and c: "type_conflict old t"
  shows "halting (delta_table db old t)"
proof -
  obtain cols p where o: "map_of old (td_key t) = Some cols" "p \<in> set cols"
    "\<exists>c \<in> set (td_columns t). cd_name c = fst p \<and> cd_type_oid c \<noteq> snd p"
    using c by (auto simp: type_conflict_def split: option.splits)
  define C where "C p \<longleftrightarrow> (\<exists>c \<in> set (td_columns t). cd_name c = fst p \<and> cd_type_oid c \<noteq> snd p)" for p
  have hal: "halting (delta_old db t q)" if "C q" for q
  proof -
    have "fst q \<in> cd_name ` set (td_columns t)" using that unfolding C_def by force
    then show ?thesis using that unfolding C_def by (simp add: halting_def delta_old_def)
  qed
  have per: "performs log (delta_old db t q)
      (if fst q \<notin> cd_name ` set (td_columns t) then [DDropColumn (td_key t) (fst q)] else [])"
    if "\<not> C q" for q
    using performs_exec [OF n, of "DDropColumn (td_key t) (fst q)"] that
    unfolding C_def by (auto simp: delta_old_def)
  have "C p" using o(3) by (simp add: C_def)
  then have "halting (forA cols (delta_old db t))"
    by (rule halting_for [OF o(2) _ hal per])
  moreover have "performs log (delta_add db t (fst ` set cols) c)
      (if cd_name c \<notin> fst ` set cols then [DAddColumn (td_key t) c] else [])" for c
    using performs_exec [OF n, of "DAddColumn (td_key t) c"] by (auto simp: delta_add_def)
  ultimately have "halting (bindA (forA (td_columns t) (delta_add db t (fst ` set cols)))
      (\<lambda>_. forA cols (delta_old db t)))"
    by (intro halting_bind2 [OF performs_for])
  then show ?thesis using o(1) by (simp add: delta_table_def)
qed

lemma halting_sync:
  assumes n: "notes_statements db log" and "t \<in> set new" "type_conflict old t"
  shows "halting (sync_tables visit db old new)"
proof -
  have "halting (forA new (delta_table db old))"
    using assms(2,3) by (intro halting_for [where C = "type_conflict old" and log = log
          and g = "plan_table old"]) (auto intro: halting_delta_table [OF n] performs_delta_table [OF n])
  moreover have "performs log (delta_drop db (set (map td_key new)) k)
      (if k \<notin> set (map td_key new) then [DDropTable k] else [])" for k
    using performs_exec [OF n, of "DDropTable k"] by (auto simp: delta_drop_def)
  ultimately show ?thesis
    unfolding sync_tables_def by (intro halting_bind2 [OF performs_for])
qed

section \<open>Copying from a server that gives its reply\<close>

text \<open>
  What \<open>copy_tables\<close> relies on: \<open>copy_out\<close> hands the chunks of the reply to the callback in order, up
  to its first failure, and a server error counts over the callback's.
\<close>

locale copy_source =
  fixes copy_out :: "'w copier" and chunks :: "string \<Rightarrow> bytes list"
    and failure :: "string \<Rightarrow> error option"
  assumes copies: "copy_out sql f s =
    (let (r, s') = forA (chunks sql) f s in (case failure sql of Some e \<Rightarrow> Inl e | None \<Rightarrow> r, s'))"

text \<open>A local database that takes every batch and notes it; a way to cut data into batches.\<close>

definition notes_copies ::
  "(string \<Rightarrow> bytes \<Rightarrow> ('w, unit) act) \<Rightarrow> ('w \<Rightarrow> (string \<times> bytes) list) \<Rightarrow> bool" where
  "notes_copies copy_in log \<longleftrightarrow>
     (\<forall>sql d w. \<exists>w'. copy_in sql d w = (Inr (), w') \<and> log w' = log w @ [(sql, d)])"

definition batching :: "bytes \<Rightarrow> bytes list \<Rightarrow> bool" where
  "batching data bs \<longleftrightarrow> concat bs = data \<and> [] \<notin> set bs \<and>
     list_all (\<lambda>b. copy_batch_bytes \<le> length b) (butlast bs)"

lemma forA_on_chunk:
  assumes "notes_copies copy_in log"
  shows "\<exists>bs b' w'. forA cs (on_chunk copy_in sql) (b, w) = (Inr (), (b', w')) \<and>
    log w' = log w @ map (Pair sql) bs \<and> concat bs @ b' = b @ concat cs \<and>
    list_all (\<lambda>b. copy_batch_bytes \<le> length b) bs"
proof (induction cs arbitrary: b w)
  case Nil
  show ?case by (rule exI [of _ "[]"], rule exI [of _ b], rule exI [of _ w]) simp
next
  case (Cons c cs)
  show ?case
  proof (cases "length (b @ c) \<ge> copy_batch_bytes")
    case True
    obtain w1 where w1: "copy_in sql (b @ c) w = (Inr (), w1)" "log w1 = log w @ [(sql, b @ c)]"
      using assms unfolding notes_copies_def by blast
    obtain bs b' w' where r: "forA cs (on_chunk copy_in sql) ([], w1) = (Inr (), (b', w'))"
      "log w' = log w1 @ map (Pair sql) bs" "concat bs @ b' = concat cs"
      "list_all (\<lambda>b. copy_batch_bytes \<le> length b) bs"
      using Cons.IH [of "[]" w1] by auto
    have "forA (c # cs) (on_chunk copy_in sql) (b, w) = (Inr (), (b', w'))"
      using True w1 r(1) by (simp add: bindA_apply on_chunk_def Let_def)
    then show ?thesis
      using True w1(2) r by (intro exI [of _ "(b @ c) # bs"] exI [of _ b'] exI [of _ w']) simp
  next
    case False
    then show ?thesis using Cons.IH [of "b @ c" w] by (simp add: bindA_apply on_chunk_def Let_def)
  qed
qed

context copy_source
begin

lemma copy_table_delivers:
  assumes n: "notes_copies copy_in log" and f: "failure (copy_out_sql t) = None"
  shows "\<exists>bs w'. copy_table copy_out copy_in t w = (Inr (), w') \<and>
    log w' = log w @ map (Pair (copy_in_sql t)) bs \<and> batching (concat (chunks (copy_out_sql t))) bs"
proof -
  obtain bs b' w1 where r:
    "forA (chunks (copy_out_sql t)) (on_chunk copy_in (copy_in_sql t)) ([], w) = (Inr (), (b', w1))"
    "log w1 = log w @ map (Pair (copy_in_sql t)) bs" "concat bs @ b' = concat (chunks (copy_out_sql t))"
    "list_all (\<lambda>b. copy_batch_bytes \<le> length b) bs"
    using forA_on_chunk [OF n, of "chunks (copy_out_sql t)" "copy_in_sql t" "[]" w] by auto
  have ne: "[] \<notin> set bs" using r(4) by (auto simp: list_all_iff copy_batch_bytes_def)
  show ?thesis
  proof (cases "b' = []")
    case True
    then have "batching (concat (chunks (copy_out_sql t))) bs"
      using r(3,4) ne by (auto simp: batching_def list_all_iff dest: in_set_butlastD)
    then show ?thesis using True r f by (auto simp: copy_table_def copies)
  next
    case False
    obtain w2 where w2: "copy_in (copy_in_sql t) b' w1 = (Inr (), w2)"
      "log w2 = log w1 @ [(copy_in_sql t, b')]"
      using n unfolding notes_copies_def by blast
    have "batching (concat (chunks (copy_out_sql t))) (bs @ [b'])"
      using r(3,4) ne False by (simp add: batching_def)
    then show ?thesis
      using False r(1,2) w2 f
      by (intro exI [of _ "bs @ [b']"] exI [of _ w2]) (simp add: copy_table_def copies)
  qed
qed

lemma copy_tables_deliver:
  assumes n: "notes_copies copy_in log" and f: "\<forall>t \<in> set tables. failure (copy_out_sql t) = None"
  shows "\<exists>bss w'. copy_tables copy_out copy_in tables w = (Inr (), w') \<and>
    log w' = log w @ concat (map2 (\<lambda>t. map (Pair (copy_in_sql t))) tables bss) \<and>
    list_all2 (\<lambda>t. batching (concat (chunks (copy_out_sql t)))) tables bss"
  using f
proof (induction tables arbitrary: w)
  case Nil
  then show ?case by (intro exI [of _ "[]"]) (simp add: copy_tables_def)
next
  case (Cons t ts)
  obtain bs w1 where 1: "copy_table copy_out copy_in t w = (Inr (), w1)"
    "log w1 = log w @ map (Pair (copy_in_sql t)) bs" "batching (concat (chunks (copy_out_sql t))) bs"
    using copy_table_delivers [OF n, of t w] Cons.prems by auto
  obtain bss w' where 2: "copy_tables copy_out copy_in ts w1 = (Inr (), w')"
    "log w' = log w1 @ concat (map2 (\<lambda>t. map (Pair (copy_in_sql t))) ts bss)"
    "list_all2 (\<lambda>t. batching (concat (chunks (copy_out_sql t)))) ts bss"
    using Cons.IH [of w1] Cons.prems by auto
  show ?case
    using 1 2 by (intro exI [of _ "bs # bss"] exI [of _ w']) (simp add: copy_tables_def bindA_apply)
qed

end

text \<open>
  \<open>ReplConn::copy_out\<close> against a server whose reply to each query is given: the loop of \<open>Wire\<close> over that
  reply.
\<close>

definition wire_copy_out :: "(string \<Rightarrow> backend_msg list) \<Rightarrow> 'w copier" where
  "wire_copy_out reply sql f s =
     (case copy_out_loop f (map Inr (filter copy_part (reply sql)) @ [Inr ReadyForQuery]) None s of
        Some ((r, _), s') \<Rightarrow> (r, s')
      | None \<Rightarrow> (Inl Closed, s))"

interpretation wire: copy_source "wire_copy_out reply"
  "\<lambda>sql. copy_chunks (filter copy_part (reply sql))" "\<lambda>sql. last_error (filter copy_part (reply sql))"
  for reply
  by unfold_locales
    (simp add: wire_copy_out_def copy_out_loop_reply list_all_iff Let_def split: prod.split)

section \<open>Properties\<close>

text \<open>
  C20. The initial copy is lossless: over a server that answers without an error, every table's
  rows reach the local database in batches that together are exactly the bytes the server sent, in
  order, into the same table and columns, no batch empty and every one but the last of at least one
  mebibyte.
\<close>

theorem copy_tables_lossless:
  assumes "notes_copies copy_in log"
    and "\<forall>t \<in> set tables. last_error (filter copy_part (reply (copy_out_sql t))) = None"
  shows "\<exists>bss w'. copy_tables (wire_copy_out reply) copy_in tables w = (Inr (), w') \<and>
    log w' = log w @ concat (map2 (\<lambda>t. map (Pair (copy_in_sql t))) tables bss) \<and>
    list_all2 (\<lambda>t. batching (concat (copy_chunks (filter copy_part (reply (copy_out_sql t)))))) tables bss"
  by (rule wire.copy_tables_deliver [OF assms])

theorem copy_tables_lossless_witness:
  "\<exists>bss w'. copy_tables (wire_copy_out (\<lambda>_. [CopyOutResponse, CopyData [49, 10], CopyData [50, 10], CopyDone]))
      (\<lambda>sql d w. (Inr (), w @ [(sql, d)])) [sample_table] [] = (Inr (), w') \<and>
    w' = concat (map2 (\<lambda>t. map (Pair (copy_in_sql t))) [sample_table] bss) \<and>
    list_all2 (\<lambda>t. batching [49, 10, 50, 10]) [sample_table] bss"
proof -
  have "notes_copies (\<lambda>sql d w. (Inr (), w @ [(sql, d)])) (\<lambda>w. w)" by (simp add: notes_copies_def)
  from copy_tables_lossless [OF this, of "[sample_table]"
      "\<lambda>_. [CopyOutResponse, CopyData [49, 10], CopyData [50, 10], CopyDone]" "[]"]
  show ?thesis by (simp add: last_error_def copy_chunks_def)
qed


definition note_db :: "string list db_ops" where
  "note_db = \<lparr>db_exec = (\<lambda>sql w. (Inr (), w @ [sql])), db_query = (\<lambda>sql ps w. (Inr [], w @ [sql]))\<rparr>"

lemma notes_note_db: "notes_statements note_db (\<lambda>w. w)"
  by (simp add: notes_statements_def note_db_def)


text \<open>
  A kept column that changed its type halts the replica: the update then ends in the error
  that asks for a full resync, and otherwise it does not fail.
\<close>

theorem schema_delta_halts:
  assumes "notes_statements db log"
  shows "(\<exists>t \<in> set new. type_conflict old t) \<longleftrightarrow>
    (\<exists>m. fst (sync_tables visit db old new w) = Inl (ReplicaHalted m))"
proof
  assume "\<exists>t \<in> set new. type_conflict old t"
  then show "\<exists>m. fst (sync_tables visit db old new w) = Inl (ReplicaHalted m)"
    using halting_sync [OF assms] unfolding halting_def by (metis fst_conv)
next
  assume h: "\<exists>m. fst (sync_tables visit db old new w) = Inl (ReplicaHalted m)"
  show "\<exists>t \<in> set new. type_conflict old t"
  proof (rule ccontr)
    assume "\<not> (\<exists>t \<in> set new. type_conflict old t)"
    then have "\<exists>w'. sync_tables visit db old new w = (Inr (), w')"
      using performs_sync [OF assms, of new old visit] unfolding performs_iff by blast
    then show False using h by auto
  qed
qed

theorem schema_delta_halts_witness:
  "\<exists>m. fst (sync_tables rev note_db [((''public'', ''users''), [(''id'', 20)])] [sample_table] []) =
     Inl (ReplicaHalted m)"
  using schema_delta_halts [OF notes_note_db, of "[sample_table]" "[((''public'', ''users''), [(''id'', 20)])]" rev "[]"]
  by (simp add: type_conflict_def sample_table_def td_key_def)

end
