(* ===== verification/Security.thy ===== *)
theory Security
  imports Introspect
begin

text \<open>
  \<^verbatim>\<open>replica/backfill.rs\<close>, access control: reading roles, memberships, row-level-security flags,
  grants and policies of the published tables from the upstream (\<open>introspect_security\<close>), their
  fingerprint, and making the local database match (\<open>reconcile_security\<close>). The properties follow the
  statements through an abstract security state.
\<close>

section \<open>Data\<close>

record role_def =
  ro_name :: string
  ro_inherit :: bool

record membership =
  me_grp :: string
  me_member :: string
  me_admin :: bool

record rls_flag =
  rl_schema :: string
  rl_table :: string
  rl_enabled :: bool
  rl_forced :: bool

record table_grant =
  gr_schema :: string
  gr_table :: string
  gr_grantee :: string

record policy_def =
  po_schema :: string
  po_table :: string
  po_name :: string
  po_permissive :: bool
  po_cmd :: string
  po_roles :: "string list"
  po_using :: "string option"
  po_check :: "string option"

record security_catalog =
  sc_roles :: "role_def list"
  sc_memberships :: "membership list"
  sc_tables :: "rls_flag list"
  sc_grants :: "table_grant list"
  sc_policies :: "policy_def list"

section \<open>Reading the upstream catalog\<close>

definition roles_sql :: string where
  "roles_sql = concat
     [''SELECT rolname::text, rolinherit::int FROM pg_roles WHERE oid >= 16384 ORDER BY '',
      ''rolname'']"

definition members_sql :: string where
  "members_sql = concat
     [''SELECT g.rolname::text, m.rolname::text, am.admin_option::int FROM pg_auth_members '',
      ''am JOIN pg_roles g ON g.oid = am.roleid JOIN pg_roles m ON m.oid = am.member WHERE '',
      ''g.oid >= 16384 AND m.oid >= 16384 ORDER BY 1, 2'']"

definition rls_sql :: "string \<Rightarrow> string" where
  "rls_sql pub_lit = concat
     [''SELECT n.nspname::text, c.relname::text, c.relrowsecurity::int, '',
      ''c.relforcerowsecurity::int FROM pg_publication_tables pt JOIN pg_namespace n ON '',
      ''n.nspname = pt.schemaname JOIN pg_class c ON c.relnamespace = n.oid AND c.relname = '',
      ''pt.tablename WHERE pt.pubname = '',
      pub_lit,
      '' ORDER BY 1, 2'']"

definition grants_sql :: "string \<Rightarrow> string" where
  "grants_sql pub_lit = concat
     [''SELECT g.table_schema::text, g.table_name::text, g.grantee::text FROM '',
      ''information_schema.role_table_grants g JOIN pg_publication_tables pt ON '',
      ''pt.schemaname = g.table_schema AND pt.tablename = g.table_name WHERE pt.pubname = '',
      pub_lit,
      sqlq '' AND g.privilege_type = `SELECT` AND (g.grantee = `PUBLIC` OR g.grantee IN (SELECT '',
      ''rolname FROM pg_roles WHERE oid >= 16384)) ORDER BY 1, 2, 3'']"

definition policies_sql :: "string \<Rightarrow> string" where
  "policies_sql pub_lit = concat
     [''SELECT p.schemaname::text, p.tablename::text, p.policyname::text, (p.permissive = '',
      sqlq ''`PERMISSIVE`)::int, p.cmd::text, array_to_string(p.roles, `,`)::text, p.qual::text, '',
      ''p.with_check::text FROM pg_policies p JOIN pg_publication_tables pt ON '',
      ''pt.schemaname = p.schemaname AND pt.tablename = p.tablename WHERE pt.pubname = '',
      pub_lit,
      '' ORDER BY 1, 2, 3'']"

definition role_of_row :: "sql_row \<Rightarrow> role_def" where
  "role_of_row row = \<lparr>ro_name = cell_str 0 row, ro_inherit = (cell_at 1 row = Some ''1'')\<rparr>"

definition member_of_row :: "sql_row \<Rightarrow> membership" where
  "member_of_row row =
     \<lparr>me_grp = cell_str 0 row, me_member = cell_str 1 row, me_admin = (cell_at 2 row = Some ''1'')\<rparr>"

definition rls_of_row :: "sql_row \<Rightarrow> rls_flag" where
  "rls_of_row row =
     \<lparr>rl_schema = cell_str 0 row, rl_table = cell_str 1 row,
      rl_enabled = (cell_at 2 row = Some ''1''), rl_forced = (cell_at 3 row = Some ''1'')\<rparr>"

definition grant_of_row :: "sql_row \<Rightarrow> table_grant" where
  "grant_of_row row =
     \<lparr>gr_schema = cell_str 0 row, gr_table = cell_str 1 row, gr_grantee = cell_str 2 row\<rparr>"

definition policy_of_row :: "sql_row \<Rightarrow> policy_def" where
  "policy_of_row row =
     \<lparr>po_schema = cell_str 0 row, po_table = cell_str 1 row, po_name = cell_str 2 row,
      po_permissive = (cell_at 3 row = Some ''1''), po_cmd = cell_str 4 row,
      po_roles = filter (\<lambda>s. s \<noteq> []) (split_on CHR '','' (cell_str 5 row)),
      po_using = cell_at 6 row, po_check = cell_at 7 row\<rparr>"

definition introspect_security ::
  "(string \<Rightarrow> ('w, sql_row list) act) \<Rightarrow> string \<Rightarrow> ('w, security_catalog) act" where
  "introspect_security query publication =
     (let pub_lit = lit publication in
      bindA (query roles_sql) (\<lambda>role_rows.
      bindA (query members_sql) (\<lambda>member_rows.
      bindA (query (rls_sql pub_lit)) (\<lambda>table_rows.
      bindA (query (grants_sql pub_lit)) (\<lambda>grant_rows.
      bindA (query (policies_sql pub_lit)) (\<lambda>policy_rows.
        retA \<lparr>sc_roles = map role_of_row role_rows, sc_memberships = map member_of_row member_rows,
              sc_tables = map rls_of_row table_rows, sc_grants = map grant_of_row grant_rows,
              sc_policies = map policy_of_row policy_rows\<rparr>))))))"

section \<open>Fingerprint\<close>

definition bit_str :: "bool \<Rightarrow> string" where
  "bit_str b = (if b then ''1'' else ''0'')"

definition opt_str :: "string option \<Rightarrow> string" where
  "opt_str v = (case v of None \<Rightarrow> [] | Some s \<Rightarrow> s)"

definition role_line :: "role_def \<Rightarrow> string" where
  "role_line r = join_str ''|'' [''role'', ro_name r, bit_str (ro_inherit r)]"

definition member_line :: "membership \<Rightarrow> string" where
  "member_line m = join_str ''|'' [''member'', me_grp m, me_member m, bit_str (me_admin m)]"

definition rls_line :: "rls_flag \<Rightarrow> string" where
  "rls_line t = join_str ''|''
     [''rls'', rl_schema t, rl_table t, bit_str (rl_enabled t), bit_str (rl_forced t)]"

definition grant_line :: "table_grant \<Rightarrow> string" where
  "grant_line g = join_str ''|'' [''grant'', gr_schema g, gr_table g, gr_grantee g]"

definition policy_line :: "policy_def \<Rightarrow> string" where
  "policy_line p = join_str ''|''
     [''policy'', po_schema p, po_table p, po_name p, bit_str (po_permissive p), po_cmd p,
      join_str '','' (po_roles p), opt_str (po_using p), opt_str (po_check p)]"

definition security_fingerprint :: "security_catalog \<Rightarrow> string" where
  "security_fingerprint sec =
     join_str [nl] (sort
       (map role_line (sc_roles sec) @ map member_line (sc_memberships sec) @
        map rls_line (sc_tables sec) @ map grant_line (sc_grants sec) @
        map policy_line (sc_policies sec)))"

section \<open>Making the local database match\<close>

definition create_policy_sql :: "policy_def \<Rightarrow> string \<Rightarrow> string" where
  "create_policy_sql p tgt =
     ''CREATE POLICY '' @ ident (po_name p) @ '' ON '' @ tgt @ '' AS '' @
     (if po_permissive p then ''PERMISSIVE'' else ''RESTRICTIVE'') @ '' FOR '' @ po_cmd p @ '' TO '' @
     (if ''public'' \<in> set (po_roles p) then ''PUBLIC'' else join_str '', '' (map ident (po_roles p))) @
     (case po_using p of None \<Rightarrow> [] | Some e \<Rightarrow> '' USING ('' @ e @ '')'') @
     (case po_check p of None \<Rightarrow> [] | Some e \<Rightarrow> '' WITH CHECK ('' @ e @ '')'')"

definition local_roles_sql :: string where
  "local_roles_sql = ''SELECT rolname FROM pg_roles WHERE oid >= 16384''"

definition local_members_sql :: string where
  "local_members_sql = concat
     [''SELECT g.rolname, m.rolname FROM pg_auth_members am JOIN pg_roles g ON g.oid = '',
      ''am.roleid JOIN pg_roles m ON m.oid = am.member WHERE g.oid >= 16384 AND m.oid >= '',
      ''16384'']"

definition local_policies_sql :: string where
  "local_policies_sql = ''SELECT policyname FROM pg_policies WHERE schemaname = $1 AND tablename = $2''"

definition do_query :: "'w db_ops \<Rightarrow> string \<Rightarrow> ('w, unit) act" where
  "do_query db sql = bindA (db_query db sql []) (\<lambda>_. retA ())"

fun first_cells :: "sql_row list \<Rightarrow> string list res" where
  "first_cells [] = Inr []"
| "first_cells (row # rows) =
     bindR (get_str 0 row) (\<lambda>s. bindR (first_cells rows) (\<lambda>ss. Inr (s # ss)))"

definition sync_role :: "'w db_ops \<Rightarrow> string list \<Rightarrow> role_def \<Rightarrow> ('w, unit) act" where
  "sync_role db have_list r =
     bindA (if ro_name r \<notin> set have_list
            then do_query db (''CREATE ROLE '' @ ident (ro_name r) @ '' NOLOGIN NOBYPASSRLS'')
            else retA ()) (\<lambda>_.
       do_query db (''ALTER ROLE '' @ ident (ro_name r) @ '' WITH NOLOGIN NOBYPASSRLS '' @
         (if ro_inherit r then ''INHERIT'' else ''NOINHERIT'')))"

fun push_names :: "string list \<Rightarrow> string list \<Rightarrow> string list" where
  "push_names have_list [] = have_list"
| "push_names have_list (n # ns) = push_names (if n \<in> set have_list then have_list else have_list @ [n]) ns"

definition revoke_member :: "'w db_ops \<Rightarrow> sql_row \<Rightarrow> ('w, unit) act" where
  "revoke_member db row =
     bindA (liftA (get_str 0 row)) (\<lambda>grp. bindA (liftA (get_str 1 row)) (\<lambda>member.
       do_query db (''REVOKE '' @ ident grp @ '' FROM '' @ ident member)))"

definition grant_member :: "'w db_ops \<Rightarrow> membership \<Rightarrow> ('w, unit) act" where
  "grant_member db m =
     do_query db (''GRANT '' @ ident (me_grp m) @ '' TO '' @ ident (me_member m) @
       (if me_admin m then '' WITH ADMIN OPTION'' else []))"

definition rl_target :: "rls_flag \<Rightarrow> string" where
  "rl_target t = target_of (rl_schema t) (rl_table t)"

definition sync_rls :: "'w db_ops \<Rightarrow> rls_flag \<Rightarrow> ('w, unit) act" where
  "sync_rls db t =
     (if rl_enabled t
      then bindA (do_query db (''ALTER TABLE '' @ rl_target t @ '' ENABLE ROW LEVEL SECURITY'')) (\<lambda>_.
             do_query db (''ALTER TABLE '' @ rl_target t @ '' FORCE ROW LEVEL SECURITY''))
      else bindA (do_query db (''ALTER TABLE '' @ rl_target t @ '' NO FORCE ROW LEVEL SECURITY'')) (\<lambda>_.
             do_query db (''ALTER TABLE '' @ rl_target t @ '' DISABLE ROW LEVEL SECURITY'')))"

definition grantee_sql :: "string \<Rightarrow> string" where
  "grantee_sql g = (if g = ''PUBLIC'' then ''PUBLIC'' else ident g)"

definition sync_grants :: "'w db_ops \<Rightarrow> string list \<Rightarrow> table_grant list \<Rightarrow> rls_flag \<Rightarrow> ('w, unit) act" where
  "sync_grants db have_list grants t =
     bindA (do_query db (''REVOKE SELECT ON '' @ rl_target t @ '' FROM PUBLIC'')) (\<lambda>_.
     bindA (forA have_list (\<lambda>name.
              do_query db (''REVOKE SELECT ON '' @ rl_target t @ '' FROM '' @ ident name))) (\<lambda>_.
       forA (filter (\<lambda>g. gr_schema g = rl_schema t \<and> gr_table g = rl_table t) grants) (\<lambda>g.
         do_query db (''GRANT SELECT ON '' @ rl_target t @ '' TO '' @ grantee_sql (gr_grantee g)))))"

definition drop_policy :: "'w db_ops \<Rightarrow> rls_flag \<Rightarrow> sql_row \<Rightarrow> ('w, unit) act" where
  "drop_policy db t row =
     bindA (liftA (get_str 0 row)) (\<lambda>pol.
       do_query db (''DROP POLICY IF EXISTS '' @ ident pol @ '' ON '' @ rl_target t))"

definition sync_policies :: "'w db_ops \<Rightarrow> policy_def list \<Rightarrow> rls_flag \<Rightarrow> ('w, unit) act" where
  "sync_policies db policies t =
     bindA (db_query db local_policies_sql [rl_schema t, rl_table t]) (\<lambda>existing.
     bindA (forA existing (drop_policy db t)) (\<lambda>_.
       forA (filter (\<lambda>p. po_schema p = rl_schema t \<and> po_table p = rl_table t) policies) (\<lambda>p.
         do_query db (create_policy_sql p (rl_target t)))))"

definition sync_table_security ::
  "'w db_ops \<Rightarrow> string list \<Rightarrow> security_catalog \<Rightarrow> rls_flag \<Rightarrow> ('w, unit) act" where
  "sync_table_security db have_list sec t =
     bindA (sync_rls db t) (\<lambda>_.
     bindA (sync_grants db have_list (sc_grants sec) t) (\<lambda>_.
       sync_policies db (sc_policies sec) t))"

definition reconcile_security :: "'w db_ops \<Rightarrow> security_catalog \<Rightarrow> ('w, unit) act" where
  "reconcile_security db sec =
     bindA (db_query db local_roles_sql []) (\<lambda>existing_roles.
     bindA (liftA (first_cells existing_roles)) (\<lambda>have_list.
     bindA (forA (sc_roles sec) (sync_role db have_list)) (\<lambda>_.
     let have_list = push_names have_list (map ro_name (sc_roles sec)) in
     bindA (db_query db local_members_sql []) (\<lambda>local_members.
     bindA (forA local_members (revoke_member db)) (\<lambda>_.
     bindA (forA (sc_memberships sec) (grant_member db)) (\<lambda>_.
       forA (sc_tables sec) (sync_table_security db have_list sec)))))))"

section \<open>The security state\<close>

text \<open>
  The statements as data with their texts, and what each does to the roles (with INHERIT), the
  memberships (with ADMIN), and for each table the row security, the readers (\<open>None\<close> is PUBLIC) and the
  policies by name.
\<close>

type_synonym table_key = "string \<times> string"

datatype sec_stmt =
    SCreateRole string
  | SAlterRole string bool
  | SRevokeRole string string
  | SGrantRole string string bool
  | SEnable table_key
  | SForce table_key
  | SNoForce table_key
  | SDisable table_key
  | SRevokePublic table_key
  | SRevoke table_key string
  | SGrant table_key string
  | SDropPolicy table_key string
  | SCreatePolicy policy_def

definition key_target :: "table_key \<Rightarrow> string" where
  "key_target k = target_of (fst k) (snd k)"

definition po_key :: "policy_def \<Rightarrow> table_key" where
  "po_key p = (po_schema p, po_table p)"

definition rl_key :: "rls_flag \<Rightarrow> table_key" where
  "rl_key t = (rl_schema t, rl_table t)"

fun srender :: "sec_stmt \<Rightarrow> string" where
  "srender (SCreateRole r) = ''CREATE ROLE '' @ ident r @ '' NOLOGIN NOBYPASSRLS''"
| "srender (SAlterRole r i) = ''ALTER ROLE '' @ ident r @ '' WITH NOLOGIN NOBYPASSRLS '' @
     (if i then ''INHERIT'' else ''NOINHERIT'')"
| "srender (SRevokeRole g m) = ''REVOKE '' @ ident g @ '' FROM '' @ ident m"
| "srender (SGrantRole g m a) = ''GRANT '' @ ident g @ '' TO '' @ ident m @
     (if a then '' WITH ADMIN OPTION'' else [])"
| "srender (SEnable k) = ''ALTER TABLE '' @ key_target k @ '' ENABLE ROW LEVEL SECURITY''"
| "srender (SForce k) = ''ALTER TABLE '' @ key_target k @ '' FORCE ROW LEVEL SECURITY''"
| "srender (SNoForce k) = ''ALTER TABLE '' @ key_target k @ '' NO FORCE ROW LEVEL SECURITY''"
| "srender (SDisable k) = ''ALTER TABLE '' @ key_target k @ '' DISABLE ROW LEVEL SECURITY''"
| "srender (SRevokePublic k) = ''REVOKE SELECT ON '' @ key_target k @ '' FROM PUBLIC''"
| "srender (SRevoke k r) = ''REVOKE SELECT ON '' @ key_target k @ '' FROM '' @ ident r"
| "srender (SGrant k g) = ''GRANT SELECT ON '' @ key_target k @ '' TO '' @ grantee_sql g"
| "srender (SDropPolicy k n) = ''DROP POLICY IF EXISTS '' @ ident n @ '' ON '' @ key_target k"
| "srender (SCreatePolicy p) = create_policy_sql p (key_target (po_key p))"

record sec_state =
  ss_roles :: "string \<rightharpoonup> bool"
  ss_members :: "string \<times> string \<rightharpoonup> bool"
  ss_rls :: "table_key \<Rightarrow> bool \<times> bool"
  ss_readers :: "table_key \<Rightarrow> string option set"
  ss_policies :: "table_key \<Rightarrow> (string \<rightharpoonup> policy_def)"

definition reader :: "string \<Rightarrow> string option" where
  "reader g = (if g = ''PUBLIC'' then None else Some g)"

fun run_sec :: "sec_stmt \<Rightarrow> sec_state \<Rightarrow> sec_state" where
  "run_sec (SCreateRole r) st = st\<lparr>ss_roles := (ss_roles st)(r \<mapsto> True)\<rparr>"
| "run_sec (SAlterRole r i) st = st\<lparr>ss_roles := (ss_roles st)(r \<mapsto> i)\<rparr>"
| "run_sec (SRevokeRole g m) st = st\<lparr>ss_members := (ss_members st)((g, m) := None)\<rparr>"
| "run_sec (SGrantRole g m a) st = st\<lparr>ss_members := (ss_members st)((g, m) \<mapsto> a)\<rparr>"
| "run_sec (SEnable k) st = st\<lparr>ss_rls := (ss_rls st)(k := (True, snd (ss_rls st k)))\<rparr>"
| "run_sec (SForce k) st = st\<lparr>ss_rls := (ss_rls st)(k := (fst (ss_rls st k), True))\<rparr>"
| "run_sec (SNoForce k) st = st\<lparr>ss_rls := (ss_rls st)(k := (fst (ss_rls st k), False))\<rparr>"
| "run_sec (SDisable k) st = st\<lparr>ss_rls := (ss_rls st)(k := (False, snd (ss_rls st k)))\<rparr>"
| "run_sec (SRevokePublic k) st = st\<lparr>ss_readers := (ss_readers st)(k := ss_readers st k - {None})\<rparr>"
| "run_sec (SRevoke k r) st = st\<lparr>ss_readers := (ss_readers st)(k := ss_readers st k - {Some r})\<rparr>"
| "run_sec (SGrant k g) st = st\<lparr>ss_readers := (ss_readers st)(k := insert (reader g) (ss_readers st k))\<rparr>"
| "run_sec (SDropPolicy k n) st =
     st\<lparr>ss_policies := (ss_policies st)(k := (ss_policies st k)(n := None))\<rparr>"
| "run_sec (SCreatePolicy p) st =
     st\<lparr>ss_policies := (ss_policies st)(po_key p := (ss_policies st (po_key p))(po_name p \<mapsto> p))\<rparr>"

definition plan_role :: "string list \<Rightarrow> role_def \<Rightarrow> sec_stmt list" where
  "plan_role known r =
     (if ro_name r \<notin> set known then [SCreateRole (ro_name r)] else []) @
     [SAlterRole (ro_name r) (ro_inherit r)]"

definition grants_of :: "security_catalog \<Rightarrow> table_key \<Rightarrow> table_grant list" where
  "grants_of sec k = filter (\<lambda>g. gr_schema g = fst k \<and> gr_table g = snd k) (sc_grants sec)"

definition policies_of :: "security_catalog \<Rightarrow> table_key \<Rightarrow> policy_def list" where
  "policies_of sec k = filter (\<lambda>p. po_schema p = fst k \<and> po_table p = snd k) (sc_policies sec)"

definition plan_table_sec ::
  "string list \<Rightarrow> security_catalog \<Rightarrow> (table_key \<Rightarrow> string list) \<Rightarrow> rls_flag \<Rightarrow> sec_stmt list" where
  "plan_table_sec known sec pols t =
     (let k = rl_key t in
      (if rl_enabled t then [SEnable k, SForce k] else [SNoForce k, SDisable k]) @
      [SRevokePublic k] @ map (SRevoke k) known @ map (\<lambda>g. SGrant k (gr_grantee g)) (grants_of sec k) @
      map (SDropPolicy k) (pols k) @ map SCreatePolicy (policies_of sec k))"

definition plan_security ::
  "string list \<Rightarrow> (string \<times> string) list \<Rightarrow> (table_key \<Rightarrow> string list) \<Rightarrow> security_catalog \<Rightarrow>
     sec_stmt list" where
  "plan_security roles members pols sec =
     concat (map (plan_role roles) (sc_roles sec)) @
     map (\<lambda>(g, m). SRevokeRole g m) members @
     map (\<lambda>m. SGrantRole (me_grp m) (me_member m) (me_admin m)) (sc_memberships sec) @
     concat (map (plan_table_sec (push_names roles (map ro_name (sc_roles sec))) sec pols) (sc_tables sec))"

text \<open>
  A database that performs and notes every statement and answers the three catalog queries with the
  given roles, memberships and policy names.
\<close>

definition security_db ::
  "'w db_ops \<Rightarrow> ('w \<Rightarrow> string list) \<Rightarrow> string list \<Rightarrow> (string \<times> string) list \<Rightarrow>
     (table_key \<Rightarrow> string list) \<Rightarrow> bool" where
  "security_db db log roles members pols \<longleftrightarrow>
     (\<forall>w. db_query db local_roles_sql [] w = (Inr (map (\<lambda>r. [Some r]) roles), w)) \<and>
     (\<forall>w. db_query db local_members_sql [] w = (Inr (map (\<lambda>(g, m). [Some g, Some m]) members), w)) \<and>
     (\<forall>s t w. db_query db local_policies_sql [s, t] w = (Inr (map (\<lambda>p. [Some p]) (pols (s, t))), w)) \<and>
     (\<forall>sql w. take 6 sql \<noteq> ''SELECT'' \<longrightarrow>
        (\<exists>rows w'. db_query db sql [] w = (Inr rows, w') \<and> log w' = log w @ [sql]))"

section \<open>Lemmas: the code performs the plan\<close>

lemma srender_not_select: "take 6 (srender s) \<noteq> ''SELECT''"
  by (cases s) (simp_all add: create_policy_sql_def)

lemma writes_stmt:
  assumes "security_db db log roles members pols"
  shows "writes log (do_query db (srender s)) [srender s]"
proof -
  have "\<exists>w'. do_query db (srender s) w = (Inr (), w') \<and> log w' = log w @ [srender s]" for w
  proof -
    obtain rows w' where "db_query db (srender s) [] w = (Inr rows, w')" "log w' = log w @ [srender s]"
      using assms srender_not_select unfolding security_db_def by blast
    then show ?thesis by (simp add: do_query_def bindA_apply)
  qed
  then show ?thesis by (simp add: writes_def)
qed

lemma first_cells_some [simp]: "first_cells (map (\<lambda>r. [Some r]) rs) = Inr rs"
  by (induction rs) (simp_all add: get_str_def)

lemma writes_role:
  assumes "security_db db log roles members pols"
  shows "writes log (sync_role db known r) (map srender (plan_role known r))"
  using writes_bind [OF writes_stmt [OF assms, of "SCreateRole (ro_name r)"]
      writes_stmt [OF assms, of "SAlterRole (ro_name r) (ro_inherit r)"]]
    writes_stmt [OF assms, of "SAlterRole (ro_name r) (ro_inherit r)"]
  by (simp add: sync_role_def plan_role_def)

lemma map_by_concat: "map f xs = concat (map (\<lambda>x. [f x]) xs)"
  by (induction xs) simp_all

lemma writes_for1:
  assumes "\<And>x. x \<in> set xs \<Longrightarrow> writes log (f x) [g x]"
  shows "writes log (forA xs f) (map g xs)"
  unfolding map_by_concat [of g] using assms by (rule writes_for)

lemma rl_target_key: "rl_target t = key_target (rl_key t)"
  by (simp add: rl_target_def key_target_def rl_key_def)

lemma writes_rls:
  assumes "security_db db log roles members pols"
  shows "writes log (sync_rls db t) (map srender
    (if rl_enabled t then [SEnable (rl_key t), SForce (rl_key t)] else [SNoForce (rl_key t), SDisable (rl_key t)]))"
  using writes_bind [OF writes_stmt [OF assms, of "SEnable (rl_key t)"] writes_stmt [OF assms, of "SForce (rl_key t)"]]
    writes_bind [OF writes_stmt [OF assms, of "SNoForce (rl_key t)"] writes_stmt [OF assms, of "SDisable (rl_key t)"]]
  by (simp add: sync_rls_def rl_target_key)

lemma writes_grants:
  assumes "security_db db log roles members pols"
  shows "writes log (sync_grants db known (sc_grants sec) t) (map srender ([SRevokePublic (rl_key t)] @
    map (SRevoke (rl_key t)) known @ map (\<lambda>g. SGrant (rl_key t) (gr_grantee g)) (grants_of sec (rl_key t))))"
proof -
  have r: "writes log (forA known (\<lambda>n. do_query db (srender (SRevoke (rl_key t) n))))
      (map (\<lambda>n. srender (SRevoke (rl_key t) n)) known)"
    by (rule writes_for1) (rule writes_stmt [OF assms])
  have g: "writes log (forA (grants_of sec (rl_key t)) (\<lambda>g. do_query db (srender (SGrant (rl_key t) (gr_grantee g)))))
      (map (\<lambda>g. srender (SGrant (rl_key t) (gr_grantee g))) (grants_of sec (rl_key t)))"
    by (rule writes_for1) (rule writes_stmt [OF assms])
  from writes_bind [OF writes_stmt [OF assms, of "SRevokePublic (rl_key t)"] writes_bind [OF r g]]
  show ?thesis
    by (simp add: sync_grants_def grants_of_def rl_key_def rl_target_key comp_def)
qed

lemma writes_policies:
  assumes "security_db db log roles members pols"
  shows "writes log (sync_policies db (sc_policies sec) t) (map srender
    (map (SDropPolicy (rl_key t)) (pols (rl_key t)) @ map SCreatePolicy (policies_of sec (rl_key t))))"
proof -
  have d: "writes log (forA (map (\<lambda>p. [Some p]) (pols (rl_key t))) (drop_policy db t))
      (map (\<lambda>n. srender (SDropPolicy (rl_key t) n)) (pols (rl_key t)))"
  proof -
    have "forA (map (\<lambda>p. [Some p]) ps) (drop_policy db t) =
        forA ps (\<lambda>p. do_query db (srender (SDropPolicy (rl_key t) p)))" for ps
      by (induction ps) (simp_all add: drop_policy_def get_str_def rl_target_key liftA_def)
    moreover have "writes log (forA (pols (rl_key t)) (\<lambda>p. do_query db (srender (SDropPolicy (rl_key t) p))))
        (map (\<lambda>n. srender (SDropPolicy (rl_key t) n)) (pols (rl_key t)))"
      by (rule writes_for1) (rule writes_stmt [OF assms])
    ultimately show ?thesis by simp
  qed
  have "writes log (do_query db (create_policy_sql p (rl_target t))) [srender (SCreatePolicy p)]"
    if "p \<in> set (policies_of sec (rl_key t))" for p
    using writes_stmt [OF assms, of "SCreatePolicy p"] that
    by (simp add: policies_of_def rl_target_key po_key_def rl_key_def)
  then have c: "writes log (forA (policies_of sec (rl_key t)) (\<lambda>p. do_query db (create_policy_sql p (rl_target t))))
      (map (\<lambda>p. srender (SCreatePolicy p)) (policies_of sec (rl_key t)))"
    by (rule writes_for1)
  have q: "db_query db local_policies_sql [rl_schema t, rl_table t] w =
      (Inr (map (\<lambda>p. [Some p]) (pols (rl_key t))), w)" for w
    using assms by (simp add: security_db_def rl_key_def)
  from writes_bind [OF d c] show ?thesis
    unfolding writes_def sync_policies_def
    by (simp add: bindA_apply [of "db_query db local_policies_sql _"] q policies_of_def rl_key_def comp_def)
qed

lemma writes_table:
  assumes "security_db db log roles members pols"
  shows "writes log (sync_table_security db known sec t) (map srender (plan_table_sec known sec pols t))"
  using writes_bind [OF writes_rls [OF assms, of t] writes_bind [OF writes_grants [OF assms, of known sec t]
        writes_policies [OF assms, of sec t]]]
  by (simp add: sync_table_security_def plan_table_sec_def Let_def)

lemma writes_reconcile:
  assumes "security_db db log roles members pols"
  shows "writes log (reconcile_security db sec) (map srender (plan_security roles members pols sec))"
proof -
  let ?known = "push_names roles (map ro_name (sc_roles sec))"
  have r: "writes log (forA (sc_roles sec) (sync_role db roles))
      (concat (map (\<lambda>r. map srender (plan_role roles r)) (sc_roles sec)))"
    by (rule writes_for) (rule writes_role [OF assms])
  have v: "writes log (forA (map (\<lambda>(g, m). [Some g, Some m]) members) (revoke_member db))
      (map (\<lambda>p. srender (SRevokeRole (fst p) (snd p))) members)"
  proof -
    have "forA (map (\<lambda>(g, m). [Some g, Some m]) ps) (revoke_member db) =
        forA ps (\<lambda>p. do_query db (srender (SRevokeRole (fst p) (snd p))))" for ps
      by (induction ps) (auto simp: revoke_member_def get_str_def liftA_def)
    moreover have "writes log (forA members (\<lambda>p. do_query db (srender (SRevokeRole (fst p) (snd p)))))
        (map (\<lambda>p. srender (SRevokeRole (fst p) (snd p))) members)"
      by (rule writes_for1) (rule writes_stmt [OF assms])
    ultimately show ?thesis by simp
  qed
  have "writes log (grant_member db m) [srender (SGrantRole (me_grp m) (me_member m) (me_admin m))]" for m
    using writes_stmt [OF assms, of "SGrantRole (me_grp m) (me_member m) (me_admin m)"]
    by (simp add: grant_member_def)
  then have m: "writes log (forA (sc_memberships sec) (grant_member db))
      (map (\<lambda>m. srender (SGrantRole (me_grp m) (me_member m) (me_admin m))) (sc_memberships sec))"
    by (intro writes_for1)
  have t: "writes log (forA (sc_tables sec) (sync_table_security db ?known sec))
      (concat (map (\<lambda>t. map srender (plan_table_sec ?known sec pols t)) (sc_tables sec)))"
    by (rule writes_for) (rule writes_table [OF assms])
  have q: "db_query db local_roles_sql [] w = (Inr (map (\<lambda>r. [Some r]) roles), w)"
    "db_query db local_members_sql [] w = (Inr (map (\<lambda>(g, m). [Some g, Some m]) members), w)" for w
    using assms by (simp_all add: security_db_def)
  have e: "reconcile_security db sec = bindA (forA (sc_roles sec) (sync_role db roles)) (\<lambda>_.
      bindA (forA (map (\<lambda>(g, m). [Some g, Some m]) members) (revoke_member db)) (\<lambda>_.
      bindA (forA (sc_memberships sec) (grant_member db)) (\<lambda>_.
      forA (sc_tables sec) (sync_table_security db ?known sec))))"
    by (rule ext) (simp add: reconcile_security_def bindA_apply q Let_def liftA_def
        split: prod.split sum.split)
  have "writes log (reconcile_security db sec)
      (concat (map (\<lambda>r. map srender (plan_role roles r)) (sc_roles sec)) @
       map (\<lambda>p. srender (SRevokeRole (fst p) (snd p))) members @
       map (\<lambda>m. srender (SGrantRole (me_grp m) (me_member m) (me_admin m))) (sc_memberships sec) @
       concat (map (\<lambda>t. map srender (plan_table_sec ?known sec pols t)) (sc_tables sec)))"
    unfolding e using r v m t by (intro writes_bind)
  then show ?thesis
    by (simp add: plan_security_def map_concat comp_def case_prod_beta)
qed

section \<open>Lemmas: the plan brings the state up to date\<close>

lemma run_revokes:
  "fold run_sec (map (SRevoke k) rs) st =
     st\<lparr>ss_readers := (ss_readers st)(k := ss_readers st k - Some ` set rs)\<rparr>"
proof (induction rs arbitrary: st)
  case (Cons r rs)
  have "S - {Some r} - Some ` set rs = S - insert (Some r) (Some ` set rs)" for S :: "string option set"
    by auto
  then show ?case using Cons by (cases st) (auto simp: fun_eq_iff)
qed simp

lemma run_grants:
  "fold run_sec (map (\<lambda>g. SGrant k (gr_grantee g)) gs) st =
     st\<lparr>ss_readers := (ss_readers st)(k := ss_readers st k \<union> (reader \<circ> gr_grantee) ` set gs)\<rparr>"
  by (induction gs arbitrary: st) (auto simp: fun_eq_iff)

lemma run_drop_policies:
  "fold run_sec (map (SDropPolicy k) ns) st =
     st\<lparr>ss_policies := (ss_policies st)(k := (\<lambda>n. if n \<in> set ns then None else ss_policies st k n))\<rparr>"
  by (induction ns arbitrary: st) (auto simp: fun_eq_iff)

lemma run_create_policies:
  "\<forall>p \<in> set ps. po_key p = k \<Longrightarrow>
   fold run_sec (map SCreatePolicy ps) st =
     st\<lparr>ss_policies := (ss_policies st)(k := ss_policies st k ++ map_of (rev (map (\<lambda>p. (po_name p, p)) ps)))\<rparr>"
proof (induction ps arbitrary: st)
  case (Cons p ps)
  then have "po_key p = k" "\<forall>p \<in> set ps. po_key p = k" by simp_all
  then show ?case using Cons.IH by (cases st) (auto simp: fun_eq_iff map_add_def split: option.split)
qed simp

lemma policies_of_key: "p \<in> set (policies_of sec k) \<Longrightarrow> po_key p = k"
  by (cases k) (simp add: policies_of_def po_key_def)

text \<open>What the catalog asks of one table.\<close>

definition wanted_policies :: "security_catalog \<Rightarrow> table_key \<Rightarrow> string \<rightharpoonup> policy_def" where
  "wanted_policies sec k = map_of (rev (map (\<lambda>p. (po_name p, p)) (policies_of sec k)))"

definition wanted_readers :: "security_catalog \<Rightarrow> table_key \<Rightarrow> string option set" where
  "wanted_readers sec k = (reader \<circ> gr_grantee) ` set (grants_of sec k)"

lemma run_plan_table_sec:
  "fold run_sec (plan_table_sec known sec pols t) st =
     st\<lparr>ss_rls := (ss_rls st)(rl_key t := (rl_enabled t, rl_enabled t)),
        ss_readers := (ss_readers st)(rl_key t :=
          (ss_readers st (rl_key t) - insert None (Some ` set known)) \<union> wanted_readers sec (rl_key t)),
        ss_policies := (ss_policies st)(rl_key t :=
          (\<lambda>n. if n \<in> set (pols (rl_key t)) then None else ss_policies st (rl_key t) n) ++
          wanted_policies sec (rl_key t))\<rparr>"
proof -
  have p: "\<forall>p \<in> set (policies_of sec (rl_key t)). po_key p = rl_key t" by (simp add: policies_of_key)
  show ?thesis
    by (cases st) (simp add: plan_table_sec_def Let_def run_revokes run_grants run_drop_policies
        run_create_policies [OF p] wanted_policies_def wanted_readers_def Diff_insert2 [symmetric] comp_def
        cong: if_cong)
qed

lemma run_plan_tables_sec:
  assumes "distinct (map rl_key ts)"
  shows "let st' = fold run_sec (concat (map (plan_table_sec known sec pols) ts)) st
    in ss_roles st' = ss_roles st \<and> ss_members st' = ss_members st \<and>
       (\<forall>k. k \<notin> rl_key ` set ts \<longrightarrow> ss_rls st' k = ss_rls st k \<and> ss_readers st' k = ss_readers st k \<and>
              ss_policies st' k = ss_policies st k) \<and>
       (\<forall>t \<in> set ts. ss_rls st' (rl_key t) = (rl_enabled t, rl_enabled t) \<and>
          ss_readers st' (rl_key t) =
            (ss_readers st (rl_key t) - insert None (Some ` set known)) \<union> wanted_readers sec (rl_key t) \<and>
          ss_policies st' (rl_key t) =
            (\<lambda>n. if n \<in> set (pols (rl_key t)) then None else ss_policies st (rl_key t) n) ++
            wanted_policies sec (rl_key t))"
  using assms
proof (induction ts arbitrary: st)
  case Nil
  then show ?case by simp
next
  case (Cons t ts)
  then have d: "distinct (map rl_key ts)" "rl_key t \<notin> rl_key ` set ts" by simp_all
  have ne: "rl_key s \<noteq> rl_key t" if "s \<in> set ts" for s using d(2) that by (metis imageI)
  let ?st1 = "fold run_sec (plan_table_sec known sec pols t) st"
  have 1: "ss_roles ?st1 = ss_roles st" "ss_members ?st1 = ss_members st"
    "ss_rls ?st1 = (ss_rls st)(rl_key t := (rl_enabled t, rl_enabled t))"
    "ss_readers ?st1 = (ss_readers st)(rl_key t :=
       (ss_readers st (rl_key t) - insert None (Some ` set known)) \<union> wanted_readers sec (rl_key t))"
    "ss_policies ?st1 = (ss_policies st)(rl_key t :=
       (\<lambda>n. if n \<in> set (pols (rl_key t)) then None else ss_policies st (rl_key t) n) ++
       wanted_policies sec (rl_key t))"
    unfolding run_plan_table_sec by simp_all
  have 2: "fold run_sec (concat (map (plan_table_sec known sec pols) (t # ts))) st =
      fold run_sec (concat (map (plan_table_sec known sec pols) ts)) ?st1"
    by simp
  note ih = Cons.IH [OF d(1), of ?st1, unfolded Let_def 1]
  note outside = conjunct1 [OF conjunct2 [OF conjunct2 [OF ih]], rule_format]
  note inside = conjunct2 [OF conjunct2 [OF conjunct2 [OF ih]]]
  show ?case
    using ih outside [OF d(2)] outside inside ne unfolding 2 Let_def
    by (simp cong: if_cong)
qed

lemma run_roles:
  "fold run_sec (concat (map (plan_role known) rs)) st =
     st\<lparr>ss_roles := ss_roles st ++ map_of (rev (map (\<lambda>r. (ro_name r, ro_inherit r)) rs))\<rparr>"
proof (induction rs arbitrary: st)
  case (Cons r rs)
  then show ?case
    by (cases st) (auto simp: fun_eq_iff map_add_def plan_role_def split: option.split)
qed simp

lemma run_revoke_members:
  "fold run_sec (map (\<lambda>(g, m). SRevokeRole g m) ps) st =
     st\<lparr>ss_members := (\<lambda>p. if p \<in> set ps then None else ss_members st p)\<rparr>"
  by (induction ps arbitrary: st) (auto simp: fun_eq_iff)

lemma run_grant_members:
  "fold run_sec (map (\<lambda>m. SGrantRole (me_grp m) (me_member m) (me_admin m)) ms) st =
     st\<lparr>ss_members := ss_members st ++ map_of (rev (map (\<lambda>m. ((me_grp m, me_member m), me_admin m)) ms))\<rparr>"
proof (induction ms arbitrary: st)
  case (Cons x ms)
  then show ?case by (cases st) (auto simp: fun_eq_iff map_add_def split: option.split)
qed simp

lemma set_push_names: "set (push_names known ns) = set known \<union> set ns"
  by (induction ns arbitrary: known) auto

text \<open>
  The local state the queries describe: the memberships and policies they list are all there are, and
  only listed roles and PUBLIC read the tables.
\<close>

definition described ::
  "string list \<Rightarrow> (string \<times> string) list \<Rightarrow> (table_key \<Rightarrow> string list) \<Rightarrow> security_catalog \<Rightarrow>
     sec_state \<Rightarrow> bool" where
  "described roles members pols sec st \<longleftrightarrow>
     dom (ss_members st) \<subseteq> set members \<and>
     (\<forall>t \<in> set (sc_tables sec).
        ss_readers st (rl_key t) \<subseteq> insert None (Some ` (set roles \<union> ro_name ` set (sc_roles sec))) \<and>
        dom (ss_policies st (rl_key t)) \<subseteq> set (pols (rl_key t)))"

text \<open>The state the catalog describes: row security on, and forced, exactly where the upstream has it on.\<close>

definition secured :: "security_catalog \<Rightarrow> sec_state \<Rightarrow> sec_state \<Rightarrow> bool" where
  "secured sec st st' \<longleftrightarrow>
     ss_roles st' = ss_roles st ++ map_of (rev (map (\<lambda>r. (ro_name r, ro_inherit r)) (sc_roles sec))) \<and>
     ss_members st' = map_of (rev (map (\<lambda>m. ((me_grp m, me_member m), me_admin m)) (sc_memberships sec))) \<and>
     (\<forall>t \<in> set (sc_tables sec).
        ss_rls st' (rl_key t) = (rl_enabled t, rl_enabled t) \<and>
        ss_readers st' (rl_key t) = wanted_readers sec (rl_key t) \<and>
        ss_policies st' (rl_key t) = wanted_policies sec (rl_key t))"

lemma clear_dom: "dom m \<subseteq> A \<Longrightarrow> (\<lambda>x. if x \<in> A then None else m x) = Map.empty"
  by (intro ext) (auto simp: subset_iff domIff)

lemma plan_secures:
  assumes "described roles members pols sec st" and "distinct (map rl_key (sc_tables sec))"
  shows "secured sec st (fold run_sec (plan_security roles members pols sec) st)"
proof -
  let ?known = "push_names roles (map ro_name (sc_roles sec))"
  let ?m = "map_of (rev (map (\<lambda>m. ((me_grp m, me_member m), me_admin m)) (sc_memberships sec)))"
  let ?st1 = "st\<lparr>ss_roles := ss_roles st ++ map_of (rev (map (\<lambda>r. (ro_name r, ro_inherit r)) (sc_roles sec))),
      ss_members := (\<lambda>p. if p \<in> set members then None else ss_members st p) ++ ?m\<rparr>"
  have f: "fold run_sec (plan_security roles members pols sec) st =
      fold run_sec (concat (map (plan_table_sec ?known sec pols) (sc_tables sec))) ?st1"
    by (simp add: plan_security_def run_roles run_revoke_members run_grant_members cong: if_cong)
  have "(\<lambda>p. if p \<in> set members then None else ss_members st p) = Map.empty"
    using assms(1) by (intro clear_dom) (simp add: described_def)
  then have m: "ss_members ?st1 = ?m" by simp
  have r: "ss_readers st (rl_key t) - insert None (Some ` set ?known) = {}"
    "(\<lambda>n. if n \<in> set (pols (rl_key t)) then None else ss_policies st (rl_key t) n) = Map.empty"
    if "t \<in> set (sc_tables sec)" for t
  proof -
    have d: "ss_readers st (rl_key t) \<subseteq> insert None (Some ` set ?known)"
      "dom (ss_policies st (rl_key t)) \<subseteq> set (pols (rl_key t))"
      using assms(1) that by (simp_all add: described_def set_push_names)
    show "ss_readers st (rl_key t) - insert None (Some ` set ?known) = {}" using d(1) by blast
    show "(\<lambda>n. if n \<in> set (pols (rl_key t)) then None else ss_policies st (rl_key t) n) = Map.empty"
      by (rule clear_dom [OF d(2)])
  qed
  show ?thesis
    using run_plan_tables_sec [OF assms(2), of ?known sec pols ?st1] m r
    by (simp add: secured_def f Let_def cong: if_cong)
qed

lemma sorted_lines_mset: "mset xs = mset ys \<Longrightarrow> sort xs = (sort ys :: string list)"
  by (metis mset_sort properties_for_sort sorted_sort)

section \<open>Properties\<close>


definition sample_security :: security_catalog where
  "sample_security =
     \<lparr>sc_roles = [\<lparr>ro_name = ''app'', ro_inherit = True\<rparr>], sc_memberships = [],
      sc_tables = [\<lparr>rl_schema = ''public'', rl_table = ''t'', rl_enabled = True, rl_forced = False\<rparr>],
      sc_grants = [\<lparr>gr_schema = ''public'', gr_table = ''t'', gr_grantee = ''app''\<rparr>], sc_policies = []\<rparr>"

definition sample_security_db :: "string list db_ops" where
  "sample_security_db =
     \<lparr>db_exec = (\<lambda>sql w. (Inr (), w)),
      db_query = (\<lambda>sql ps w.
        if sql = local_roles_sql then (Inr [], w)
        else if sql = local_members_sql then (Inr [[Some ''a'', Some ''b'']], w)
        else if sql = local_policies_sql then (Inr [[Some ''old'']], w)
        else (Inr [], w @ [sql]))\<rparr>"

lemma sample_security_db_ok:
  "security_db sample_security_db (\<lambda>w. w) [] [(''a'', ''b'')] (\<lambda>_. [''old''])"
proof -
  have "local_members_sql \<noteq> local_roles_sql" "local_policies_sql \<noteq> local_roles_sql"
    "local_policies_sql \<noteq> local_members_sql"
    "take 6 local_roles_sql = ''SELECT''" "take 6 local_members_sql = ''SELECT''"
    "take 6 local_policies_sql = ''SELECT''"
    by (simp_all add: local_members_sql_def local_roles_sql_def local_policies_sql_def)
  then show ?thesis unfolding security_db_def sample_security_db_def by auto
qed


text \<open>
  The fingerprint of the access control does not depend on the order in which the upstream
  lists roles, memberships, tables, grants and policies.
\<close>

theorem security_fingerprint_order:
  assumes "mset (sc_roles a) = mset (sc_roles b)" "mset (sc_memberships a) = mset (sc_memberships b)"
    "mset (sc_tables a) = mset (sc_tables b)" "mset (sc_grants a) = mset (sc_grants b)"
    "mset (sc_policies a) = mset (sc_policies b)"
  shows "security_fingerprint a = security_fingerprint b"
  unfolding security_fingerprint_def
  by (rule arg_cong [where f = "join_str [nl]"], rule sorted_lines_mset) (simp add: assms)

theorem security_fingerprint_order_witness:
  "security_fingerprint \<lparr>sc_roles = [\<lparr>ro_name = ''a'', ro_inherit = True\<rparr>, \<lparr>ro_name = ''b'', ro_inherit = True\<rparr>],
     sc_memberships = [], sc_tables = [], sc_grants = [], sc_policies = []\<rparr> =
   security_fingerprint \<lparr>sc_roles = [\<lparr>ro_name = ''b'', ro_inherit = True\<rparr>, \<lparr>ro_name = ''a'', ro_inherit = True\<rparr>],
     sc_memberships = [], sc_tables = [], sc_grants = [], sc_policies = []\<rparr>"
  by (rule security_fingerprint_order) (simp_all add: add_mset_commute)

text \<open>
  Two readings of names that the text form cannot tell apart: a policy for one role whose
  name holds a comma is read as a policy for two roles, and a grant to a role named PUBLIC is written as
  a grant to everyone.
\<close>

theorem role_names_confused:
  "po_roles (policy_of_row [None, None, None, None, None, Some ''a,b'', None, None]) = [''a'', ''b''] \<and>
   srender (SGrant (''s'', ''t'') ''PUBLIC'') = ''GRANT SELECT ON '' @ key_target (''s'', ''t'') @ '' TO PUBLIC''"
  by (simp add: policy_of_row_def cell_str_def cell_at_def grantee_sql_def)

end
