(* ===== verification/Frame.thy ===== *)
theory Frame
  imports Backfill Security
begin

text \<open>
  Frame lemmas: an observation \<open>f\<close> of the world that the primitive operations leave alone is left alone by
  every routine built from them. \<open>keeps f m\<close> says so of one action; the collection \<open>keeps\<close> holds its
  rules, which follow the structure of the definitions.
\<close>

definition keeps :: "('s \<Rightarrow> 'x) \<Rightarrow> ('s, 'a) act \<Rightarrow> bool" where
  "keeps f m \<longleftrightarrow> (\<forall>s. f (snd (m s)) = f s)"

named_theorems keeps \<open>rules for actions that leave an observation alone\<close>

lemma keepsD: "keeps f m \<Longrightarrow> m s = (r, s') \<Longrightarrow> f s' = f s"
  unfolding keeps_def by (metis snd_conv)

lemma keeps_ret [keeps]: "keeps f (retA x)"
  by (simp add: keeps_def)

lemma keeps_fail [keeps]: "keeps f (failA e)"
  by (simp add: keeps_def)

lemma keeps_lift [keeps]: "keeps f (liftA r)"
  by (simp add: keeps_def)

lemma keeps_bind [keeps]:
  assumes "keeps f m" and "\<And>x. keeps f (g x)"
  shows "keeps f (bindA m g)"
  unfolding keeps_def bindA_apply
proof
  fix s
  obtain r s' where m: "m s = (r, s')" by fastforce
  show "f (snd (case m s of (Inl e, s') \<Rightarrow> (Inl e, s') | (Inr x, s') \<Rightarrow> g x s')) = f s"
    using keepsD [OF assms(1) m] assms(2) by (cases r) (simp_all add: m keeps_def)
qed

lemma keeps_for [keeps]: "(\<And>x. keeps f (g x)) \<Longrightarrow> keeps f (forA xs g)"
  by (induction xs) (auto intro: keeps)

lemma keeps_if [keeps]: "(c \<Longrightarrow> keeps f a) \<Longrightarrow> (\<not> c \<Longrightarrow> keeps f b) \<Longrightarrow> keeps f (if c then a else b)"
  by simp

lemma keeps_list [keeps]:
  "keeps f a \<Longrightarrow> (\<And>x xs. keeps f (b x xs)) \<Longrightarrow> keeps f (case l of [] \<Rightarrow> a | x # xs \<Rightarrow> b x xs)"
  by (cases l) simp_all

lemma keeps_option [keeps]:
  "keeps f a \<Longrightarrow> (\<And>x. keeps f (b x)) \<Longrightarrow> keeps f (case v of None \<Rightarrow> a | Some x \<Rightarrow> b x)"
  by (cases v) simp_all

lemma keeps_Let [keeps]: "(\<And>x. keeps f (g x)) \<Longrightarrow> keeps f (let x = v in g x)"
  by simp

section \<open>Reading the catalogs\<close>

lemma keeps_server_version [keeps]: "(\<And>q. keeps f (query q)) \<Longrightarrow> keeps f (server_version_num query)"
  unfolding server_version_num_def by (intro keeps)

lemma keeps_introspect [keeps]: "(\<And>q. keeps f (query q)) \<Longrightarrow> keeps f (introspect query p)"
  unfolding introspect_def by (intro keeps)

lemma keeps_check_extension_types [keeps]:
  "(\<And>q. keeps f (query q)) \<Longrightarrow> keeps f (check_extension_types query ts)"
  unfolding check_extension_types_def by (intro keeps)

lemma keeps_introspect_types [keeps]: "(\<And>q. keeps f (query q)) \<Longrightarrow> keeps f (introspect_types query p)"
  unfolding introspect_types_def query_if_any_def by (intro keeps)

lemma keeps_introspect_security [keeps]:
  "(\<And>q. keeps f (query q)) \<Longrightarrow> keeps f (introspect_security query p)"
  unfolding introspect_security_def by (intro keeps)

section \<open>Writing the local database\<close>

definition db_keeps :: "('w \<Rightarrow> 'x) \<Rightarrow> 'w db_ops \<Rightarrow> bool" where
  "db_keeps f db \<longleftrightarrow> (\<forall>q. keeps f (db_exec db q)) \<and> (\<forall>q ps. keeps f (db_query db q ps))"

lemma keeps_db_exec [keeps]: "db_keeps f db \<Longrightarrow> keeps f (db_exec db q)"
  by (simp add: db_keeps_def)

lemma keeps_db_query [keeps]: "db_keeps f db \<Longrightarrow> keeps f (db_query db q ps)"
  by (simp add: db_keeps_def)

lemma keeps_ensure_meta_table [keeps]: "db_keeps f db \<Longrightarrow> keeps f (ensure_meta_table db)"
  unfolding ensure_meta_table_def by (intro keeps)

lemma keeps_load_state [keeps]: "db_keeps f db \<Longrightarrow> keeps f (load_state db)"
  unfolding load_state_def by (intro keeps)

lemma keeps_init_state [keeps]: "db_keeps f db \<Longrightarrow> keeps f (init_state db s p l fp)"
  unfolding init_state_def by (intro keeps)

lemma keeps_update_fingerprint [keeps]: "db_keeps f db \<Longrightarrow> keeps f (update_fingerprint db fp)"
  unfolding update_fingerprint_def by (intro keeps)

lemma keeps_meta_security_fingerprint [keeps]:
  "db_keeps f db \<Longrightarrow> keeps f (meta_security_fingerprint db)"
  unfolding meta_security_fingerprint_def by (intro keeps)

lemma keeps_bump_security [keeps]: "db_keeps f db \<Longrightarrow> keeps f (bump_security db fp)"
  unfolding bump_security_def by (intro keeps)

lemma keeps_sync_tables [keeps]:
  "db_keeps f db \<Longrightarrow> keeps f (sync_tables visit db old ts)"
  unfolding sync_tables_def delta_drop_def delta_table_def delta_add_def delta_old_def
    rebuild_table_def ensure_schema_def run_query_def
  by (intro keeps)

lemma keeps_apply_schema_delta [keeps]:
  "(\<And>q. keeps f (query q)) \<Longrightarrow> db_keeps f db \<Longrightarrow> keeps f (apply_schema_delta visit query db p ls)"
  unfolding apply_schema_delta_def delta_type_def ensure_schema_def by (intro keeps)

lemma keeps_bootstrap_schema [keeps]: "db_keeps f db \<Longrightarrow> keeps f (bootstrap_schema db tys ts)"
  unfolding bootstrap_schema_def rebuild_type_def rebuild_table_def ensure_schema_def run_query_def
  by (intro keeps)

lemma keeps_reconcile_security [keeps]: "db_keeps f db \<Longrightarrow> keeps f (reconcile_security db sec)"
  unfolding reconcile_security_def sync_role_def revoke_member_def grant_member_def
    sync_table_security_def sync_rls_def sync_grants_def sync_policies_def drop_policy_def do_query_def
  by (intro keeps)

end
