(* ===== verification/Stream.thy ===== *)
theory Stream
  imports Backfill Security
begin

text \<open>
  \<^verbatim>\<open>replica/mod.rs\<close>, the replication stream: the replica's shared state, the handling of each pgoutput
  message, the resynchronisation of schema and access control, and one iteration of \<open>stream_loop\<close>. What
  the replica talks to (the local database, the replication connection, a second connection for catalog
  queries, the clock) is the record \<open>env\<close> of operations over a world.
\<close>

section \<open>Configuration\<close>

text \<open>Durations are nanoseconds.\<close>

abbreviation from_millis :: "nat \<Rightarrow> nat" where "from_millis ms \<equiv> ms * 1000000"
abbreviation from_secs :: "nat \<Rightarrow> nat" where "from_secs s \<equiv> s * 1000000000"

record replica_config =
  cf_host :: string
  cf_port :: u16
  cf_user :: string
  cf_password :: string
  cf_database :: string
  cf_publication :: string
  cf_slot_name :: string
  cf_application_name :: string
  cf_read_timeout :: nat
  cf_status_interval :: nat
  cf_role_poll_interval :: nat
  cf_sslmode :: ssl_mode

definition default_config :: replica_config where
  "default_config =
     \<lparr>cf_host = ''127.0.0.1'', cf_port = 5432, cf_user = ''postgres'', cf_password = [],
      cf_database = ''postgres'', cf_publication = [], cf_slot_name = [],
      cf_application_name = ''pglite-replica'', cf_read_timeout = from_secs 5,
      cf_status_interval = from_secs 10, cf_role_poll_interval = from_secs 60, cf_sslmode = Disable\<rparr>"

definition ddl_signal_prefix :: string where
  "ddl_signal_prefix = ''pglite_ddl''"

section \<open>State\<close>

record committed_tx =
  ct_xid :: u32
  ct_commit_lsn :: lsn
  ct_end_lsn :: lsn
  ct_commit_ts :: i64
  ct_changes :: "row_change list"

record txn_buf =
  tb_xid :: u32
  tb_commit_ts :: i64
  tb_stmts :: "string list"
  tb_changes :: "row_change list"

text \<open>A subscriber: whether its receiver is still there, and what it was sent.\<close>

type_synonym subscriber = "bool \<times> committed_tx list"

text \<open>
  The fields of \<open>Replica\<close> that change, with the delay of the \<open>Backoff\<close> of its thread. \<open>rp_done\<close> is set by
  the thread itself; a call of \<open>stop\<close> from outside shows in the world (\<open>stop_requested\<close>).
\<close>

record 'w rep =
  rp_world :: 'w
  rp_done :: bool
  rp_stopped :: bool
  rp_halted :: bool
  rp_halt_reason :: "string option"
  rp_watermark :: u64
  rp_ack_pos :: u64
  rp_subscribers :: "subscriber list"
  rp_delay :: nat

text \<open>The local variables of \<open>stream_loop\<close>.\<close>

record 'w sstate = "'w rep" +
  sm_expected :: line_map
  sm_rels :: "u32 \<rightharpoonup> rel"
  sm_txn :: "txn_buf option"
  sm_last_status :: nat
  sm_last_poll :: nat

record 'w env =
  env_db :: "'w db_ops"
  tx_begin :: "('w, unit) act"
  tx_exec :: "string \<Rightarrow> ('w, unit) act"
  tx_commit :: "('w, unit) act"
  tx_drop :: "'w \<Rightarrow> 'w"
  snap_connect :: "('w, unit) act"
  snap_query :: "string \<Rightarrow> ('w, sql_row list) act"
  snap_copy_out :: "'w copier"
  snap_close :: "'w \<Rightarrow> 'w"
  copy_in :: "string \<Rightarrow> bytes \<Rightarrow> ('w, unit) act"
  repl_connect :: "('w, unit) act"
  repl_query :: "string \<Rightarrow> ('w, sql_row list) act"
  repl_start :: "string \<Rightarrow> ('w, unit) act"
  repl_timeout :: "nat \<Rightarrow> ('w, unit) act"
  repl_read :: "('w, repl_msg option) act"
  repl_status :: "lsn \<Rightarrow> bool \<Rightarrow> ('w, unit) act"
  repl_close :: "'w \<Rightarrow> 'w"
  stop_requested :: "'w \<Rightarrow> bool"
  clock :: "'w \<Rightarrow> nat"
  sleep :: "nat \<Rightarrow> 'w \<Rightarrow> 'w"
  visit_keys :: "(string \<times> string) list \<Rightarrow> (string \<times> string) list"
  visit_lines :: "string list \<Rightarrow> string list"

definition on_world :: "('w, 'a) act \<Rightarrow> (('w, 'm) rep_scheme, 'a) act" where
  "on_world m r = (case m (rp_world r) of (x, w') \<Rightarrow> (x, r\<lparr>rp_world := w'\<rparr>))"

text \<open>A result computed before a connection is closed, and returned after it.\<close>

definition closing :: "('w, 'a) act \<Rightarrow> ('w \<Rightarrow> 'w) \<Rightarrow> ('w, 'a) act" where
  "closing m close w = (case m w of (r, w') \<Rightarrow> (r, close w'))"

definition is_done :: "'w env \<Rightarrow> ('w, 'm) rep_scheme \<Rightarrow> bool" where
  "is_done env r \<longleftrightarrow> rp_done r \<or> stop_requested env (rp_world r)"

definition watermark :: "('w, 'm) rep_scheme \<Rightarrow> lsn" where
  "watermark r = Lsn (rp_watermark r)"

section \<open>Errors and positions\<close>

fun is_fatal :: "error \<Rightarrow> bool" where
  "is_fatal (Io _ _) = False"
| "is_fatal (Upstream _) = False"
| "is_fatal (Database state _ _ _) =
     (state \<notin> {''55006'', ''57P01'', ''57P02'', ''57P03''})"
| "is_fatal _ = True"

fun map_invalidated :: "replica_config \<Rightarrow> error \<Rightarrow> error" where
  "map_invalidated cfg (Database state m d h) =
     (if state = ''55000''
      then ReplicaHalted (''replication slot '' @ [sq] @ cf_slot_name cfg @ [sq] @
             '' was invalidated (upstream WAL retention exceeded); '' @
             ''run Replica::decommission and start again for a full resync'')
      else Database state m d h)"
| "map_invalidated cfg e = e"

definition feedback_lsn :: "('w, 'm) rep_scheme \<Rightarrow> lsn" where
  "feedback_lsn r = Lsn (max (rp_watermark r) (rp_ack_pos r))"

definition send_feedback :: "'w env \<Rightarrow> bool \<Rightarrow> (('w, 'm) rep_scheme, unit) act" where
  "send_feedback env reply r = on_world (repl_status env (feedback_lsn r) reply) r"

section \<open>Applying a transaction\<close>

definition watermark_sql :: "lsn \<Rightarrow> string" where
  "watermark_sql l =
     ''UPDATE _pglite_replica SET watermark_lsn = '' @ lit (to_pg_str l) @
     '', updated_at = now() WHERE id = 1''"

text \<open>An error before the commit drops the transaction, which rolls it back.\<close>

definition apply_txn :: "'w env \<Rightarrow> string list \<Rightarrow> lsn \<Rightarrow> ('w, unit) act" where
  "apply_txn env stmts end_lsn =
     bindA (tx_begin env) (\<lambda>_ w.
       case bindA (forA stmts (tx_exec env)) (\<lambda>_. tx_exec env (watermark_sql end_lsn)) w of
         (Inl e, w') \<Rightarrow> (Inl e, tx_drop env w')
       | (Inr _, w') \<Rightarrow> tx_commit env w')"

definition broadcast :: "committed_tx \<Rightarrow> ('w, 'm) rep_scheme \<Rightarrow> ('w, 'm) rep_scheme" where
  "broadcast c r =
     r\<lparr>rp_subscribers := map (\<lambda>(alive, got). (alive, got @ [c])) (filter fst (rp_subscribers r))\<rparr>"

section \<open>Resynchronisation\<close>

definition resync_security :: "'w env \<Rightarrow> replica_config \<Rightarrow> ('w, unit) act" where
  "resync_security env cfg =
     bindA (snap_connect env) (\<lambda>_.
       closing
         (bindA (introspect_security (snap_query env) (cf_publication cfg)) (\<lambda>security.
          let new_fp = security_fingerprint security in
          bindA (meta_security_fingerprint (env_db env)) (\<lambda>stored.
          if new_fp = opt_str stored then retA ()
          else bindA (reconcile_security (env_db env) security) (\<lambda>_.
                 bump_security (env_db env) new_fp))))
         (snap_close env))"

definition keep_known :: "line_map \<Rightarrow> (u32 \<rightharpoonup> rel) \<Rightarrow> (u32 \<rightharpoonup> rel)" where
  "keep_known expected rels i =
     (case rels i of
        None \<Rightarrow> None
      | Some r \<Rightarrow> if map_of expected (rel_schema r, rel_name r) = None then None else Some r)"

definition resync_schema :: "'w env \<Rightarrow> replica_config \<Rightarrow> ('w sstate, unit) act" where
  "resync_schema env cfg s =
     (let old_lines = visit_lines env (map snd (sm_expected s)) in
      case on_world (bindA (snap_connect env) (\<lambda>_.
             closing (apply_schema_delta (visit_keys env) (snap_query env) (env_db env)
                        (cf_publication cfg) old_lines) (snap_close env))) s of
        (Inl e, s) \<Rightarrow> (Inl e, s)
      | (Inr new_tables, s) \<Rightarrow>
          let fp = fingerprint new_tables in
          if sort (str_lines fp) = sort old_lines then (Inr (), s)
          else (case on_world (update_fingerprint (env_db env) fp) s of
                  (Inl e, s) \<Rightarrow> (Inl e, s)
                | (Inr _, s) \<Rightarrow>
                    let expected = expected_of (str_lines fp) [] in
                    (Inr (), s\<lparr>sm_expected := expected,
                               sm_rels := keep_known expected (sm_rels s)\<rparr>)))"

definition format_type_sql :: "rel_column \<Rightarrow> string" where
  "format_type_sql c =
     ''SELECT format_type('' @ show_u32 (type_oid c) @ '', '' @ show_int (sint (type_modifier c)) @ '')''"

definition apply_added_columns ::
  "'w env \<Rightarrow> string \<Rightarrow> string \<Rightarrow> rel_column list \<Rightarrow> ('w, unit) act" where
  "apply_added_columns env schema table added =
     (if added = [] then retA ()
      else bindA (snap_connect env) (\<lambda>_.
        closing
          (forA added (\<lambda>c.
             bindA (snap_query env (format_type_sql c)) (\<lambda>rows.
             bindA (liftA (ok_or (Protocol ''format_type returned no row'') (first_cell rows))) (\<lambda>type_sql.
             bindA (db_query (env_db env) (add_column_sql (schema, table) (col_name c) type_sql) []) (\<lambda>_.
               retA ())))))
          (snap_close env)))"

section \<open>Handling a message\<close>

definition rel_of :: "(u32 \<rightharpoonup> rel) \<Rightarrow> u32 \<Rightarrow> rel res" where
  "rel_of rels i = ok_or (Protocol (''change for unknown relation id '' @ show_u32 i)) (rels i)"

definition open_txn :: "txn_buf option \<Rightarrow> txn_buf res" where
  "open_txn t = ok_or (Protocol ''change outside of transaction'') t"

definition push_change :: "txn_buf \<Rightarrow> string \<times> row_change \<Rightarrow> txn_buf" where
  "push_change buf p =
     buf\<lparr>tb_stmts := tb_stmts buf @ [fst p], tb_changes := tb_changes buf @ [snd p]\<rparr>"

text \<open>Insert, update and delete: the relation, the open transaction, then the statement.\<close>

definition buffer_change ::
  "u32 \<Rightarrow> (rel \<Rightarrow> (string \<times> row_change) res) \<Rightarrow> ('w sstate, unit) act" where
  "buffer_change rel_id sql s =
     (case bindR (rel_of (sm_rels s) rel_id) (\<lambda>r.
           bindR (open_txn (sm_txn s)) (\<lambda>buf.
           bindR (sql r) (\<lambda>p. Inr (push_change buf p)))) of
        Inl e \<Rightarrow> (Inl e, s)
      | Inr buf \<Rightarrow> (Inr (), s\<lparr>sm_txn := Some buf\<rparr>))"

fun truncate_targets ::
  "(u32 \<rightharpoonup> rel) \<Rightarrow> u32 list \<Rightarrow> txn_buf \<Rightarrow> string list \<Rightarrow> string list res \<times> txn_buf" where
  "truncate_targets rels [] buf targets = (Inr targets, buf)"
| "truncate_targets rels (i # is) buf targets =
     (case rel_of rels i of
        Inl e \<Rightarrow> (Inl e, buf)
      | Inr r \<Rightarrow>
          truncate_targets rels is
            (buf\<lparr>tb_changes := tb_changes buf @ [ChTruncate (rel_schema r) (rel_name r)]\<rparr>)
            (targets @ [target r]))"

definition buffer_truncate :: "u32 list \<Rightarrow> ('w sstate, unit) act" where
  "buffer_truncate rel_ids s =
     (case open_txn (sm_txn s) of
        Inl e \<Rightarrow> (Inl e, s)
      | Inr buf \<Rightarrow>
          (case truncate_targets (sm_rels s) rel_ids buf [] of
             (Inl e, buf) \<Rightarrow> (Inl e, s\<lparr>sm_txn := Some buf\<rparr>)
           | (Inr targets, buf) \<Rightarrow>
               (Inr (), s\<lparr>sm_txn := Some (buf\<lparr>tb_stmts := tb_stmts buf @
                            [''TRUNCATE '' @ join_str '', '' targets]\<rparr>)\<rparr>)))"

definition handle_relation ::
  "'w env \<Rightarrow> u32 \<Rightarrow> string \<Rightarrow> string \<Rightarrow> rel_column list \<Rightarrow> ('w sstate, unit) act" where
  "handle_relation env rel_id namespace name columns s =
     (let cols = map (\<lambda>c. (col_name c, type_oid c)) columns;
          line = fingerprint_line namespace name cols;
          keep = (\<lambda>s. (Inr (), s\<lparr>sm_rels := (sm_rels s)(rel_id \<mapsto>
                        \<lparr>rel_schema = namespace, rel_name = name, rel_columns = columns\<rparr>)\<rparr>))
      in case map_of (sm_expected s) (namespace, name) of
           None \<Rightarrow> (Inl (ReplicaHalted (''relation '' @ namespace @ ''.'' @ name @
                     '' is not part of the replicated fingerprint'')), s)
         | Some want \<Rightarrow>
             if want = line then keep s
             else (case classify_schema_change want cols of
                     Incompatible reason \<Rightarrow>
                       (Inl (ReplicaHalted (''incompatible schema change on '' @ namespace @ ''.'' @ name @
                          '': '' @ reason @
                          ''; run Replica::decommission and start again for a full resync'')), s)
                   | Additive old_count \<Rightarrow>
                       (case on_world (apply_added_columns env namespace name (drop old_count columns)) s of
                          (Inl e, s) \<Rightarrow> (Inl e, s)
                        | (Inr _, s) \<Rightarrow>
                            let expected = AList.update (namespace, name) line (sm_expected s);
                                s = s\<lparr>sm_expected := expected\<rparr>
                            in (case on_world (update_fingerprint (env_db env)
                                       (join_str [nl] (sort (visit_lines env (map snd expected))))) s of
                                  (Inl e, s) \<Rightarrow> (Inl e, s)
                                | (Inr _, s) \<Rightarrow> keep s))))"

definition handle_commit ::
  "'w env \<Rightarrow> u64 \<Rightarrow> u64 \<Rightarrow> i64 \<Rightarrow> ('w sstate, unit) act" where
  "handle_commit env commit_lsn end_pos commit_ts s =
     (case sm_txn s of
        None \<Rightarrow> (Inl (Protocol ''commit without begin on replication stream''), s)
      | Some buf \<Rightarrow>
          let s = s\<lparr>sm_txn := None\<rparr>; end_lsn = Lsn end_pos in
          if end_lsn \<le> watermark s then (Inr (), s)
          else if tb_stmts buf = [] then (Inr (), s\<lparr>rp_ack_pos := max (rp_ack_pos s) end_pos\<rparr>)
          else (case on_world (apply_txn env (tb_stmts buf) end_lsn) s of
                  (Inl e, s) \<Rightarrow> (Inl e, s)
                | (Inr _, s) \<Rightarrow>
                    let s = s\<lparr>rp_watermark := end_pos, rp_ack_pos := max (rp_ack_pos s) end_pos\<rparr> in
                    (Inr (), if tb_changes buf = [] then s
                             else broadcast
                               \<lparr>ct_xid = tb_xid buf, ct_commit_lsn = Lsn commit_lsn, ct_end_lsn = end_lsn,
                                ct_commit_ts = (if tb_commit_ts buf \<noteq> 0 then tb_commit_ts buf else commit_ts),
                                ct_changes = tb_changes buf\<rparr> s)))"

fun handle_msg :: "'w env \<Rightarrow> replica_config \<Rightarrow> pgoutput_msg \<Rightarrow> ('w sstate, unit) act" where
  "handle_msg env cfg (Begin final_lsn commit_ts xid) s =
     (Inr (), s\<lparr>sm_txn := Some \<lparr>tb_xid = xid, tb_commit_ts = commit_ts, tb_stmts = [], tb_changes = []\<rparr>\<rparr>)"
| "handle_msg env cfg (Relation rel_id namespace name ri columns) s =
     handle_relation env rel_id namespace name columns s"
| "handle_msg env cfg (Insert rel_id new) s = buffer_change rel_id (\<lambda>r. insert_sql r new) s"
| "handle_msg env cfg (Update rel_id key old new) s =
     buffer_change rel_id (\<lambda>r. update_sql r key old new) s"
| "handle_msg env cfg (Delete rel_id key old) s = buffer_change rel_id (\<lambda>r. delete_sql r key old) s"
| "handle_msg env cfg (Truncate rel_ids) s = buffer_truncate rel_ids s"
| "handle_msg env cfg (Commit commit_lsn end_lsn commit_ts) s =
     handle_commit env commit_lsn end_lsn commit_ts s"
| "handle_msg env cfg (Message prefix content) s =
     (if prefix = ddl_signal_prefix
      then bindA (resync_schema env cfg) (\<lambda>_. on_world (resync_security env cfg)) s
      else (Inr (), s))"
| "handle_msg env cfg Other s = (Inr (), s)"

fun handle_repl :: "'w env \<Rightarrow> replica_config \<Rightarrow> repl_msg \<Rightarrow> ('w sstate, unit) act" where
  "handle_repl env cfg (Keepalive wal_end reply_requested) s =
     (let s = (if sm_txn s = None then s\<lparr>rp_ack_pos := max (rp_ack_pos s) wal_end\<rparr> else s)
      in if reply_requested
         then bindA (send_feedback env False)
                (\<lambda>_ s. (Inr (), s\<lparr>sm_last_status := clock env (rp_world s)\<rparr>)) s
         else (Inr (), s))"
| "handle_repl env cfg StreamCopyDone s = (Inl (Upstream ''upstream ended the replication stream''), s)"
| "handle_repl env cfg (XLogData data) s =
     (case decode data of Inl e \<Rightarrow> (Inl e, s) | Inr m \<Rightarrow> handle_msg env cfg m s)"

section \<open>The loop\<close>

text \<open>One turn of the loop; \<open>True\<close> is the return of \<open>Ok(())\<close> after a stop.\<close>

definition poll_status :: "'w env \<Rightarrow> nat \<Rightarrow> ('w sstate, unit) act" where
  "poll_status env cadence s =
     (if clock env (rp_world s) - sm_last_status s \<ge> cadence
      then bindA (send_feedback env False)
             (\<lambda>_ s. (Inr (), s\<lparr>sm_last_status := clock env (rp_world s)\<rparr>)) s
      else (Inr (), s))"

definition poll_roles :: "'w env \<Rightarrow> replica_config \<Rightarrow> ('w sstate, unit) act" where
  "poll_roles env cfg s =
     (if clock env (rp_world s) - sm_last_poll s \<ge> cf_role_poll_interval cfg
      then bindA (on_world (resync_security env cfg))
             (\<lambda>_ s. (Inr (), s\<lparr>sm_last_poll := clock env (rp_world s)\<rparr>)) s
      else (Inr (), s))"

definition map_err :: "(error \<Rightarrow> error) \<Rightarrow> ('s, 'a) act \<Rightarrow> ('s, 'a) act" where
  "map_err f m s = (case m s of (Inl e, s') \<Rightarrow> (Inl (f e), s') | (Inr x, s') \<Rightarrow> (Inr x, s'))"

definition read_and_handle :: "'w env \<Rightarrow> replica_config \<Rightarrow> ('w sstate, unit) act" where
  "read_and_handle env cfg =
     bindA (map_err (map_invalidated cfg) (on_world (repl_read env))) (\<lambda>msg.
       case msg of None \<Rightarrow> retA () | Some m \<Rightarrow> handle_repl env cfg m)"

definition stream_iter :: "'w env \<Rightarrow> replica_config \<Rightarrow> nat \<Rightarrow> ('w sstate, bool) act" where
  "stream_iter env cfg cadence s =
     (if is_done env s then (Inr True, s)
      else bindA (poll_status env cadence) (\<lambda>_.
           bindA (poll_roles env cfg) (\<lambda>_.
           bindA (read_and_handle env cfg) (\<lambda>_. retA False))) s)"

text \<open>
  The loop, a given number of turns at most. The result comes with the state reached; \<open>None\<close> is a
  loop that is still running there.
\<close>

fun stream_turns ::
  "nat \<Rightarrow> 'w env \<Rightarrow> replica_config \<Rightarrow> nat \<Rightarrow> 'w sstate \<Rightarrow> unit res option \<times> 'w sstate" where
  "stream_turns 0 env cfg cadence s = (None, s)"
| "stream_turns (Suc n) env cfg cadence s =
     (case stream_iter env cfg cadence s of
        (Inl e, s) \<Rightarrow> (Some (Inl e), s)
      | (Inr True, s) \<Rightarrow> (Some (Inr ()), s)
      | (Inr False, s) \<Rightarrow> stream_turns n env cfg cadence s)"

end
