(* ===== verification/StreamSpec.thy ===== *)
theory StreamSpec
  imports Frame Stream "HOL-Library.Sublist"
begin

text \<open>
  What the replication stream does to the local database. The database is abstracted to the log of the
  statement blocks committed through its transactions; the contract of the transaction operations
  (\<open>tx_store\<close>) says that a block is committed as a whole or not at all. Lemmas give the effect of each
  message on the log and the two positions, first under any errors (\<open>advances\<close>), then for a stream of
  transactions as the upstream sends it (\<open>item\<close>).
\<close>

section \<open>Contracts\<close>

text \<open>
  \<open>com\<close> reads the committed blocks, \<open>pend\<close> the statements of the open transaction. An operation that
  fails commits nothing.
\<close>

definition tx_store :: "'w env \<Rightarrow> ('w \<Rightarrow> string list list) \<Rightarrow> ('w \<Rightarrow> string list) \<Rightarrow> bool" where
  "tx_store env com pend \<longleftrightarrow>
     (\<forall>w r w'. tx_begin env w = (r, w') \<longrightarrow> com w' = com w \<and> (is_ok r \<longrightarrow> pend w' = [])) \<and>
     (\<forall>q w r w'. tx_exec env q w = (r, w') \<longrightarrow> com w' = com w \<and> (is_ok r \<longrightarrow> pend w' = pend w @ [q])) \<and>
     (\<forall>w r w'. tx_commit env w = (r, w') \<longrightarrow> com w' = (if is_ok r then com w @ [pend w] else com w)) \<and>
     (\<forall>w. com (tx_drop env w) = com w)"

text \<open>The other operations commit no block.\<close>

definition others_keep :: "'w env \<Rightarrow> ('w \<Rightarrow> string list list) \<Rightarrow> bool" where
  "others_keep env com \<longleftrightarrow>
     db_keeps com (env_db env) \<and> keeps com (snap_connect env) \<and> (\<forall>q. keeps com (snap_query env q)) \<and>
     (\<forall>w. com (snap_close env w) = com w) \<and> keeps com (repl_connect env) \<and>
     (\<forall>q. keeps com (repl_query env q)) \<and> (\<forall>q. keeps com (repl_start env q)) \<and>
     (\<forall>t. keeps com (repl_timeout env t)) \<and> keeps com (repl_read env) \<and>
     (\<forall>l b. keeps com (repl_status env l b)) \<and> (\<forall>w. com (repl_close env w) = com w) \<and>
     (\<forall>t w. com (sleep env t w) = com w)"

text \<open>The operations a delivery needs do not fail.\<close>

definition never_fails :: "'w env \<Rightarrow> bool" where
  "never_fails env \<longleftrightarrow>
     (\<forall>w. is_ok (fst (tx_begin env w))) \<and> (\<forall>q w. is_ok (fst (tx_exec env q w))) \<and>
     (\<forall>w. is_ok (fst (tx_commit env w))) \<and> (\<forall>l b w. is_ok (fst (repl_status env l b w)))"

definition block :: "string list \<Rightarrow> u64 \<Rightarrow> string list" where
  "block stmts e = stmts @ [watermark_sql (Lsn e)]"

section \<open>A transaction\<close>

lemma tx_storeD:
  assumes "tx_store env com pend"
  shows "tx_begin env w = (r, w') \<Longrightarrow> com w' = com w"
    and "tx_begin env w = (Inr u, w') \<Longrightarrow> pend w' = []"
    and "tx_exec env q w = (r, w') \<Longrightarrow> com w' = com w"
    and "tx_exec env q w = (Inr u, w') \<Longrightarrow> pend w' = pend w @ [q]"
    and "tx_commit env w = (Inl e, w') \<Longrightarrow> com w' = com w"
    and "tx_commit env w = (Inr u, w') \<Longrightarrow> com w' = com w @ [pend w]"
    and "com (tx_drop env w) = com w"
  using assms unfolding tx_store_def by (metis is_ok_simps)+

lemma tx_stmts_run:
  assumes "tx_store env com pend" and "forA qs (tx_exec env) w = (r, w')"
  shows "com w' = com w \<and> (is_ok r \<longrightarrow> pend w' = pend w @ qs)"
  using assms(2)
proof (induction qs arbitrary: w)
  case (Cons q qs)
  obtain r1 w1 where 1: "tx_exec env q w = (r1, w1)" by fastforce
  show ?case
  proof (cases r1)
    case (Inl e)
    then show ?thesis
      using Inl Cons.prems 1 tx_storeD(3) [OF assms(1) 1] by (auto simp: bindA_apply)
  next
    case (Inr u)
    then show ?thesis
      using Inr Cons.prems Cons.IH [of w1] 1 tx_storeD(3) [OF assms(1) 1]
        tx_storeD(4) [OF assms(1), of q w u w1] by (simp add: bindA_apply)
  qed
qed simp

lemma apply_txn_atomic:
  assumes "tx_store env com pend" and "apply_txn env qs (Lsn e) w = (r, w')"
  shows "com w' = (if is_ok r then com w @ [block qs e] else com w)"
proof -
  let ?body = "forA (block qs e) (tx_exec env)"
  have body: "bindA (forA qs (tx_exec env)) (\<lambda>_. tx_exec env (watermark_sql (Lsn e))) = ?body"
    by (simp add: block_def forA_append fun_eq_iff bindA_def split: prod.split sum.split)
  obtain r1 w1 where 1: "tx_begin env w = (r1, w1)" by fastforce
  note c1 = tx_storeD(1) [OF assms(1) 1]
  obtain r2 w2 where 2: "?body w1 = (r2, w2)" by fastforce
  note c2 = tx_stmts_run [OF assms(1) 2]
  show ?thesis
  proof (cases r1)
    case (Inl x)
    then have "r = Inl x \<and> w' = w1" using assms(2) 1 by (simp add: apply_txn_def bindA_apply)
    then show ?thesis using c1 by simp
  next
    case r1: (Inr x)
    show ?thesis
    proof (cases r2)
      case (Inl y)
      then have "r = Inl y \<and> w' = tx_drop env w2"
        using assms(2) 1 2 r1 unfolding apply_txn_def body by (simp add: bindA_apply)
      then show ?thesis using c1 c2 tx_storeD(7) [OF assms(1)] by simp
    next
      case (Inr y)
      then have c: "tx_commit env w2 = (r, w')"
        using assms(2) 1 2 r1 unfolding apply_txn_def body by (simp add: bindA_apply)
      have "pend w2 = block qs e"
        using c2 Inr tx_storeD(2) [OF assms(1)] 1 r1 by simp
      then show ?thesis
        using c c1 c2 tx_storeD(5,6) [OF assms(1)] by (cases r) simp_all
    qed
  qed
qed

lemma ok_pair: "is_ok (fst (m w)) \<Longrightarrow> \<exists>u w'. m w = (Inr u, w')"
  by (cases "m w"; cases "fst (m w)") simp_all

lemma never_failsD:
  assumes "never_fails env"
  shows "\<exists>w'. tx_begin env w = (Inr (), w')" and "\<exists>w'. tx_exec env q w = (Inr (), w')"
    and "\<exists>w'. tx_commit env w = (Inr (), w')" and "\<exists>w'. repl_status env l b w = (Inr (), w')"
  using ok_pair [of "tx_begin env" w] ok_pair [of "tx_exec env q" w] ok_pair [of "tx_commit env" w]
    ok_pair [of "repl_status env l b" w] assms unfolding never_fails_def by simp_all

lemma tx_stmts_ok:
  assumes "never_fails env"
  shows "\<exists>w'. forA qs (tx_exec env) w = (Inr (), w')"
proof (induction qs arbitrary: w)
  case (Cons q qs)
  obtain w1 where "tx_exec env q w = (Inr (), w1)" using never_failsD(2) [OF assms] by blast
  then show ?case using Cons.IH [of w1] by (simp add: bindA_Inr)
qed simp

lemma apply_txn_ok:
  assumes "never_fails env"
  shows "\<exists>w'. apply_txn env qs e w = (Inr (), w')"
proof -
  obtain w1 where 1: "tx_begin env w = (Inr (), w1)" using never_failsD(1) [OF assms] by blast
  obtain w2 where 2: "forA qs (tx_exec env) w1 = (Inr (), w2)" using tx_stmts_ok [OF assms] by blast
  obtain w3 where 3: "tx_exec env (watermark_sql e) w2 = (Inr (), w3)"
    using never_failsD(2) [OF assms] by blast
  obtain w4 where "tx_commit env w3 = (Inr (), w4)" using never_failsD(3) [OF assms] by blast
  then show ?thesis by (simp add: apply_txn_def bindA_apply 1 2 3)
qed

section \<open>Under any errors\<close>

text \<open>
  From one pair of committed blocks and watermark to another: whole transactions were applied, none of
  them empty, at strictly increasing positions above the watermark, which ends at the last of them.
\<close>

definition advances :: "string list list \<times> u64 \<Rightarrow> string list list \<times> u64 \<Rightarrow> bool" where
  "advances v v' \<longleftrightarrow>
     (\<exists>txs. fst v' = fst v @ map (\<lambda>(qs, e). block qs e) txs \<and>
        sorted_wrt (<) (snd v # map snd txs) \<and> snd v' = last (snd v # map snd txs) \<and>
        [] \<notin> fst ` set txs)"

definition applied :: "('w \<Rightarrow> string list list) \<Rightarrow> ('w, 'm) rep_scheme \<Rightarrow> string list list \<times> u64" where
  "applied com s = (com (rp_world s), rp_watermark s)"

lemma advances_refl [simp]: "advances v v"
  unfolding advances_def by (rule exI [of _ "[]"]) simp

lemma sorted_wrt_last_le:
  "sorted_wrt (<) (m # es) \<Longrightarrow> e \<in> set (m # es) \<Longrightarrow> e \<le> last (m # (es :: 'a :: linorder list))"
proof (induction es arbitrary: m e)
  case (Cons x es)
  have "x \<le> last (x # es)" using Cons by simp
  then show ?case using Cons.IH [of x e] Cons.prems by (auto intro: order.trans less_imp_le)
qed simp

lemma advances_trans:
  assumes "advances u v" and "advances v w"
  shows "advances u w"
proof -
  obtain a where a: "fst v = fst u @ map (\<lambda>(qs, e). block qs e) a"
    "sorted_wrt (<) (snd u # map snd a)" "snd v = last (snd u # map snd a)" "[] \<notin> fst ` set a"
    using assms(1) unfolding advances_def by blast
  obtain b where b: "fst w = fst v @ map (\<lambda>(qs, e). block qs e) b"
    "sorted_wrt (<) (snd v # map snd b)" "snd w = last (snd v # map snd b)" "[] \<notin> fst ` set b"
    using assms(2) unfolding advances_def by blast
  have "sorted_wrt (<) ((snd u # map snd a) @ map snd b)"
    unfolding sorted_wrt_append
  proof (intro conjI ballI)
    fix x y
    assume xy: "x \<in> set (snd u # map snd a)" "y \<in> set (map snd b)"
    have "x \<le> snd v" using sorted_wrt_last_le [OF a(2) xy(1)] a(3) by simp
    moreover have "snd v < y" using b(2) xy(2) by auto
    ultimately show "x < y" by (rule order.strict_trans1)
  qed (use a(2) b(2) in auto)
  moreover have "last (snd u # map snd (a @ b)) = last (snd v # map snd b)"
    using a(3) by (cases b rule: rev_cases) simp_all
  ultimately show ?thesis
    unfolding advances_def using a b by (intro exI [of _ "a @ b"]) (auto simp: image_Un)
qed

lemma advances_one: "qs \<noteq> [] \<Longrightarrow> snd v < e \<Longrightarrow> advances v (fst v @ [block qs e], e)"
  unfolding advances_def by (intro exI [of _ "[(qs, e)]"]) auto

text \<open>Actions on the state that advance it whatever their result.\<close>

definition adv :: "('w \<Rightarrow> string list list) \<Rightarrow> (('w, 'm) rep_scheme, 'a) act \<Rightarrow> bool" where
  "adv com m \<longleftrightarrow> (\<forall>s. advances (applied com s) (applied com (snd (m s))))"

named_theorems adv \<open>rules for actions that only apply whole transactions in order\<close>

lemma adv_keeps: "keeps (applied com) m \<Longrightarrow> adv com m"
  by (simp add: adv_def keeps_def)

lemma adv_bind [adv]:
  assumes "adv com m" and "\<And>x. adv com (g x)"
  shows "adv com (bindA m g)"
  unfolding adv_def bindA_apply
proof
  fix s
  obtain r s' where m: "m s = (r, s')" by fastforce
  have 1: "advances (applied com s) (applied com s')" using assms(1) m unfolding adv_def by (metis snd_conv)
  show "advances (applied com s)
      (applied com (snd (case m s of (Inl e, s') \<Rightarrow> (Inl e, s') | (Inr x, s') \<Rightarrow> g x s')))"
    using 1 advances_trans [OF 1] assms(2) by (cases r) (simp_all add: m adv_def)
qed

lemma adv_ret [adv]: "adv com (retA x)"
  by (simp add: adv_def)

lemma keeps_closing [keeps]: "keeps f m \<Longrightarrow> (\<And>w. f (close w) = f w) \<Longrightarrow> keeps f (closing m close)"
  by (auto simp: keeps_def closing_def split: prod.split) (metis snd_conv)

lemma on_world_frame:
  "on_world m s = (r, s') \<Longrightarrow> \<exists>w'. m (rp_world s) = (r, w') \<and> s' = s\<lparr>rp_world := w'\<rparr>"
  by (auto simp: on_world_def split: prod.splits)

lemma keeps_on_world [keeps]: "keeps com m \<Longrightarrow> keeps (applied com) (on_world m)"
  by (auto simp: keeps_def on_world_def applied_def split: prod.split) (metis snd_conv)

lemma others_keepD [keeps]:
  assumes "others_keep env com"
  shows "db_keeps com (env_db env)" and "keeps com (snap_connect env)" and "keeps com (snap_query env q)"
    and "com (snap_close env w) = com w" and "keeps com (repl_connect env)"
    and "keeps com (repl_query env q)" and "keeps com (repl_start env q)"
    and "keeps com (repl_timeout env t)" and "keeps com (repl_read env)"
    and "keeps com (repl_status env l b)" and "com (repl_close env w) = com w"
    and "com (sleep env t w) = com w"
  using assms unfolding others_keep_def by simp_all

lemma keeps_send_feedback [keeps]:
  "others_keep env com \<Longrightarrow> keeps (applied com) (send_feedback env b)"
  unfolding keeps_def send_feedback_def
  using keepsD [OF keeps_on_world [OF others_keepD(10)]] by (metis prod.collapse)

lemma keeps_resync_security [keeps]:
  "others_keep env com \<Longrightarrow> keeps com (resync_security env cfg)"
  unfolding resync_security_def by (intro keeps)

lemma keeps_apply_added_columns [keeps]:
  "others_keep env com \<Longrightarrow> keeps com (apply_added_columns env sc t cols)"
  unfolding apply_added_columns_def by (intro keeps)

lemma keeps_schema_snapshot [keeps]:
  assumes "others_keep env com"
  shows "keeps com (bindA (snap_connect env) (\<lambda>_. closing (apply_schema_delta (visit_keys env) (snap_query env)
           (env_db env) p ls) (snap_close env)))"
  using assms by (intro keeps)

lemma keeps_resync_schema [keeps]:
  assumes "others_keep env com"
  shows "keeps (applied com) (resync_schema env cfg)"
  unfolding keeps_def
proof
  fix s :: "'a sstate"
  note k1 = keepsD [OF keeps_on_world [OF keeps_schema_snapshot [OF assms]]]
  note k2 = keepsD [OF keeps_on_world [OF keeps_update_fingerprint [OF others_keepD(1) [OF assms]]]]
  show "applied com (snd (resync_schema env cfg s)) = applied com s"
    by (auto simp: resync_schema_def Let_def applied_def dest!: k1 k2 split: prod.split sum.split)
qed

lemma keeps_handle_relation [keeps]:
  assumes "others_keep env com"
  shows "keeps (applied com) (handle_relation env i ns n cols)"
  unfolding keeps_def
proof
  fix s :: "'a sstate"
  note k1 = keepsD [OF keeps_on_world [OF keeps_apply_added_columns [OF assms]]]
  note k2 = keepsD [OF keeps_on_world [OF keeps_update_fingerprint [OF others_keepD(1) [OF assms]]]]
  show "applied com (snd (handle_relation env i ns n cols s)) = applied com s"
    by (auto simp: handle_relation_def Let_def applied_def dest!: k1 k2
        split: prod.split sum.split option.split schema_change.split)
qed

lemma keeps_buffer_change [keeps]: "keeps (applied com) (buffer_change i f)"
  by (auto simp: keeps_def buffer_change_def applied_def split: sum.split)

lemma keeps_buffer_truncate [keeps]: "keeps (applied com) (buffer_truncate ids)"
  by (auto simp: keeps_def buffer_truncate_def applied_def split: sum.split prod.split)

lemma adv_handle_commit:
  assumes "tx_store env com pend"
  shows "adv com (handle_commit env cl e ts)"
  unfolding adv_def
proof
  fix s :: "'a sstate"
  show "advances (applied com s) (applied com (snd (handle_commit env cl e ts s)))"
  proof (cases "sm_txn s")
    case None
    then show ?thesis by (simp add: handle_commit_def)
  next
    case (Some buf)
    obtain r w' where a: "apply_txn env (tb_stmts buf) (Lsn e) (rp_world s) = (r, w')" by fastforce
    note c = apply_txn_atomic [OF assms a]
    consider (old) "Lsn e \<le> watermark s" | (empty) "\<not> Lsn e \<le> watermark s" "tb_stmts buf = []"
      | (new) "\<not> Lsn e \<le> watermark s" "tb_stmts buf \<noteq> []" by blast
    then show ?thesis
    proof cases
      case new
      have "rp_watermark s < e" using new(1) by (simp add: watermark_def less_eq_lsn_def)
      then show ?thesis
        using new Some a c advances_one [of "tb_stmts buf" "applied com s" e]
        by (cases r) (auto simp: handle_commit_def Let_def watermark_def applied_def on_world_def
            broadcast_def)
    qed (simp_all add: handle_commit_def Let_def Some watermark_def applied_def)
  qed
qed

lemma adv_handle_msg [adv]:
  assumes "tx_store env com pend" and "others_keep env com"
  shows "adv com (handle_msg env cfg m)"
proof (cases m)
  case (Message pre content)
  have "handle_msg env cfg m = (if pre = ddl_signal_prefix
      then bindA (resync_schema env cfg) (\<lambda>_. on_world (resync_security env cfg)) else retA ())"
    by (simp add: Message fun_eq_iff)
  then show ?thesis using assms(2) by (simp only:) (intro adv_keeps keeps)
next
  case Begin
  then show ?thesis by (simp add: adv_def applied_def)
next
  case (Relation i ns n ri cols)
  have "handle_msg env cfg m = handle_relation env i ns n cols"
    by (simp add: Relation fun_eq_iff)
  then show ?thesis using assms(2) by (simp only:) (intro adv_keeps keeps)
qed (use adv_handle_commit [OF assms(1)] adv_keeps [OF keeps_buffer_change]
      adv_keeps [OF keeps_buffer_truncate] in \<open>simp_all add: adv_def\<close>)

lemma keeps_note [keeps]:
  "(\<And>s. applied com (f s) = applied com s) \<Longrightarrow> keeps (applied com) (\<lambda>s. (Inr x, f s))"
  by (simp add: keeps_def)

lemma keeps_status [keeps]:
  assumes "others_keep (env :: 'a env) com"
  shows "keeps (applied com) (bindA (send_feedback env b)
           (\<lambda>_ s. (Inr (), (s :: 'a sstate)\<lparr>sm_last_status := clock env (rp_world s)\<rparr>)))"
  using assms by (intro keeps) (simp_all add: applied_def)

lemma keeps_keepalive:
  assumes "others_keep env com"
  shows "keeps (applied com) (handle_repl env cfg (Keepalive pos reply))"
  unfolding keeps_def
proof
  fix s :: "'a sstate"
  let ?s = "if sm_txn s = None then s\<lparr>rp_ack_pos := max (rp_ack_pos s) pos\<rparr> else s"
  have "applied com ?s = applied com s" by (simp add: applied_def)
  then show "applied com (snd (handle_repl env cfg (Keepalive pos reply) s)) = applied com s"
    using keeps_status [OF assms, of False]
    by (simp add: Let_def keeps_def del: split_paired_All cong: if_cong)
qed

lemma adv_handle_repl [adv]:
  assumes "tx_store env com pend" and "others_keep env com"
  shows "adv com (handle_repl env cfg m)"
proof (cases m)
  case (XLogData data)
  then show ?thesis
    using adv_handle_msg [OF assms] by (simp add: adv_def split: sum.split)
next
  case Keepalive
  then show ?thesis using adv_keeps [OF keeps_keepalive [OF assms(2)]] by simp
qed (simp add: adv_def)

lemma keeps_poll_status [keeps]:
  "others_keep env com \<Longrightarrow> keeps (applied com) (poll_status env cadence)"
  using keeps_status [of env com False] by (simp add: keeps_def poll_status_def)

lemma keeps_poll_roles [keeps]:
  assumes "others_keep (env :: 'a env) com"
  shows "keeps (applied com) (poll_roles env cfg)"
proof -
  have "keeps (applied com) (bindA (on_world (resync_security env cfg))
      (\<lambda>_ s. (Inr (), (s :: 'a sstate)\<lparr>sm_last_poll := clock env (rp_world s)\<rparr>)))"
    using assms by (intro keeps) (simp_all add: applied_def)
  then show ?thesis by (simp add: keeps_def poll_roles_def)
qed

lemma keeps_map_err [keeps]: "keeps f m \<Longrightarrow> keeps f (map_err g m)"
  by (auto simp: keeps_def map_err_def split: prod.split sum.split) (metis snd_conv)+

lemma adv_read_and_handle [adv]:
  assumes "tx_store env com pend" and "others_keep env com"
  shows "adv com (read_and_handle env cfg)"
  unfolding read_and_handle_def
proof (intro adv)
  show "adv com (map_err (map_invalidated cfg) (on_world (repl_read env)))"
    using assms(2) by (intro adv_keeps keeps)
  show "adv com (case msg of None \<Rightarrow> retA () | Some m \<Rightarrow> handle_repl env cfg m)" for msg
    using adv_handle_repl [OF assms] by (cases msg) (simp_all add: adv_ret)
qed

lemma adv_stream_iter [adv]:
  assumes "tx_store env com pend" and "others_keep env com"
  shows "adv com (stream_iter env cfg cadence)"
proof -
  have "adv com (bindA (poll_status env cadence) (\<lambda>_. bindA (poll_roles env cfg) (\<lambda>_.
          bindA (read_and_handle env cfg) (\<lambda>_. retA False))))"
    using assms adv_read_and_handle [OF assms] by (intro adv adv_keeps keeps)
  then show ?thesis by (simp add: adv_def stream_iter_def)
qed

lemma stream_turns_advance:
  assumes "tx_store env com pend" and "others_keep env com"
  shows "advances (applied com s) (applied com (snd (stream_turns n env cfg cadence s)))"
proof (induction n arbitrary: s)
  case (Suc n)
  obtain r s' where i: "stream_iter env cfg cadence s = (r, s')" by fastforce
  have "advances (applied com s) (applied com s')"
    using adv_stream_iter [OF assms] i unfolding adv_def by (metis snd_conv)
  then show ?case
    using Suc.IH [of s'] advances_trans by (cases r) (auto simp: i split: bool.split)
qed simp

section \<open>Relations in the cache\<close>

text \<open>Every relation in the cache belongs to a replicated table.\<close>

definition rels_known :: "'w sstate \<Rightarrow> bool" where
  "rels_known s \<longleftrightarrow>
     (\<forall>i r. sm_rels s i = Some r \<longrightarrow> map_of (sm_expected s) (rel_schema r, rel_name r) \<noteq> None)"

definition stays_known :: "('w sstate, 'a) act \<Rightarrow> bool" where
  "stays_known m \<longleftrightarrow> (\<forall>s. rels_known s \<longrightarrow> rels_known (snd (m s)))"

lemma stays_known_bind:
  assumes "stays_known m" and "\<And>x. stays_known (g x)"
  shows "stays_known (bindA m g)"
  unfolding stays_known_def bindA_apply
proof (intro allI impI)
  fix s :: "'a sstate"
  assume s: "rels_known s"
  obtain r s' where m: "m s = (r, s')" by fastforce
  have "rels_known s'" using assms(1) s m unfolding stays_known_def by (metis snd_conv)
  then show "rels_known (snd (case m s of (Inl e, s') \<Rightarrow> (Inl e, s') | (Inr x, s') \<Rightarrow> g x s'))"
    using assms(2) by (cases r) (simp_all add: m stays_known_def)
qed

lemma rels_known_cong:
  "sm_rels s' = sm_rels s \<Longrightarrow> sm_expected s' = sm_expected s \<Longrightarrow> rels_known s' = rels_known s"
  by (simp add: rels_known_def)

lemma known_on_world: "stays_known (on_world m)"
  by (auto simp: stays_known_def on_world_def rels_known_def split: prod.split)

lemma known_note:
  "(\<And>s. sm_rels (f s) = sm_rels s \<and> sm_expected (f s) = sm_expected s) \<Longrightarrow>
     stays_known (\<lambda>s. (r, f s))"
  by (simp add: stays_known_def rels_known_def)

lemma known_resync_schema: "stays_known (resync_schema env cfg)"
  unfolding stays_known_def
proof (intro allI impI)
  fix s :: "'a sstate"
  assume s: "rels_known s"
  note w = on_world_frame
  show "rels_known (snd (resync_schema env cfg s))"
    using s by (auto simp: resync_schema_def Let_def rels_known_def keep_known_def dest!: w
        split: prod.split sum.split option.splits if_splits)
qed

lemma known_handle_relation: "stays_known (handle_relation env i ns n cols)"
  unfolding stays_known_def
proof (intro allI impI)
  fix s :: "'a sstate"
  assume s: "rels_known s"
  have "map_of (AList.update k v al) k' = (if k' = k then Some v else map_of al k')"
    for k k' v and al :: line_map
    by (simp add: AList.update_conv')
  then show "rels_known (snd (handle_relation env i ns n cols s))"
    using s by (auto simp: handle_relation_def Let_def rels_known_def dest!: on_world_frame
        split: prod.split sum.split option.splits if_splits schema_change.split)
qed

lemma known_handle_msg: "stays_known (handle_msg env cfg m)"
proof (cases m)
  case (Message pre content)
  have "handle_msg env cfg m = (if pre = ddl_signal_prefix
      then bindA (resync_schema env cfg) (\<lambda>_. on_world (resync_security env cfg)) else retA ())"
    by (simp add: Message fun_eq_iff)
  then show ?thesis
    using stays_known_bind [OF known_resync_schema known_on_world, of env cfg "\<lambda>_. resync_security env cfg"]
    by (simp add: stays_known_def)
next
  case (Relation i ns n ri cols)
  then show ?thesis using known_handle_relation by (simp add: stays_known_def)
next
  case (Commit cl e ts)
  then show ?thesis
    by (auto simp: stays_known_def handle_commit_def Let_def rels_known_def broadcast_def
        dest!: on_world_frame split: option.split prod.split sum.split)
qed (auto simp: stays_known_def rels_known_def buffer_change_def buffer_truncate_def
      split: sum.split prod.split)

lemma known_status:
  "stays_known (bindA (send_feedback env b)
     (\<lambda>_ s. (Inr (), (s :: 'a sstate)\<lparr>sm_last_status := clock env (rp_world s)\<rparr>)))"
proof (rule stays_known_bind)
  show "stays_known (send_feedback env b :: ('a sstate, unit) act)"
    by (auto simp: stays_known_def send_feedback_def on_world_def rels_known_def split: prod.split)
qed (simp add: stays_known_def rels_known_def)

lemma known_handle_repl: "stays_known (handle_repl env cfg m)"
proof (cases m)
  case (XLogData data)
  then show ?thesis using known_handle_msg [of env cfg] by (simp add: stays_known_def split: sum.split)
next
  case (Keepalive pos reply)
  show ?thesis
    unfolding stays_known_def
  proof (intro allI impI)
    fix s :: "'a sstate"
    assume "rels_known s"
    then have "rels_known (if sm_txn s = None then s\<lparr>rp_ack_pos := max (rp_ack_pos s) pos\<rparr> else s)"
      by (simp add: rels_known_def)
    then show "rels_known (snd (handle_repl env cfg m s))"
      using known_status [of env False] by (simp add: Keepalive Let_def stays_known_def cong: if_cong)
  qed
qed (simp add: stays_known_def)

lemma known_read_and_handle: "stays_known (read_and_handle env cfg)"
  unfolding read_and_handle_def
proof (rule stays_known_bind)
  show "stays_known (map_err (map_invalidated cfg) (on_world (repl_read env)) :: ('a sstate, repl_msg option) act)"
    by (auto simp: stays_known_def map_err_def on_world_def rels_known_def split: prod.split sum.split)
  show "stays_known (case msg of None \<Rightarrow> retA () | Some m \<Rightarrow> handle_repl env cfg m)" for msg
    using known_handle_repl by (cases msg) (simp_all add: stays_known_def)
qed

lemma known_polls: "stays_known (poll_status env cadence)" "stays_known (poll_roles env cfg)"
proof -
  show "stays_known (poll_status env cadence)"
    using known_status [of env False] by (simp add: stays_known_def poll_status_def)
  have "stays_known (bindA (on_world (resync_security env cfg))
      (\<lambda>_ s. (Inr (), (s :: 'a sstate)\<lparr>sm_last_poll := clock env (rp_world s)\<rparr>)))"
    by (rule stays_known_bind [OF known_on_world]) (simp add: stays_known_def rels_known_def)
  then show "stays_known (poll_roles env cfg :: ('a sstate, unit) act)"
    by (simp add: stays_known_def poll_roles_def)
qed

lemma known_stream_turns: "rels_known s \<Longrightarrow> rels_known (snd (stream_turns n env cfg cadence s))"
proof (induction n arbitrary: s)
  case (Suc n)
  have "stays_known (bindA (poll_status env cadence) (\<lambda>_. bindA (poll_roles env cfg) (\<lambda>_.
          bindA (read_and_handle env cfg) (\<lambda>_. retA False))))"
    by (intro stays_known_bind known_polls known_read_and_handle) (simp add: stays_known_def)
  then have "rels_known (snd (stream_iter env cfg cadence s))"
    using Suc.prems by (simp add: stays_known_def stream_iter_def)
  then show ?case
    using Suc.IH by (cases "stream_iter env cfg cadence s") (auto split: sum.split bool.split)
qed simp

section \<open>A stream of transactions\<close>

text \<open>
  What the upstream sends: whole transactions (the \<open>Begin\<close> payload, the messages inside it, the \<open>Commit\<close>
  payload), and keepalives between them. \<open>body_step\<close> reads one message inside a transaction: the
  statement it stands for, and the relations known after it.
\<close>

datatype item =
    Tx bytes "repl_msg list" bytes
  | Idle u64 bool

definition stmt_with :: "(u32 \<rightharpoonup> rel) \<Rightarrow> u32 \<Rightarrow> (rel \<Rightarrow> (string \<times> row_change) res) \<Rightarrow> string option" where
  "stmt_with rels i sql =
     (case bindR (rel_of rels i) sql of Inl _ \<Rightarrow> None | Inr p \<Rightarrow> Some (fst p))"

fun targets_of :: "(u32 \<rightharpoonup> rel) \<Rightarrow> u32 list \<Rightarrow> string list option" where
  "targets_of rels [] = Some []"
| "targets_of rels (i # is) =
     (case rels i of None \<Rightarrow> None | Some r \<Rightarrow> map_option ((#) (target r)) (targets_of rels is))"

fun msg_step ::
  "line_map \<Rightarrow> (u32 \<rightharpoonup> rel) \<Rightarrow> pgoutput_msg \<Rightarrow> (string list \<times> (u32 \<rightharpoonup> rel)) option" where
  "msg_step E rels (Relation i ns n ri cols) =
     (if map_of E (ns, n) = Some (fingerprint_line ns n (map (\<lambda>c. (col_name c, type_oid c)) cols))
      then Some ([], rels(i \<mapsto> \<lparr>rel_schema = ns, rel_name = n, rel_columns = cols\<rparr>)) else None)"
| "msg_step E rels (Insert i new) =
     map_option (\<lambda>q. ([q], rels)) (stmt_with rels i (\<lambda>r. insert_sql r new))"
| "msg_step E rels (Update i key old new) =
     map_option (\<lambda>q. ([q], rels)) (stmt_with rels i (\<lambda>r. update_sql r key old new))"
| "msg_step E rels (Delete i key old) =
     map_option (\<lambda>q. ([q], rels)) (stmt_with rels i (\<lambda>r. delete_sql r key old))"
| "msg_step E rels (Truncate is) =
     map_option (\<lambda>ts. ([''TRUNCATE '' @ join_str '', '' ts], rels)) (targets_of rels is)"
| "msg_step E rels (Message pre content) = (if pre = ddl_signal_prefix then None else Some ([], rels))"
| "msg_step E rels Other = Some ([], rels)"
| "msg_step E rels _ = None"

fun body_step ::
  "line_map \<Rightarrow> (u32 \<rightharpoonup> rel) \<Rightarrow> repl_msg \<Rightarrow> (string list \<times> (u32 \<rightharpoonup> rel)) option" where
  "body_step E rels (Keepalive pos reply) = Some ([], rels)"
| "body_step E rels (XLogData data) =
     (case decode data of Inl _ \<Rightarrow> None | Inr m \<Rightarrow> msg_step E rels m)"
| "body_step E rels StreamCopyDone = None"

fun read_body ::
  "line_map \<Rightarrow> (u32 \<rightharpoonup> rel) \<Rightarrow> repl_msg list \<Rightarrow> (string list \<times> (u32 \<rightharpoonup> rel)) option" where
  "read_body E rels [] = Some ([], rels)"
| "read_body E rels (m # ms) =
     (case body_step E rels m of
        None \<Rightarrow> None
      | Some (qs, rels) \<Rightarrow> map_option (\<lambda>(qs', rels). (qs @ qs', rels)) (read_body E rels ms))"

text \<open>The transactions in a stream: statements and end position.\<close>

fun read_tx ::
  "line_map \<Rightarrow> (u32 \<rightharpoonup> rel) \<Rightarrow> bytes \<Rightarrow> repl_msg list \<Rightarrow> bytes \<Rightarrow>
     ((string list \<times> u64) \<times> (u32 \<rightharpoonup> rel)) option" where
  "read_tx E rels b body c =
     (case (decode b, decode c) of
        (Inr (Begin _ _ _), Inr (Commit _ e _)) \<Rightarrow>
          map_option (\<lambda>(qs, rels). ((qs, e), rels)) (read_body E rels body)
      | _ \<Rightarrow> None)"

fun read_items ::
  "line_map \<Rightarrow> (u32 \<rightharpoonup> rel) \<Rightarrow> item list \<Rightarrow> (string list \<times> u64) list option" where
  "read_items E rels [] = Some []"
| "read_items E rels (Idle pos reply # is) = read_items E rels is"
| "read_items E rels (Tx b body c # is) =
     (case read_tx E rels b body c of
        None \<Rightarrow> None
      | Some (tx, rels) \<Rightarrow> map_option ((#) tx) (read_items E rels is))"

fun rels_after :: "line_map \<Rightarrow> (u32 \<rightharpoonup> rel) \<Rightarrow> item list \<Rightarrow> (u32 \<rightharpoonup> rel)" where
  "rels_after E rels [] = rels"
| "rels_after E rels (Idle pos reply # is) = rels_after E rels is"
| "rels_after E rels (Tx b body c # is) =
     (case read_tx E rels b body c of None \<Rightarrow> rels | Some (_, rels) \<Rightarrow> rels_after E rels is)"

lemma read_items_append:
  "read_items E rels (xs @ ys) = Some zs \<Longrightarrow>
     \<exists>z1 z2. zs = z1 @ z2 \<and> read_items E rels xs = Some z1 \<and>
       read_items E (rels_after E rels xs) ys = Some z2"
proof (induction xs arbitrary: rels zs)
  case (Cons it xs)
  show ?case
  proof (cases it)
    case (Idle pos reply)
    then show ?thesis using Cons by simp
  next
    case (Tx b body c)
    obtain tx rels1 zs' where t: "read_tx E rels b body c = Some (tx, rels1)"
      "read_items E rels1 (xs @ ys) = Some zs'" "zs = tx # zs'"
      using Cons.prems Tx by (auto split: option.splits)
    then show ?thesis using Cons.IH [OF t(2)] Tx by (auto simp del: read_tx.simps)
  qed
qed simp

fun item_msgs :: "item \<Rightarrow> repl_msg list" where
  "item_msgs (Tx b body c) = XLogData b # body @ [XLogData c]"
| "item_msgs (Idle pos reply) = [Keepalive pos reply]"

text \<open>Handling messages one after the other.\<close>

definition deliver :: "'w env \<Rightarrow> replica_config \<Rightarrow> repl_msg list \<Rightarrow> ('w sstate, unit) act" where
  "deliver env cfg ms = forA ms (handle_repl env cfg)"

text \<open>
  A transaction is due when it holds statements and ends above the watermark. A new connection starts
  with no relations, no open transaction, and the acknowledged position back at the watermark.
\<close>

definition due :: "u64 \<Rightarrow> (string list \<times> u64) list \<Rightarrow> (string list \<times> u64) list" where
  "due m txs = filter (\<lambda>(qs, e). qs \<noteq> [] \<and> m < e) txs"

definition increasing :: "(string list \<times> u64) list \<Rightarrow> bool" where
  "increasing txs \<longleftrightarrow> sorted_wrt (<) (map snd txs)"

definition between :: "'w sstate \<Rightarrow> bool" where
  "between s \<longleftrightarrow> sm_txn s = None \<and> sm_rels s = Map.empty"

definition reconnected :: "line_map \<Rightarrow> 'w sstate \<Rightarrow> 'w sstate" where
  "reconnected E s =
     s\<lparr>sm_rels := Map.empty, sm_txn := None, sm_expected := E, rp_ack_pos := rp_watermark s\<rparr>"

section \<open>Delivering them\<close>

definition inside ::
  "('w \<Rightarrow> string list list) \<Rightarrow> line_map \<Rightarrow> (u32 \<rightharpoonup> rel) \<Rightarrow> string list \<Rightarrow> u64 \<Rightarrow>
     string list list \<times> u64 \<Rightarrow> 'w sstate \<Rightarrow> bool" where
  "inside com E rels qs ack v s \<longleftrightarrow>
     (\<exists>buf. sm_txn s = Some buf \<and> tb_stmts buf = qs) \<and> sm_expected s = E \<and> sm_rels s = rels \<and>
     rp_ack_pos s = ack \<and> applied com s = v"

definition outside ::
  "('w \<Rightarrow> string list list) \<Rightarrow> line_map \<Rightarrow> (u32 \<rightharpoonup> rel) \<Rightarrow> u64 \<Rightarrow> string list list \<times> u64 \<Rightarrow>
     'w sstate \<Rightarrow> bool" where
  "outside com E rels ack v s \<longleftrightarrow>
     sm_txn s = None \<and> sm_expected s = E \<and> sm_rels s = rels \<and> rp_ack_pos s = ack \<and>
     applied com s = v"

lemma truncate_targets_of:
  "targets_of rels is = Some ts \<Longrightarrow>
     \<exists>buf'. truncate_targets rels is buf acc = (Inr (acc @ ts), buf') \<and> tb_stmts buf' = tb_stmts buf"
proof (induction "is" arbitrary: buf acc ts)
  case (Cons i "is")
  then obtain r ts' where r: "rels i = Some r" "targets_of rels is = Some ts'" "ts = target r # ts'"
    by (auto split: option.splits)
  show ?case
    using Cons.IH [OF r(2), of "buf\<lparr>tb_changes := tb_changes buf @ [ChTruncate (rel_schema r) (rel_name r)]\<rparr>"
        "acc @ [target r]"] r by (simp add: rel_of_def)
qed simp

lemma buffered:
  assumes "inside com E rels qs0 ack v s" and "stmt_with rels i f = Some q"
  shows "\<exists>s'. buffer_change i f s = (Inr (), s') \<and> inside com E rels (qs0 @ [q]) ack v s'"
  using assms by (auto simp: inside_def buffer_change_def stmt_with_def open_txn_def push_change_def
      applied_def split: sum.splits)

lemma inside_msg:
  assumes "inside com E rels qs0 ack v s" and "msg_step E rels m = Some (qs, rels')"
  shows "\<exists>s'. handle_msg env cfg m s = (Inr (), s') \<and> inside com E rels' (qs0 @ qs) ack v s'"
proof (cases m)
  case (Truncate "is")
  obtain buf where buf: "sm_txn s = Some buf" "tb_stmts buf = qs0" using assms(1) by (auto simp: inside_def)
  obtain ts where ts: "targets_of rels is = Some ts" "qs = [''TRUNCATE '' @ join_str '', '' ts]" "rels' = rels"
    using assms(2) Truncate by auto
  obtain buf' where "truncate_targets rels is buf [] = (Inr ts, buf')" "tb_stmts buf' = tb_stmts buf"
    using truncate_targets_of [OF ts(1), of buf "[]"] by auto
  then show ?thesis
    using assms(1) buf ts
    by (auto simp: Truncate buffer_truncate_def open_txn_def inside_def applied_def)
next
  case (Relation i ns n ri cols)
  then show ?thesis
    using assms by (auto simp: handle_relation_def Let_def inside_def applied_def split: if_splits)
next
  case (Insert i new)
  then show ?thesis using assms buffered [OF assms(1)] by auto
next
  case (Update i key old new)
  then show ?thesis using assms buffered [OF assms(1)] by auto
next
  case (Delete i key old)
  then show ?thesis using assms buffered [OF assms(1)] by auto
qed (use assms in \<open>auto split: if_splits\<close>)

lemma feedback_step:
  assumes "others_keep env com" and "send_feedback env b s = (r, s')"
  shows "\<exists>w'. s' = s\<lparr>rp_world := w'\<rparr> \<and> com w' = com (rp_world s)"
    and "never_fails env \<Longrightarrow> r = Inr ()"
proof -
  obtain w' where w: "repl_status env (feedback_lsn s) b (rp_world s) = (r, w')" "s' = s\<lparr>rp_world := w'\<rparr>"
    using on_world_frame assms(2) unfolding send_feedback_def by blast
  then show "\<exists>w'. s' = s\<lparr>rp_world := w'\<rparr> \<and> com w' = com (rp_world s)"
    using keepsD [OF others_keepD(10) [OF assms(1)] w(1)] by blast
  show "never_fails env \<Longrightarrow> r = Inr ()"
    using never_failsD(4) [of env "feedback_lsn s" b "rp_world s"] w(1) by simp
qed

text \<open>A keepalive: the acknowledged position moves outside a transaction only.\<close>

lemma keepalive_step:
  assumes "others_keep env com" and "handle_repl env cfg (Keepalive pos reply) s = (r, s')"
  shows "sm_txn s' = sm_txn s \<and> sm_expected s' = sm_expected s \<and> sm_rels s' = sm_rels s \<and>
      applied com s' = applied com s \<and>
      rp_ack_pos s' = (if sm_txn s = None then max (rp_ack_pos s) pos else rp_ack_pos s)"
    and "never_fails env \<Longrightarrow> r = Inr ()"
proof -
  define s1 where "s1 = (if sm_txn s = None then s\<lparr>rp_ack_pos := max (rp_ack_pos s) pos\<rparr> else s)"
  have s1: "sm_txn s1 = sm_txn s" "sm_expected s1 = sm_expected s" "sm_rels s1 = sm_rels s"
    "applied com s1 = applied com s" "rp_world s1 = rp_world s"
    "rp_ack_pos s1 = (if sm_txn s = None then max (rp_ack_pos s) pos else rp_ack_pos s)"
    by (simp_all add: s1_def applied_def)
  obtain r2 s2 where 2: "send_feedback env False s1 = (r2, s2)" by fastforce
  note f = feedback_step [OF assms(1) 2]
  have run: "(r, s') = (if reply then case r2 of Inl e \<Rightarrow> (Inl e, s2)
      | Inr _ \<Rightarrow> (Inr (), s2\<lparr>sm_last_status := clock env (rp_world s2)\<rparr>) else (Inr (), s1))"
    using assms(2) by (simp add: s1_def [symmetric] Let_def bindA_apply 2 cong: if_cong)
  show "sm_txn s' = sm_txn s \<and> sm_expected s' = sm_expected s \<and> sm_rels s' = sm_rels s \<and>
      applied com s' = applied com s \<and>
      rp_ack_pos s' = (if sm_txn s = None then max (rp_ack_pos s) pos else rp_ack_pos s)"
    using run f(1) s1 by (cases reply; cases r2) (auto simp: applied_def)
  show "never_fails env \<Longrightarrow> r = Inr ()"
    using run f(2) by (cases reply) auto
qed

lemma body_msg:
  assumes "others_keep env com" and "inside com E rels qs0 ack v s"
    and "body_step E rels m = Some (qs, rels')" and "handle_repl env cfg m s = (r, s')"
  shows "is_ok r \<Longrightarrow> inside com E rels' (qs0 @ qs) ack v s'" and "never_fails env \<Longrightarrow> is_ok r"
proof -
  have "(is_ok r \<longrightarrow> inside com E rels' (qs0 @ qs) ack v s') \<and> (never_fails env \<longrightarrow> is_ok r)"
  proof (cases m)
    case (Keepalive pos reply)
    have "r = Inr ()" if "never_fails env"
      using keepalive_step(2) [OF assms(1), of cfg pos reply s r s'] assms(4) that by (simp add: Keepalive)
    moreover have "inside com E rels' (qs0 @ qs) ack v s'"
      using keepalive_step(1) [OF assms(1), of cfg pos reply s r s'] assms(2-4)
      by (auto simp: Keepalive inside_def)
    ultimately show ?thesis by auto
  next
    case (XLogData data)
    then obtain x where x: "decode data = Inr x" "msg_step E rels x = Some (qs, rels')"
      using assms(3) by (auto split: sum.splits)
    show ?thesis
      using inside_msg [OF assms(2) x(2), of env cfg] assms(4) x(1) by (auto simp: XLogData)
  qed (use assms(3) in simp)
  then show "is_ok r \<Longrightarrow> inside com E rels' (qs0 @ qs) ack v s'" and "never_fails env \<Longrightarrow> is_ok r" by auto
qed

lemma deliver_append: "deliver env cfg (ms @ ns) s =
    (case deliver env cfg ms s of (Inl e, s1) \<Rightarrow> (Inl e, s1) | (Inr _, s1) \<Rightarrow> deliver env cfg ns s1)"
  by (simp add: deliver_def forA_append bindA_apply split: prod.split sum.split)

lemma deliver_Cons: "deliver env cfg (m # ms) s =
    (case handle_repl env cfg m s of (Inl e, s1) \<Rightarrow> (Inl e, s1) | (Inr _, s1) \<Rightarrow> deliver env cfg ms s1)"
  by (simp add: deliver_def bindA_apply split: prod.split sum.split)

lemma deliver_Nil [simp]: "deliver env cfg [] s = (Inr (), s)"
  by (simp add: deliver_def)

lemma deliver_body:
  assumes "others_keep env com" and "inside com E rels qs0 ack v s"
    and "read_body E rels ms = Some (qs, rels')" and "deliver env cfg ms s = (r, s')"
  shows "(is_ok r \<longrightarrow> inside com E rels' (qs0 @ qs) ack v s') \<and> (never_fails env \<longrightarrow> is_ok r)"
  using assms(2-4)
proof (induction ms arbitrary: s rels qs0 qs)
  case (Cons m ms)
  obtain q1 rels1 q2 where q: "body_step E rels m = Some (q1, rels1)"
    "read_body E rels1 ms = Some (q2, rels')" "qs = q1 @ q2"
    using Cons.prems(2) by (auto split: option.splits)
  obtain r1 s1 where 1: "handle_repl env cfg m s = (r1, s1)" by fastforce
  note b = body_msg [OF assms(1) Cons.prems(1) q(1) 1]
  show ?case
  proof (cases r1)
    case (Inl e)
    then show ?thesis using Cons.prems(3) 1 b(2) by (auto simp: deliver_Cons)
  next
    case (Inr u)
    then have "deliver env cfg ms s1 = (r, s')" using Cons.prems(3) 1 by (simp add: deliver_Cons)
    then show ?thesis using Cons.IH [OF b(1) q(2)] Inr q(3) by simp
  qed
qed auto

lemma read_body_prefix:
  "read_body E rels (ms @ ns) = Some (qs, rels') \<Longrightarrow> \<exists>qs1 rels1. read_body E rels ms = Some (qs1, rels1)"
  by (induction ms arbitrary: rels qs) (fastforce split: option.splits)+

lemma begin_msg:
  assumes "outside com E rels ack v s" and "decode b = Inr (Begin fl ts xid)"
  shows "\<exists>s'. handle_repl env cfg (XLogData b) s = (Inr (), s') \<and> inside com E rels [] ack v s'"
  using assms by (simp add: outside_def inside_def applied_def)

text \<open>What a transaction does to the acknowledged position, and to the blocks and the watermark.\<close>

definition tx_ack :: "u64 \<Rightarrow> u64 \<Rightarrow> u64 \<Rightarrow> u64" where
  "tx_ack mark e ack = (if e \<le> mark then ack else max ack e)"

definition tx_apply ::
  "string list \<times> u64 \<Rightarrow> string list list \<times> u64 \<Rightarrow> string list list \<times> u64" where
  "tx_apply tx v = (if snd tx \<le> snd v \<or> fst tx = [] then v
                    else (fst v @ [block (fst tx) (snd tx)], snd tx))"

lemma commit_msg:
  assumes "tx_store env com pend" and "inside com E rels qs ack v s"
    and "decode c = Inr (Commit cl e ts)" and "handle_repl env cfg (XLogData c) s = (r, s')"
  shows "(is_ok r \<longrightarrow> outside com E rels (tx_ack (snd v) e ack) (tx_apply (qs, e) v) s') \<and>
    (never_fails env \<longrightarrow> is_ok r)"
proof -
  obtain buf where buf: "sm_txn s = Some buf" "tb_stmts buf = qs" using assms(2) by (auto simp: inside_def)
  have v: "rp_watermark s = snd v" "com (rp_world s) = fst v" using assms(2) by (auto simp: inside_def applied_def)
  have run: "handle_commit env cl e ts s = (r, s')" using assms(3,4) by simp
  consider (old) "e \<le> snd v" | (empty) "\<not> e \<le> snd v" "qs = []" | (new) "\<not> e \<le> snd v" "qs \<noteq> []" by blast
  then show ?thesis
  proof cases
    case new
    obtain r1 w' where a: "apply_txn env qs (Lsn e) (rp_world s) = (r1, w')" by fastforce
    have ok: "never_fails env \<Longrightarrow> is_ok r1"
      using apply_txn_ok [of env qs "Lsn e" "rp_world s"] a by auto
    have "r = r1 \<and> (is_ok r1 \<longrightarrow> outside com E rels (max ack e) (fst v @ [block qs e], e) s')"
      using run new buf v a apply_txn_atomic [OF assms(1) a] assms(2)
      by (cases r1) (auto simp: handle_commit_def Let_def watermark_def less_eq_lsn_def on_world_def
          inside_def outside_def applied_def broadcast_def)
    then show ?thesis using new ok by (simp add: tx_ack_def tx_apply_def)
  qed (use run buf v assms(2) in \<open>auto simp: handle_commit_def Let_def watermark_def less_eq_lsn_def
        inside_def outside_def applied_def tx_ack_def tx_apply_def\<close>)
qed

lemma deliver_tx:
  assumes "tx_store env com pend" and "others_keep env com" and "outside com E rels ack v s"
    and "read_tx E rels b body c = Some (tx, rels')"
    and "deliver env cfg (item_msgs (Tx b body c)) s = (r, s')"
  shows "(is_ok r \<longrightarrow> outside com E rels' (tx_ack (snd v) (snd tx) ack) (tx_apply tx v) s') \<and>
    (never_fails env \<longrightarrow> is_ok r)"
proof -
  obtain fl bts xid cl e ts qs where t: "decode b = Inr (Begin fl bts xid)" "decode c = Inr (Commit cl e ts)"
    "read_body E rels body = Some (qs, rels')" "tx = (qs, e)"
    using assms(4) by (auto split: sum.splits pgoutput_msg.splits)
  obtain s1 where 1: "handle_repl env cfg (XLogData b) s = (Inr (), s1)" "inside com E rels [] ack v s1"
    using begin_msg [OF assms(3) t(1)] by blast
  obtain r2 s2 where 2: "deliver env cfg body s1 = (r2, s2)" by fastforce
  note b = deliver_body [OF assms(2) 1(2) t(3) 2]
  obtain r3 s3 where 3: "handle_repl env cfg (XLogData c) s2 = (r3, s3)" by fastforce
  have run: "(r, s') = (case r2 of Inl e \<Rightarrow> (Inl e, s2) | Inr _ \<Rightarrow> (r3, s3))"
    using assms(5) by (cases r2; cases r3)
      (auto simp: deliver_Cons deliver_append 1 2 3 simp del: handle_repl.simps)
  show ?thesis
  proof (cases r2)
    case (Inr u)
    then show ?thesis
      using run b commit_msg [OF assms(1) _ t(2) 3, of E rels' qs ack v] t(4) by simp
  qed (use run b in auto)
qed

lemma deliver_idle:
  assumes "others_keep env com" and "outside com E rels ack v s"
    and "deliver env cfg (item_msgs (Idle pos reply)) s = (r, s')"
  shows "(is_ok r \<longrightarrow> outside com E rels (max ack pos) v s') \<and> (never_fails env \<longrightarrow> is_ok r)"
proof -
  obtain r1 s1 where 1: "handle_repl env cfg (Keepalive pos reply) s = (r1, s1)" by fastforce
  have "r1 = r \<and> s1 = s'"
    using assms(3) by (cases r1) (auto simp: deliver_Cons 1 simp del: handle_repl.simps)
  then show ?thesis
    using keepalive_step [OF assms(1) 1] assms(2) by (auto simp: outside_def)
qed

lemma increasing_Cons: "increasing (tx # txs) \<longleftrightarrow> (\<forall>t \<in> set txs. snd tx < snd t) \<and> increasing txs"
  by (auto simp: increasing_def)

lemma due_later: "(\<forall>t \<in> set txs. m < snd t) \<Longrightarrow> due m txs = filter (\<lambda>(qs, e). qs \<noteq> []) txs"
  by (auto simp: due_def intro!: filter_cong)

definition apply_due :: "(string list \<times> u64) list \<Rightarrow> string list list \<times> u64 \<Rightarrow> string list list \<times> u64" where
  "apply_due txs v =
     (fst v @ map (\<lambda>(qs, e). block qs e) (due (snd v) txs), last (snd v # map snd (due (snd v) txs)))"

lemma apply_due_Cons:
  assumes "increasing (tx # txs)"
  shows "apply_due txs (tx_apply tx v) = apply_due (tx # txs) v"
proof (cases "snd tx \<le> snd v \<or> fst tx = []")
  case True
  then have "due (snd v) (tx # txs) = due (snd v) txs"
    by (auto simp: due_def split: prod.split)
  then show ?thesis using True by (auto simp: tx_apply_def apply_due_def)
next
  case False
  have a: "\<forall>t \<in> set txs. snd tx < snd t" using assms by (simp add: increasing_Cons)
  moreover have "\<forall>t \<in> set txs. snd v < snd t" using a False by (meson linorder_le_less_linear order.strict_trans)
  ultimately have d: "due (snd tx) txs = due (snd v) txs" by (simp add: due_later)
  have "due (snd v) (tx # txs) = tx # due (snd v) txs"
    using False by (cases tx) (simp add: due_def not_le)
  then show ?thesis using False d by (cases tx) (simp add: tx_apply_def apply_due_def)
qed

lemma deliver_items:
  assumes "tx_store env com pend" and "others_keep env com" and "outside com E rels ack v s"
    and "read_items E rels items = Some txs" and "increasing txs"
    and "deliver env cfg (concat (map item_msgs items)) s = (r, s')"
  shows "(is_ok r \<longrightarrow> (\<exists>ack'. outside com E (rels_after E rels items) ack' (apply_due txs v) s')) \<and>
    (never_fails env \<longrightarrow> is_ok r)"
  using assms(3-6)
proof (induction items arbitrary: s rels ack v txs)
  case Nil
  then show ?case by (auto simp: apply_due_def due_def)
next
  case (Cons it items)
  obtain r1 s1 where 1: "deliver env cfg (item_msgs it) s = (r1, s1)" by fastforce
  have run: "(r, s') = (case r1 of Inl e \<Rightarrow> (Inl e, s1)
      | Inr _ \<Rightarrow> deliver env cfg (concat (map item_msgs items)) s1)"
    using Cons.prems(4) by (simp add: deliver_append 1)
  show ?case
  proof (cases it)
    case (Idle pos reply)
    note i = deliver_idle [OF assms(2) Cons.prems(1) 1 [unfolded Idle]]
    show ?thesis
    proof (cases r1)
      case (Inr u)
      then show ?thesis
        using i run Cons.IH [of rels "max ack pos" v s1 txs] Cons.prems(2,3) Idle by simp
    qed (use i run in auto)
  next
    case (Tx b body c)
    obtain tx rels1 txs' where t: "read_tx E rels b body c = Some (tx, rels1)"
      "read_items E rels1 items = Some txs'" "txs = tx # txs'"
      using Cons.prems(2) Tx by (auto split: option.splits)
    note i = deliver_tx [OF assms(1,2) Cons.prems(1) t(1) 1 [unfolded Tx]]
    show ?thesis
    proof (cases r1)
      case (Inr u)
      have "increasing txs'" using Cons.prems(3) t(3) by (simp add: increasing_Cons)
      moreover have "deliver env cfg (concat (map item_msgs items)) s1 = (r, s')" using run Inr by simp
      moreover have "outside com E rels1 (tx_ack (snd v) (snd tx) ack) (tx_apply tx v) s1" using i Inr by simp
      ultimately have "(is_ok r \<longrightarrow> (\<exists>ack'. outside com E (rels_after E rels1 items) ack' (apply_due txs' (tx_apply tx v)) s')) \<and>
          (never_fails env \<longrightarrow> is_ok r)"
        using Cons.IH [OF _ t(2)] by blast
      then show ?thesis using apply_due_Cons [of tx txs' v] Cons.prems(3) t(3) t(1) Tx
        by (simp del: read_tx.simps)
    qed (use i run in auto)
  qed
qed

text \<open>A transaction that is not finished changes nothing.\<close>

lemma deliver_unfinished:
  assumes "others_keep env com" and "outside com E rels ack v s" and "read_tx E rels b body c \<noteq> None"
    and "prefix ms (XLogData b # body)" and "deliver env cfg ms s = (r, s')"
  shows "(is_ok r \<longrightarrow> applied com s' = v \<and> rp_ack_pos s' = ack) \<and> (never_fails env \<longrightarrow> is_ok r)"
proof (cases ms)
  case Nil
  then show ?thesis using assms(2,5) by (auto simp: outside_def)
next
  case (Cons m ms')
  then obtain rest where m: "m = XLogData b" "body = ms' @ rest" using assms(4) by (auto simp: prefix_def)
  obtain fl bts xid where t: "decode b = Inr (Begin fl bts xid)" and body: "read_body E rels body \<noteq> None"
    using assms(3) by (auto split: sum.splits pgoutput_msg.splits)
  obtain qs rels1 where q: "read_body E rels ms' = Some (qs, rels1)"
    using body read_body_prefix [of E rels ms' rest] m(2) by auto
  obtain s1 where 1: "handle_repl env cfg (XLogData b) s = (Inr (), s1)" "inside com E rels [] ack v s1"
    using begin_msg [OF assms(2) t] by blast
  have "deliver env cfg ms' s1 = (r, s')"
    using assms(5) Cons m(1) 1(1) by (simp add: deliver_Cons del: handle_repl.simps)
  then show ?thesis using deliver_body [OF assms(1) 1(2) q] by (auto simp: inside_def)
qed

text \<open>Redelivery: what ends at or below the watermark is skipped.\<close>

lemma last_due:
  assumes "increasing (xs @ ys)"
  shows "m \<le> last (m # map snd (due m xs))"
    and "t \<in> set (due m xs) \<Longrightarrow> snd t \<le> last (m # map snd (due m xs))"
    and "t \<in> set ys \<Longrightarrow> last (m # map snd (due m xs)) < snd t \<longleftrightarrow> m < snd t"
proof -
  have s: "sorted_wrt (<) (m # map snd (due m xs))"
    using assms by (auto simp: due_def increasing_def sorted_wrt_append sorted_wrt_map
        intro: sorted_wrt_filter)
  show 1: "m \<le> last (m # map snd (due m xs))" using sorted_wrt_last_le [OF s] by simp
  show "t \<in> set (due m xs) \<Longrightarrow> snd t \<le> last (m # map snd (due m xs))"
    using sorted_wrt_last_le [OF s] by simp
  assume t: "t \<in> set ys"
  have "last (m # map snd (due m xs)) = m \<or> last (m # map snd (due m xs)) \<in> snd ` set xs"
  proof (cases "due m xs = []")
    case False
    then have "last (map snd (due m xs)) \<in> snd ` set (due m xs)" by (metis last_in_set map_is_Nil_conv set_map)
    then show ?thesis using False by (auto simp: due_def)
  qed simp
  then show "last (m # map snd (due m xs)) < snd t \<longleftrightarrow> m < snd t"
    using t assms 1 by (auto simp: increasing_def sorted_wrt_append)
qed

lemma apply_due_again:
  assumes "increasing (a @ b @ c)"
  shows "apply_due (b @ c) (apply_due (a @ b) v) = apply_due (a @ b @ c) v"
proof -
  let ?m = "last (snd v # map snd (due (snd v) (a @ b)))"
  have abc: "increasing ((a @ b) @ c)" using assms by simp
  note l = last_due [OF abc, where m = "snd v"]
  have "due ?m b = []"
    unfolding due_def [of _ b] filter_empty_conv
  proof (intro ballI)
    fix t
    assume t: "t \<in> set b"
    show "\<not> (case t of (qs, e) \<Rightarrow> qs \<noteq> [] \<and> ?m < e)"
    proof (cases "t \<in> set (due (snd v) (a @ b))")
      case True
      then show ?thesis using l(2) [OF True] by (auto simp: not_less)
    next
      case False
      then show ?thesis using t l(1) by (auto simp: due_def not_less)
    qed
  qed
  moreover have "due ?m c = due (snd v) c"
    using l(3) assms by (auto simp: due_def intro!: filter_cong)
  ultimately have 1: "due ?m (b @ c) = due (snd v) c" by (simp add: due_def)
  have 2: "due (snd v) (a @ b @ c) = due (snd v) (a @ b) @ due (snd v) c" by (simp add: due_def)
  show ?thesis
    unfolding apply_due_def using 1 2
    by (cases "due (snd v) c" rule: rev_cases) simp_all
qed

section \<open>Keepalives\<close>

text \<open>
  The upstream's contract: the position of a keepalive between transactions is below the end of every
  transaction that is still to come.
\<close>

fun behind :: "line_map \<Rightarrow> (u32 \<rightharpoonup> rel) \<Rightarrow> item list \<Rightarrow> bool" where
  "behind E rels [] = True"
| "behind E rels (Idle pos reply # is) =
     ((case read_items E rels is of None \<Rightarrow> False | Some txs \<Rightarrow> list_all (\<lambda>tx. pos < snd tx) txs) \<and>
      behind E rels is)"
| "behind E rels (Tx b body c # is) =
     (case read_tx E rels b body c of None \<Rightarrow> False | Some (_, rels) \<Rightarrow> behind E rels is)"

lemma deliver_grows:
  assumes "tx_store env com pend" and "others_keep env com" and "deliver env cfg ms s = (r, s')"
  shows "set (com (rp_world s)) \<subseteq> set (com (rp_world s'))"
  using assms(3)
proof (induction ms arbitrary: s)
  case (Cons m ms)
  obtain r1 s1 where 1: "handle_repl env cfg m s = (r1, s1)" by fastforce
  have "advances (applied com s) (applied com s1)"
    using adv_handle_repl [OF assms(1,2)] 1 unfolding adv_def by (metis snd_conv)
  then have "set (com (rp_world s)) \<subseteq> set (com (rp_world s1))"
    by (auto simp: advances_def applied_def)
  then show ?case
    using Cons.prems Cons.IH [of s1] 1 by (cases r1) (auto simp: deliver_Cons)
qed simp

lemma prefix_item:
  assumes "prefix ms (item_msgs it @ rest)"
  obtains (part) "prefix ms (item_msgs it)" "ms \<noteq> item_msgs it"
    | (whole) ns where "ms = item_msgs it @ ns" "prefix ns rest"
proof -
  from assms have "prefix ms (item_msgs it) \<or> (\<exists>ns. ms = item_msgs it @ ns \<and> prefix ns rest)"
    by (simp add: prefix_append)
  then show thesis
  proof
    assume p: "prefix ms (item_msgs it)"
    show thesis
    proof (cases "ms = item_msgs it")
      case True
      then show thesis using whole [of "[]"] by simp
    qed (use p part in simp)
  qed (use whole in blast)
qed

lemma ack_safe_aux:
  assumes "tx_store env com pend" and "others_keep env com"
    and "outside com E rels ack v s" and "read_items E rels items = Some txs" and "increasing txs"
    and "behind E rels items" and "\<And>tx. tx \<in> set txs \<Longrightarrow> snd tx \<le> max ack (snd v) \<Longrightarrow> snd tx \<le> m0"
    and "prefix ms (concat (map item_msgs items))" and "deliver env cfg ms s = (Inr (), s')"
    and "tx \<in> set (due m0 txs)" and "Lsn (snd tx) \<le> feedback_lsn s'"
  shows "block (fst tx) (snd tx) \<in> set (com (rp_world s'))"
  using assms(3-10)
proof (induction items arbitrary: s rels ack v txs ms)
  case Nil
  then show ?case by (simp add: due_def)
next
  case (Cons it items)
  have not_yet: False if "rp_ack_pos s' = ack" "rp_watermark s' = snd v"
  proof -
    have "snd tx \<le> max ack (snd v)"
      using assms(11) that by (simp add: feedback_lsn_def less_eq_lsn_def max.commute)
    then show False using Cons.prems(5) [of tx] Cons.prems(8) by (auto simp: due_def)
  qed
  have rest: "prefix ms (item_msgs it @ concat (map item_msgs items))" using Cons.prems(6) by simp
  from rest show ?case
  proof (cases rule: prefix_item)
    case part
    show ?thesis
    proof (cases it)
      case (Idle pos reply)
      then have "ms = []" using part by (auto simp: prefix_Cons)
      then have "s' = s" using Cons.prems(7) by simp
      then have "rp_watermark s' = snd v" "rp_ack_pos s' = ack"
        using Cons.prems(1) by (auto simp: outside_def applied_def)
      then show ?thesis using not_yet by blast
    next
      case (Tx b body c)
      have "prefix ms (XLogData b # body)"
        using part Tx by (simp add: prefix_snoc del: append_Cons add: append_Cons [symmetric])
      moreover have "read_tx E rels b body c \<noteq> None"
        using Cons.prems(2) Tx by (auto split: option.splits)
      ultimately have "applied com s' = v \<and> rp_ack_pos s' = ack"
        using deliver_unfinished [OF assms(2) Cons.prems(1), of b body c ms cfg "Inr ()" s'] Cons.prems(7)
        by simp
      then have "rp_watermark s' = snd v" "rp_ack_pos s' = ack" by (auto simp: applied_def)
      then show ?thesis using not_yet by blast
    qed
  next
    case (whole ns)
    obtain r1 s1 where 1: "deliver env cfg (item_msgs it) s = (r1, s1)" by fastforce
    have r1: "r1 = Inr ()" and 2: "deliver env cfg ns s1 = (Inr (), s')"
      using Cons.prems(7) whole(1) by (cases r1; simp add: deliver_append 1)+
    show ?thesis
    proof (cases it)
      case (Idle pos reply)
      have o: "outside com E rels (max ack pos) v s1"
        using deliver_idle [OF assms(2) Cons.prems(1) 1 [unfolded Idle]] r1 by simp
      have "\<And>t. t \<in> set txs \<Longrightarrow> pos < snd t"
        using Cons.prems(2,4) Idle by (auto simp: list_all_iff)
      then show ?thesis
        using Cons.IH [OF o _ Cons.prems(3) _ _ whole(2) 2 Cons.prems(8)] Cons.prems(2,4,5) Idle
        by (metis behind.simps(2) le_max_iff_disj linorder_not_le read_items.simps(2))
    next
      case (Tx b body c)
      obtain t rels1 txs' where t: "read_tx E rels b body c = Some (t, rels1)"
        "read_items E rels1 items = Some txs'" "txs = t # txs'"
        using Cons.prems(2) Tx by (auto split: option.splits)
      have o: "outside com E rels1 (tx_ack (snd v) (snd t) ack) (tx_apply t v) s1"
        using deliver_tx [OF assms(1,2) Cons.prems(1) t(1) 1 [unfolded Tx]] r1 by simp
      have inc: "\<And>u. u \<in> set txs' \<Longrightarrow> snd t < snd u" "increasing txs'"
        using Cons.prems(3) t(3) by (auto simp: increasing_Cons)
      show ?thesis
      proof (cases "tx \<in> set (due m0 txs')")
        case True
        have m: "max (tx_ack (snd v) (snd t) ack) (snd (tx_apply t v)) \<le> max (max ack (snd v)) (snd t)"
          by (auto simp: tx_ack_def tx_apply_def max_def)
        have later: "snd u \<le> m0"
          if u: "u \<in> set txs'" "snd u \<le> max (tx_ack (snd v) (snd t) ack) (snd (tx_apply t v))" for u
        proof -
          have "snd u \<le> max (max ack (snd v)) (snd t)" using u(2) m by (rule order.trans)
          then have "snd u \<le> max ack (snd v)"
            using inc(1) [OF u(1)] by (metis le_max_iff_disj linorder_not_le)
          then show ?thesis using Cons.prems(5) [of u] u(1) t(3) by simp
        qed
        have "behind E rels1 items" using Cons.prems(4) Tx t(1) by simp
        then show ?thesis
          using Cons.IH [OF o t(2) inc(2) _ later whole(2) 2 True] assms(11) by blast
      next
        case False
        then have tx: "tx = t" "fst t \<noteq> []" "m0 < snd t"
          using Cons.prems(8) t(3) by (auto simp: due_def split: if_splits prod.splits)
        have "\<not> snd t \<le> snd v"
          using Cons.prems(5) [of t] t(3) tx(3) by (metis le_max_iff_disj leD list.set_intros(1))
        then have "block (fst t) (snd t) \<in> set (com (rp_world s1))"
          using o tx(2) by (simp add: outside_def applied_def tx_apply_def)
        then show ?thesis using deliver_grows [OF assms(1,2) 2] tx(1) by auto
      qed
    qed
  qed
qed

section \<open>Properties\<close>

section \<open>Properties\<close>

text \<open>
  C1. Exactly once under redelivery: a stream delivers the transactions \<open>a @ b\<close> and breaks off inside
  the next one; the connection is taken up again and the upstream sends \<open>b @ c\<close>. Nothing fails, and the
  database has committed, each once and in order, exactly the transactions of \<open>a @ b @ c\<close> that hold
  statements and end above the initial watermark, each together with its own new watermark.
\<close>

theorem stream_exactly_once:
  assumes "tx_store env com pend" and "others_keep env com" and "never_fails env"
    and "read_items (sm_expected s) Map.empty (xs @ [Tx begin_data body commit_data]) = Some (a @ b @ [t])"
    and "prefix part (XLogData begin_data # body)"
    and "read_items E Map.empty ys = Some (b @ c)" and "increasing (a @ b @ c)"
    and "sm_txn s = None" and "sm_rels s = Map.empty"
  shows "\<exists>s'. bindA (deliver env cfg (concat (map item_msgs xs) @ part))
        (\<lambda>_ s1. deliver env cfg (concat (map item_msgs ys)) (reconnected E s1)) s = (Inr (), s') \<and>
      com (rp_world s') =
        com (rp_world s) @ map (\<lambda>(qs, e). block qs e) (due (rp_watermark s) (a @ b @ c))"
proof -
  let ?E = "sm_expected s" and ?v = "applied com s"
  have o: "outside com ?E Map.empty (rp_ack_pos s) ?v s" using assms(8,9) by (simp add: outside_def)
  obtain z1 z2 where z: "a @ b @ [t] = z1 @ z2" "read_items ?E Map.empty xs = Some z1"
    "read_items ?E (rels_after ?E Map.empty xs) [Tx begin_data body commit_data] = Some z2"
    using read_items_append [OF assms(4)] by blast
  have t: "read_tx ?E (rels_after ?E Map.empty xs) begin_data body commit_data \<noteq> None" "length z2 = 1"
    using z(3) by (auto simp del: read_tx.simps split: option.splits)
  then have z1: "z1 = a @ b" using z(1) by (metis append_assoc append_same_eq length_Suc_conv length_0_conv One_nat_def append_eq_append_conv list.size(3,4))
  have inc: "increasing z1" "increasing (b @ c)" using assms(7) z1 by (auto simp: increasing_def sorted_wrt_append)
  obtain r1 s1 where 1: "deliver env cfg (concat (map item_msgs xs)) s = (r1, s1)" by fastforce
  obtain ack where d1: "r1 = Inr ()" "outside com ?E (rels_after ?E Map.empty xs) ack (apply_due z1 ?v) s1"
    using deliver_items [OF assms(1,2) o z(2) inc(1) 1] assms(3) by (auto simp: is_ok_iff)
  obtain r2 s2 where 2: "deliver env cfg part s1 = (r2, s2)" by fastforce
  have d2: "r2 = Inr ()" "applied com s2 = apply_due z1 ?v"
    using deliver_unfinished [OF assms(2) d1(2) t(1) assms(5) 2] assms(3) by (auto simp: is_ok_iff)
  have o2: "outside com E Map.empty (rp_watermark s2) (apply_due z1 ?v) (reconnected E s2)"
    using d2(2) by (simp add: outside_def reconnected_def applied_def)
  obtain r3 s3 where 3: "deliver env cfg (concat (map item_msgs ys)) (reconnected E s2) = (r3, s3)" by fastforce
  have "r3 = Inr ()" "applied com s3 = apply_due (b @ c) (apply_due z1 ?v)"
    using deliver_items [OF assms(1,2) o2 assms(6) inc(2) 3] assms(3) by (auto simp: is_ok_iff outside_def)
  moreover have "apply_due (b @ c) (apply_due z1 ?v) = apply_due (a @ b @ c) ?v"
    using apply_due_again [OF assms(7)] z1 by simp
  ultimately show ?thesis
    using 1 2 3 d1(1) d2(1)
    by (auto simp: bindA_apply deliver_append applied_def apply_due_def)
qed

text \<open>
  C3. No transaction is acknowledged before it is applied: against an upstream whose keepalives stay
  behind the transactions still to come, after any messages of the stream, whatever position the
  replica would report, every due transaction up to that position is committed.
\<close>

theorem stream_ack_safe:
  assumes "tx_store env com pend" and "others_keep env com"
    and "read_items (sm_expected s) Map.empty items = Some txs" and "increasing txs"
    and "behind (sm_expected s) Map.empty items"
    and "sm_txn s = None" and "sm_rels s = Map.empty" and "rp_ack_pos s \<le> rp_watermark s"
    and "prefix ms (concat (map item_msgs items))" and "deliver env cfg ms s = (Inr (), s')"
  shows "{block qs e |qs e. (qs, e) \<in> set (due (rp_watermark s) txs) \<and> Lsn e \<le> feedback_lsn s'}
    \<subseteq> set (com (rp_world s'))"
proof -
  have o: "outside com (sm_expected s) Map.empty (rp_ack_pos s) (applied com s) s"
    using assms(6,7) by (simp add: outside_def)
  have m: "max (rp_ack_pos s) (snd (applied com s)) = rp_watermark s"
    using assms(8) by (simp add: applied_def max_absorb2)
  show ?thesis
    using ack_safe_aux [OF assms(1,2) o assms(3-5) _ assms(9,10), of "rp_watermark s"] m by force
qed

text \<open>
  C24. Changes are only ever read against replicated tables: over any number of turns of the loop and
  any input, every relation in the cache belongs to a table of the expected fingerprint.
\<close>

theorem stream_rels_known:
  "sm_rels s = Map.empty \<Longrightarrow> rels_known (snd (stream_turns n env cfg cadence s))"
  by (rule known_stream_turns) (simp add: rels_known_def)

section \<open>A database to run it on\<close>

text \<open>
  The contracts hold of the plainest database: the world is the list of committed blocks with the
  statements of the open transaction.
\<close>

type_synonym block_log = "string list list \<times> string list"

definition note_env :: "block_log env" where
  "note_env =
     \<lparr>env_db = \<lparr>db_exec = \<lambda>_. retA (), db_query = \<lambda>_ _. retA []\<rparr>,
      tx_begin = (\<lambda>(done_blocks, _). (Inr (), (done_blocks, []))),
      tx_exec = (\<lambda>q (done_blocks, p). (Inr (), (done_blocks, p @ [q]))),
      tx_commit = (\<lambda>(done_blocks, p). (Inr (), (done_blocks @ [p], []))),
      tx_drop = (\<lambda>(done_blocks, _). (done_blocks, [])),
      snap_connect = retA (), snap_query = \<lambda>_. retA [], snap_copy_out = \<lambda>_ _. retA (), snap_close = id,
      copy_in = \<lambda>_ _. retA (), repl_connect = retA (), repl_query = \<lambda>_. retA [], repl_start = \<lambda>_. retA (),
      repl_timeout = \<lambda>_. retA (), repl_read = retA None, repl_status = \<lambda>_ _. retA (), repl_close = id,
      stop_requested = \<lambda>_. False, clock = \<lambda>_. 0, sleep = \<lambda>_. id, visit_keys = id, visit_lines = id\<rparr>"

lemma note_env_contracts:
  "tx_store note_env fst snd" "others_keep note_env fst" "never_fails note_env"
  by (auto simp: note_env_def tx_store_def others_keep_def never_fails_def db_keeps_def keeps_def)

definition sample_columns :: "rel_column list" where
  "sample_columns = [\<lparr>flags = 1, col_name = ''id'', type_oid = 23, type_modifier = -1\<rparr>]"

definition sample_rel :: rel where
  "sample_rel = \<lparr>rel_schema = ''public'', rel_name = ''t'', rel_columns = sample_columns\<rparr>"

definition sample_expected :: line_map where
  "sample_expected = [((''public'', ''t''), fingerprint_line ''public'' ''t'' [(''id'', 23)])]"

definition wal :: "pgoutput_msg \<Rightarrow> bytes" where
  "wal m = encode_msg 0 0 m"

definition sample_body :: "string \<Rightarrow> repl_msg list" where
  "sample_body x =
     [XLogData (wal (Relation 7 ''public'' ''t'' 100 sample_columns)), Keepalive 900 True,
      XLogData (wal (Insert 7 (TupleData [Text x])))]"

definition sample_tx :: "string \<Rightarrow> u64 \<Rightarrow> item" where
  "sample_tx x e = Tx (wal (Begin 0 0 1)) (sample_body x) (wal (Commit 0 e 0))"

definition sample_insert :: "string \<Rightarrow> string" where
  "sample_insert x = ''INSERT INTO '' @ target sample_rel @ '' ('' @ ident ''id'' @ '') VALUES ('' @ lit x @ '')''"

definition sample_state :: "block_log sstate" where
  "sample_state =
     \<lparr>rp_world = ([], []), rp_done = False, rp_stopped = False, rp_halted = False, rp_halt_reason = None,
      rp_watermark = 100, rp_ack_pos = 100, rp_subscribers = [], rp_delay = 0,
      sm_expected = sample_expected, sm_rels = Map.empty, sm_txn = None, sm_last_status = 0,
      sm_last_poll = 0\<rparr>"

lemma wal_decodes:
  "wf_msg m \<Longrightarrow> decode (wal m) = Inr m"
  using decode_encode_append [of m 0 0 "[]"] by (simp add: wal_def)

lemma sample_decodes [simp]:
  "decode (wal (Begin l t x)) = Inr (Begin l t x)" "decode (wal (Commit l e t)) = Inr (Commit l e t)"
  "decode (wal (Relation 7 ''public'' ''t'' 100 sample_columns)) = Inr (Relation 7 ''public'' ''t'' 100 sample_columns)"
  "decode (wal (Insert 7 (TupleData [Text ''1'']))) = Inr (Insert 7 (TupleData [Text ''1'']))"
  "decode (wal (Insert 7 (TupleData [Text ''2'']))) = Inr (Insert 7 (TupleData [Text ''2'']))"
  by (rule wal_decodes, simp add: wf_tuple_def wf_name_def valid_str_def utf8_width_def sample_columns_def)+

lemma sample_inserts:
  "stmt_with (rels(7 \<mapsto> \<lparr>rel_schema = ''public'', rel_name = ''t'', rel_columns = sample_columns\<rparr>)) 7
     (\<lambda>r. insert_sql r (TupleData [Text x])) = Some (sample_insert x)"
  by (simp add: stmt_with_def rel_of_def insert_sql_def check_arity_def sample_columns_def sample_insert_def
      sample_rel_def target_def)

lemma sample_line [simp]:
  "map_of sample_expected (''public'', ''t'') =
     Some (fingerprint_line ''public'' ''t'' (map (\<lambda>c. (col_name c, type_oid c)) sample_columns))"
  by (simp add: sample_expected_def sample_columns_def)

lemma sample_reads:
  "read_items sample_expected rels (sample_tx ''1'' e # is) =
     map_option ((#) ([sample_insert ''1''], e)) (read_items sample_expected
       (rels(7 \<mapsto> \<lparr>rel_schema = ''public'', rel_name = ''t'', rel_columns = sample_columns\<rparr>)) is)"
  "read_items sample_expected rels (sample_tx ''2'' e # is) =
     map_option ((#) ([sample_insert ''2''], e)) (read_items sample_expected
       (rels(7 \<mapsto> \<lparr>rel_schema = ''public'', rel_name = ''t'', rel_columns = sample_columns\<rparr>)) is)"
  by (simp_all add: sample_tx_def sample_body_def sample_inserts)

lemma sample_part:
  "prefix (take 2 (item_msgs (sample_tx x e))) (XLogData (wal (Begin 0 0 1)) # sample_body x)"
  by (simp add: sample_tx_def sample_body_def)

theorem stream_exactly_once_witness:
  "\<exists>s'. bindA (deliver note_env default_config (concat (map item_msgs [sample_tx ''1'' 200]) @
            take 2 (item_msgs (sample_tx ''2'' 300))))
        (\<lambda>_ s1. deliver note_env default_config
           (concat (map item_msgs [sample_tx ''1'' 200, sample_tx ''2'' 300])) (reconnected sample_expected s1))
        sample_state = (Inr (), s') \<and>
      fst (rp_world s') = [block [sample_insert ''1''] 200, block [sample_insert ''2''] 300]"
  using stream_exactly_once [OF note_env_contracts, of sample_state "[sample_tx ''1'' 200]"
      "wal (Begin 0 0 1)" "sample_body ''2''" "wal (Commit 0 300 0)" "[]" "[([sample_insert ''1''], 200)]"
      "([sample_insert ''2''], 300)" "take 2 (item_msgs (sample_tx ''2'' 300))" sample_expected
      "[sample_tx ''1'' 200, sample_tx ''2'' 300]" "[([sample_insert ''2''], 300)]" default_config] sample_part [of "''2''" 300]
  by (simp add: sample_state_def sample_reads sample_tx_def [symmetric] increasing_def due_def)

theorem stream_ack_safe_witness:
  "\<exists>s'. deliver note_env default_config
        (concat (map item_msgs [Idle 150 True, sample_tx ''1'' 200, Idle 250 True])) sample_state = (Inr (), s') \<and>
      {block qs e |qs e. (qs, e) \<in> set (due 100 [([sample_insert ''1''], 200), ([sample_insert ''2''], 300)]) \<and>
          Lsn e \<le> feedback_lsn s'} \<subseteq> set (fst (rp_world s'))"
proof -
  let ?items = "[Idle 150 True, sample_tx ''1'' 200, Idle 250 True, sample_tx ''2'' 300]"
  let ?ms = "concat (map item_msgs [Idle 150 True, sample_tx ''1'' 200, Idle 250 True])"
  let ?txs = "[([sample_insert ''1''], 200), ([sample_insert ''2''], 300)]"
  obtain r s' where 1: "deliver note_env default_config ?ms sample_state = (r, s')" by fastforce
  have st: "sm_expected sample_state = sample_expected" "sm_rels sample_state = Map.empty"
    "sm_txn sample_state = None" "rp_ack_pos sample_state = 100" "rp_watermark sample_state = 100"
    by (simp_all add: sample_state_def)
  have rd: "read_items (sm_expected sample_state) Map.empty ?items = Some ?txs"
    by (simp add: st sample_reads)
  have rd1: "read_items sample_expected Map.empty [Idle 150 True, sample_tx ''1'' 200, Idle 250 True] =
      Some [([sample_insert ''1''], 200)]"
    by (simp add: sample_reads)
  have "outside fst sample_expected Map.empty 100 (applied fst sample_state) sample_state"
    by (simp add: outside_def st)
  from deliver_items [OF note_env_contracts(1,2) this rd1 _ 1] note_env_contracts(3)
  have ok: "r = Inr ()" by (simp add: increasing_def is_ok_iff)
  have beh: "behind (sm_expected sample_state) Map.empty ?items"
  proof -
    have "read_tx sample_expected rels (wal (Begin 0 0 1)) (sample_body ''1'') (wal (Commit 0 200 0)) =
        Some (([sample_insert ''1''], 200), rels(7 \<mapsto> \<lparr>rel_schema = ''public'', rel_name = ''t'', rel_columns = sample_columns\<rparr>))"
      "read_tx sample_expected rels (wal (Begin 0 0 1)) (sample_body ''2'') (wal (Commit 0 300 0)) =
        Some (([sample_insert ''2''], 300), rels(7 \<mapsto> \<lparr>rel_schema = ''public'', rel_name = ''t'', rel_columns = sample_columns\<rparr>))"
      for rels by (simp_all add: sample_body_def sample_inserts)
    then show ?thesis by (simp add: st sample_reads) (simp add: sample_tx_def)
  qed
  have pre: "prefix ?ms (concat (map item_msgs ?items))" by (simp add: prefix_def)
  have inc: "increasing ?txs" by (simp add: increasing_def)
  have ack: "rp_ack_pos sample_state \<le> rp_watermark sample_state" by (simp add: st)
  show ?thesis
    using stream_ack_safe [OF note_env_contracts(1,2) rd inc beh st(3) st(2) ack pre, of default_config s'] 1 ok
    by (simp add: st)
qed

theorem stream_rels_known_witness:
  "rels_known (snd (stream_turns 3 note_env default_config 10 sample_state))"
  by (rule stream_rels_known) (simp add: sample_state_def)

end
