(* ===== verification/Replica.thy ===== *)
theory Replica
  imports StreamSpec
begin

text \<open>
  \<^verbatim>\<open>replica/mod.rs\<close>, the replica's thread: backoff, starting the replication, the loop over connections
  (\<open>run\<close>), the preparation of a first and of a later start, and decommissioning. Loops that wait take a
  bound on their turns; \<open>False\<close> or \<open>None\<close> is a loop that is still running there.
\<close>

section \<open>Backoff\<close>

definition backoff_initial :: nat where
  "backoff_initial = from_millis 25"

definition backoff_max :: nat where
  "backoff_max = from_secs 10"

definition next_delay :: "('w, 'm) rep_scheme \<Rightarrow> nat \<times> ('w, 'm) rep_scheme" where
  "next_delay r = (rp_delay r, r\<lparr>rp_delay := min (rp_delay r * 2) backoff_max\<rparr>)"

definition reset_delay :: "('w, 'm) rep_scheme \<Rightarrow> ('w, 'm) rep_scheme" where
  "reset_delay r = r\<lparr>rp_delay := backoff_initial\<rparr>"

fun nap :: "nat \<Rightarrow> 'w env \<Rightarrow> nat \<Rightarrow> 'w rep \<Rightarrow> bool \<times> 'w rep" where
  "nap 0 env deadline r = (False, r)"
| "nap (Suc n) env deadline r =
     (if is_done env r then (True, r)
      else let remaining = deadline - clock env (rp_world r) in
        if remaining = 0 then (True, r)
        else nap n env deadline
               (r\<lparr>rp_world := sleep env (min remaining (from_millis 50)) (rp_world r)\<rparr>))"

definition sleep_done_aware :: "nat \<Rightarrow> 'w env \<Rightarrow> 'w rep \<Rightarrow> bool \<times> 'w rep" where
  "sleep_done_aware n env r =
     (let (delay, r') = next_delay r in nap n env (clock env (rp_world r) + delay) r')"

section \<open>Starting the replication\<close>

text \<open>The wait for the slot: \<open>Some (Inr ())\<close> when the time is over.\<close>

fun slot_wait :: "nat \<Rightarrow> 'w env \<Rightarrow> nat \<Rightarrow> 'w rep \<Rightarrow> unit res option \<times> 'w rep" where
  "slot_wait 0 env deadline r = (None, r)"
| "slot_wait (Suc n) env deadline r =
     (if clock env (rp_world r) < deadline
      then if is_done env r
        then (Some (Inl (Upstream ''stopped while waiting for the replication slot'')), r)
        else slot_wait n env deadline (r\<lparr>rp_world := sleep env (from_millis 50) (rp_world r)\<rparr>)
      else (Some (Inr ()), r))"

text \<open>\<open>left\<close> counts the retries that are left, five at first.\<close>

fun start_attempts ::
  "nat \<Rightarrow> nat \<Rightarrow> 'w env \<Rightarrow> replica_config \<Rightarrow> 'w rep \<Rightarrow> unit res option \<times> 'w rep" where
  "start_attempts n left env cfg r =
     (case on_world (repl_start env
             (start_replication_sql (cf_slot_name cfg) (watermark r) (cf_publication cfg))) r of
        (Inr _, r) \<Rightarrow> (Some (Inr ()), r)
      | (Inl e, r) \<Rightarrow>
          (case (e, left) of
             (Database state _ _ _, Suc left') \<Rightarrow>
               if state = ''55006''
               then (case slot_wait n env (clock env (rp_world r) + from_millis 200) r of
                       (Some (Inr _), r) \<Rightarrow> start_attempts n left' env cfg r
                     | res \<Rightarrow> res)
               else (Some (Inl (map_invalidated cfg e)), r)
           | _ \<Rightarrow> (Some (Inl (map_invalidated cfg e)), r)))"

definition start_replication_with_retry ::
  "nat \<Rightarrow> 'w env \<Rightarrow> replica_config \<Rightarrow> 'w rep \<Rightarrow> unit res option \<times> 'w rep" where
  "start_replication_with_retry n = start_attempts n 5"

section \<open>The stream\<close>

definition stream_cadence :: "replica_config \<Rightarrow> u64 option \<Rightarrow> nat" where
  "stream_cadence cfg timeout =
     (case timeout of
        Some ms \<Rightarrow> min (cf_status_interval cfg) (from_millis (unat (ms * 3 div 4)))
      | None \<Rightarrow> cf_status_interval cfg)"

definition stream_read_timeout :: "replica_config \<Rightarrow> nat \<Rightarrow> nat" where
  "stream_read_timeout cfg cadence =
     max (min (cf_read_timeout cfg) (cadence div 2)) (from_millis 250)"

text \<open>The local variables of \<open>stream_loop\<close> at its start.\<close>

definition stream_state :: "'w env \<Rightarrow> string \<Rightarrow> 'w rep \<Rightarrow> 'w sstate" where
  "stream_state env fp r =
     rep.extend r
       \<lparr>sm_expected = expected_of (str_lines fp) [], sm_rels = Map.empty, sm_txn = None,
        sm_last_status = clock env (rp_world r), sm_last_poll = clock env (rp_world r)\<rparr>"

definition stream_loop ::
  "nat \<Rightarrow> 'w env \<Rightarrow> replica_config \<Rightarrow> string \<Rightarrow> 'w rep \<Rightarrow> unit res option \<times> 'w rep" where
  "stream_loop n env cfg fp r =
     (case on_world (wal_sender_timeout_ms (repl_query env)) r of
        (Inl e, r) \<Rightarrow> (Some (Inl e), r)
      | (Inr timeout, r) \<Rightarrow>
          (case start_replication_with_retry n env cfg r of
             (None, r) \<Rightarrow> (None, r)
           | (Some (Inl e), r) \<Rightarrow> (Some (Inl e), r)
           | (Some (Inr _), r) \<Rightarrow>
               let cadence = stream_cadence cfg timeout in
               (case bindA (on_world (repl_timeout env (stream_read_timeout cfg cadence)))
                       (\<lambda>_. send_feedback env False) (reset_delay r) of
                  (Inl e, r) \<Rightarrow> (Some (Inl e), r)
                | (Inr _, r) \<Rightarrow>
                    (case stream_turns n env cfg cadence (stream_state env fp r) of
                       (res, s) \<Rightarrow> (res, rep.truncate s)))))"

section \<open>The loop over connections\<close>

definition halt :: "error \<Rightarrow> ('w, 'm) rep_scheme \<Rightarrow> ('w, 'm) rep_scheme" where
  "halt e r =
     (let r = r\<lparr>rp_done := True\<rparr> in
      if e = Closed then r
      else r\<lparr>rp_halt_reason := Some (error_to_string e), rp_halted := True\<rparr>)"

definition close_conn :: "'w env \<Rightarrow> 'w rep \<Rightarrow> 'w rep" where
  "close_conn env r = r\<lparr>rp_world := repl_close env (rp_world r)\<rparr>"

text \<open>\<open>conn\<close> says whether the connection of the preparation is still to be used.\<close>

fun run :: "nat \<Rightarrow> 'w env \<Rightarrow> replica_config \<Rightarrow> string \<Rightarrow> bool \<Rightarrow> 'w rep \<Rightarrow> bool \<times> 'w rep" where
  "run 0 env cfg fp conn r = (False, r)"
| "run (Suc n) env cfg fp conn r =
     (if is_done env r then (True, r)
      else
        let again = (\<lambda>r. case sleep_done_aware n env r of
                       (False, r) \<Rightarrow> (False, r) | (True, r) \<Rightarrow> run n env cfg fp False r)
        in (case (if conn then (Inr (), r) else on_world (repl_connect env) r) of
              (Inl e, r) \<Rightarrow> if is_fatal e then (True, halt e r) else again r
            | (Inr _, r) \<Rightarrow>
                (case stream_loop n env cfg fp r of
                   (None, r) \<Rightarrow> (False, r)
                 | (Some (Inr _), r) \<Rightarrow> (True, close_conn env r)
                 | (Some (Inl e), r) \<Rightarrow>
                     let r = close_conn env r in
                     if is_fatal e then (True, halt e r)
                     else again (r\<lparr>rp_ack_pos := rp_watermark r\<rparr>))))"

section \<open>Preparation\<close>

definition create_slot_sql :: "string \<Rightarrow> string" where
  "create_slot_sql slot =
     ''CREATE_REPLICATION_SLOT '' @ [dq] @ replace_char dq [dq, dq] slot @ [dq] @
     '' LOGICAL pgoutput EXPORT_SNAPSHOT''"

definition drop_slot_sql :: "string \<Rightarrow> string" where
  "drop_slot_sql slot =
     ''DROP_REPLICATION_SLOT '' @ [dq] @ replace_char dq [dq, dq] slot @ [dq] @ '' WAIT''"

definition create_slot :: "'w env \<Rightarrow> string \<Rightarrow> ('w, sql_row list) act" where
  "create_slot env slot w =
     (case repl_query env (create_slot_sql slot) w of
        (Inr rows, w) \<Rightarrow> (Inr rows, w)
      | (Inl (Database state m d h), w) \<Rightarrow>
          if state = ''42710''
          then bindA (repl_query env (drop_slot_sql slot)) (\<lambda>_. repl_query env (create_slot_sql slot)) w
          else (Inl (Database state m d h), w)
      | (Inl e, w) \<Rightarrow> (Inl e, w))"

definition slot_point :: "sql_row list \<Rightarrow> (lsn \<times> string) res" where
  "slot_point rows =
     (case rows of
        [] \<Rightarrow> Inl (Protocol ''CREATE_REPLICATION_SLOT returned no row'')
      | row # _ \<Rightarrow>
          bindR (ok_or (Protocol ''missing consistent_point'') (cell_at 1 row)) (\<lambda>p.
          bindR (from_pg_str p) (\<lambda>point.
          bindR (ok_or (Protocol ''missing exported snapshot name'') (cell_at 2 row)) (\<lambda>snapshot.
            Inr (point, snapshot)))))"

definition first_run :: "'w env \<Rightarrow> replica_config \<Rightarrow> ('w, lsn \<times> string) act" where
  "first_run env cfg =
     (let slot = cf_slot_name cfg; publication = cf_publication cfg; snap = snap_query env; db = env_db env in
      bindA (repl_query env (''SET lock_timeout = '' @ [sq] @ ''29s'' @ [sq])) (\<lambda>_.
      bindA (create_slot env slot) (\<lambda>rows.
      bindA (liftA (slot_point rows)) (\<lambda>(point, snapshot).
      bindA (snap_connect env) (\<lambda>_.
      bindA (snap ''BEGIN ISOLATION LEVEL REPEATABLE READ'') (\<lambda>_.
      bindA (snap (''SET TRANSACTION SNAPSHOT '' @ lit snapshot)) (\<lambda>_.
      bindA (introspect snap publication) (\<lambda>tables.
      bindA (check_extension_types snap tables) (\<lambda>_.
      bindA (introspect_types snap publication) (\<lambda>types.
      let fp = fingerprint tables in
      bindA (bootstrap_schema db types tables) (\<lambda>_.
      bindA (copy_tables (snap_copy_out env) (copy_in env) tables) (\<lambda>_.
      bindA (introspect_security snap publication) (\<lambda>security.
      bindA (reconcile_security db security) (\<lambda>_.
      let security_fp = security_fingerprint security in
      bindA (snap ''COMMIT'') (\<lambda>_.
      bindA (\<lambda>w. (Inr (), snap_close env w)) (\<lambda>_.
      bindA (init_state db slot publication point fp) (\<lambda>_.
      bindA (bump_security db security_fp) (\<lambda>_.
        retA (point, fp)))))))))))))))))))"

definition prepare :: "'w env \<Rightarrow> replica_config \<Rightarrow> replica_state option \<Rightarrow> ('w, lsn \<times> string) act" where
  "prepare env cfg state =
     bindA (repl_connect env) (\<lambda>_.
       case state of
         Some s \<Rightarrow>
           if st_slot_name s \<noteq> cf_slot_name cfg \<or> st_publication s \<noteq> cf_publication cfg
           then failA (ReplicaConfigError (''replica meta mismatch: stored slot/publication '' @
                  st_slot_name s @ ''/'' @ st_publication s @ '' differ from configured '' @
                  cf_slot_name cfg @ ''/'' @ cf_publication cfg))
           else retA (st_watermark s, st_fingerprint s)
       | None \<Rightarrow> first_run env cfg)"

section \<open>The handle\<close>

fun check_config :: "(string \<times> string) list \<Rightarrow> unit res" where
  "check_config [] = Inr ()"
| "check_config ((field, val) # fs) =
     (if val = [] then Inl (ReplicaConfigError (field @ '' must not be empty'')) else check_config fs)"

definition config_fields :: "replica_config \<Rightarrow> (string \<times> string) list" where
  "config_fields cfg =
     [(''host'', cf_host cfg), (''user'', cf_user cfg), (''database'', cf_database cfg),
      (''publication'', cf_publication cfg), (''slot_name'', cf_slot_name cfg)]"

definition new_replica :: "'w \<Rightarrow> 'w rep" where
  "new_replica w =
     \<lparr>rp_world = w, rp_done = False, rp_stopped = False, rp_halted = False, rp_halt_reason = None,
      rp_watermark = 0, rp_ack_pos = 0, rp_subscribers = [], rp_delay = backoff_initial\<rparr>"

text \<open>
  The thread up to the answer on its boot channel, and after it. \<open>start\<close> returns with that answer, and
  the state the thread goes on from.
\<close>

definition boot :: "'w env \<Rightarrow> replica_config \<Rightarrow> replica_state option \<Rightarrow> ('w rep, string) act" where
  "boot env cfg state r =
     (case on_world (prepare env cfg state) r of
        (Inl e, r) \<Rightarrow> (Inl e, r\<lparr>rp_stopped := True\<rparr>)
      | (Inr (point, fp), r) \<Rightarrow> (Inr fp, r\<lparr>rp_watermark := lsn_val point, rp_ack_pos := lsn_val point\<rparr>))"

definition start :: "'w env \<Rightarrow> replica_config \<Rightarrow> 'w \<Rightarrow> string res \<times> 'w rep" where
  "start env cfg w =
     (case bindA (liftA (check_config (config_fields cfg))) (\<lambda>_.
             bindA (ensure_meta_table (env_db env)) (\<lambda>_. load_state (env_db env))) w of
        (Inl e, w) \<Rightarrow> (Inl e, new_replica w)
      | (Inr state, w) \<Rightarrow> boot env cfg state (new_replica w))"

definition thread_rest :: "nat \<Rightarrow> 'w env \<Rightarrow> replica_config \<Rightarrow> string \<Rightarrow> 'w rep \<Rightarrow> bool \<times> 'w rep" where
  "thread_rest n env cfg fp r =
     (case run n env cfg fp True (r\<lparr>rp_delay := backoff_initial\<rparr>) of
        (finished, r) \<Rightarrow> (finished, if finished then r\<lparr>rp_stopped := True\<rparr> else r))"

definition stop :: "('w, 'm) rep_scheme \<Rightarrow> ('w, 'm) rep_scheme" where
  "stop r = r\<lparr>rp_done := True\<rparr>"

definition subscribe :: "('w, 'm) rep_scheme \<Rightarrow> ('w, 'm) rep_scheme" where
  "subscribe r = r\<lparr>rp_subscribers := rp_subscribers r @ [(True, [])]\<rparr>"

section \<open>Decommissioning\<close>

definition slot_pid_sql :: "string \<Rightarrow> string" where
  "slot_pid_sql slot = ''SELECT active_pid::text FROM pg_replication_slots WHERE slot_name = '' @ slot"

fun drop_slot_attempts :: "nat \<Rightarrow> 'w env \<Rightarrow> string \<Rightarrow> ('w, unit) act" where
  "drop_slot_attempts left env slot w =
     (case snap_query env (''SELECT pg_drop_replication_slot('' @ slot @ '')'') w of
        (Inr _, w) \<Rightarrow> (Inr (), w)
      | (Inl e, w) \<Rightarrow>
          (case e of
             Database state _ _ _ \<Rightarrow>
               if state = ''42704'' then (Inr (), w)
               else (case left of
                       Suc left' \<Rightarrow>
                         if state = ''55006''
                         then drop_slot_attempts left' env slot (sleep env (from_millis 200) w)
                         else (Inl e, w)
                     | 0 \<Rightarrow> (Inl e, w))
           | _ \<Rightarrow> (Inl e, w)))"

definition decommission :: "'w env \<Rightarrow> replica_config \<Rightarrow> ('w, unit) act" where
  "decommission env cfg =
     (let slot = lit (cf_slot_name cfg) in
      bindA (snap_connect env) (\<lambda>_.
      bindA (closing
        (bindA (snap_query env (slot_pid_sql slot)) (\<lambda>rows.
         bindA (case Option.bind (first_cell rows) parse_i64 of
                  Some pid \<Rightarrow>
                    bindA (snap_query env (''SELECT pg_terminate_backend('' @ show_int pid @ '')''))
                      (\<lambda>_. retA ())
                | None \<Rightarrow> retA ()) (\<lambda>_.
           drop_slot_attempts 5 env slot)))
        (snap_close env)) (\<lambda>_.
      bindA (ensure_meta_table (env_db env)) (\<lambda>_.
        db_exec (env_db env) ''DELETE FROM _pglite_replica''))))"

section \<open>Lemmas\<close>

text \<open>Backoff: the delay after \<open>k\<close> failures, and the naps that make up a sleep.\<close>

definition delay_after :: "nat \<Rightarrow> nat" where
  "delay_after k = min (backoff_initial * 2 ^ k) backoff_max"

lemma delay_after_Suc: "min (delay_after k * 2) backoff_max = delay_after (Suc k)"
  by (simp add: delay_after_def min_def)

definition clock_advances :: "'w env \<Rightarrow> bool" where
  "clock_advances env \<longleftrightarrow> (\<forall>t w. clock env (sleep env t w) \<ge> clock env w + t)"

lemma nap_ends:
  assumes "clock_advances env" and "deadline - clock env (rp_world r) \<le> n * from_millis 50"
  shows "\<exists>w'. nap (Suc n) env deadline r = (True, r\<lparr>rp_world := w'\<rparr>) \<and>
    (is_done env (r\<lparr>rp_world := w'\<rparr>) \<or> deadline \<le> clock env w')"
  using assms(2)
proof (induction n arbitrary: r)
  case 0
  then show ?case by (auto simp: Let_def intro!: exI [of _ "rp_world r"])
next
  case (Suc n)
  let ?left = "deadline - clock env (rp_world r)"
  let ?w = "sleep env (min ?left (from_millis 50)) (rp_world r)"
  show ?case
  proof (cases "is_done env r \<or> ?left = 0")
    case True
    then show ?thesis by (auto simp: Let_def intro!: exI [of _ "rp_world r"])
  next
    case False
    have "clock env ?w \<ge> clock env (rp_world r) + min ?left (from_millis 50)"
      using assms(1) by (simp add: clock_advances_def)
    then have "deadline - clock env (rp_world (r\<lparr>rp_world := ?w\<rparr>)) \<le> n * from_millis 50"
      using Suc.prems by auto
    then have "\<exists>w'. nap (Suc n) env deadline (r\<lparr>rp_world := ?w\<rparr>) = (True, r\<lparr>rp_world := w'\<rparr>) \<and>
        (is_done env (r\<lparr>rp_world := w'\<rparr>) \<or> deadline \<le> clock env w')"
      using Suc.IH [of "r\<lparr>rp_world := ?w\<rparr>"] by simp
    moreover have "nap (Suc (Suc n)) env deadline r = nap (Suc n) env deadline (r\<lparr>rp_world := ?w\<rparr>)"
      using False by (simp add: Let_def)
    ultimately show ?thesis by metis
  qed
qed

text \<open>What a run leaves to the database: whole transactions, in order.\<close>

lemma advances_keeps: "keeps (applied com) m \<Longrightarrow> m r = (x, r') \<Longrightarrow> applied com r' = applied com r"
  by (rule keepsD)

lemma nap_applied:
  assumes "others_keep env com"
  shows "applied com (snd (nap n env deadline r)) = applied com r"
proof (induction n arbitrary: r)
  case (Suc n)
  then show ?case using others_keepD(12) [OF assms] by (simp add: Let_def applied_def)
qed simp

lemma sleep_applied:
  "others_keep env com \<Longrightarrow> applied com (snd (sleep_done_aware n env r)) = applied com r"
  by (simp add: sleep_done_aware_def next_delay_def nap_applied) (simp add: applied_def)

lemma slot_wait_applied:
  assumes "others_keep env com"
  shows "applied com (snd (slot_wait n env deadline r)) = applied com r"
proof (induction n arbitrary: r)
  case (Suc n)
  then show ?case using others_keepD(12) [OF assms] by (simp add: applied_def)
qed simp

lemma start_attempts_applied:
  assumes "others_keep env com"
  shows "applied com (snd (start_attempts n left env cfg r)) = applied com r"
proof (induction left arbitrary: r)
  case 0
  then show ?case
    using keepsD [OF keeps_on_world [OF others_keepD(7) [OF assms]]]
    by (simp split: prod.split sum.split error.split) blast
next
  case (Suc left)
  obtain x r1 where 1: "on_world (repl_start env (start_replication_sql (cf_slot_name cfg) (watermark r)
      (cf_publication cfg))) r = (x, r1)" by fastforce
  have a: "applied com r1 = applied com r"
    using keepsD [OF keeps_on_world [OF others_keepD(7) [OF assms]] 1] .
  let ?d = "clock env (rp_world r1) + 200000000"
  obtain y r2 where 2: "slot_wait n env ?d r1 = (y, r2)" by fastforce
  have b: "applied com r2 = applied com r1"
    using slot_wait_applied [OF assms, of n ?d r1] 2 by simp
  show ?case
    using a b Suc.IH [of r2] by (simp add: 1 2 split: sum.split error.split option.split)
qed

lemma applied_extend [simp]: "applied com (stream_state env fp r) = applied com r"
  by (simp add: applied_def stream_state_def rep.defs)

lemma applied_truncate [simp]: "applied com (rep.truncate s) = applied com (s :: ('w, 'm) rep_scheme)"
  by (simp add: applied_def rep.defs)

lemma stream_loop_advances:
  assumes "tx_store env com pend" and "others_keep env com"
  shows "advances (applied com r) (applied com (snd (stream_loop n env cfg fp r)))"
proof -
  obtain x r1 where 1: "on_world (wal_sender_timeout_ms (repl_query env)) r = (x, r1)" by fastforce
  have "keeps com (wal_sender_timeout_ms (repl_query env))"
    unfolding wal_sender_timeout_ms_def using assms(2) by (intro keeps)
  then have a1: "applied com r1 = applied com r" using keepsD [OF keeps_on_world 1] by blast
  obtain y r2 where 2: "start_replication_with_retry n env cfg r1 = (y, r2)" by fastforce
  have a2: "applied com r2 = applied com r1"
    using start_attempts_applied [OF assms(2), of n 5 cfg r1] 2 by (simp add: start_replication_with_retry_def)
  show ?thesis
  proof (cases "is_ok x \<and> (case y of Some z \<Rightarrow> is_ok z | None \<Rightarrow> False)")
    case False
    then show ?thesis
      using a1 a2 by (auto simp: stream_loop_def 1 2 split: sum.split option.split)
  next
    case True
    then obtain timeout where xy: "x = Inr timeout" "y = Some (Inr ())" by (auto simp: is_ok_iff split: option.splits)
    let ?c = "stream_cadence cfg timeout"
    let ?prep = "bindA (on_world (repl_timeout env (stream_read_timeout cfg ?c)))
        (\<lambda>_. send_feedback env False) :: ('a rep, unit) act"
    obtain z r3 where 3: "?prep (reset_delay r2) = (z, r3)" by fastforce
    have "keeps (applied com) ?prep" using assms(2) by (intro keeps)
    then have "applied com (snd (?prep (reset_delay r2))) = applied com (reset_delay r2)"
      unfolding keeps_def by blast
    then have a3: "applied com r3 = applied com r2" by (simp add: 3) (simp add: applied_def reset_delay_def)
    show ?thesis
    proof (cases z)
      case (Inl e)
      then show ?thesis using a1 a2 a3 xy by (simp add: stream_loop_def 1 2 3)
    next
      case (Inr u)
      obtain res s where 4: "stream_turns n env cfg ?c (stream_state env fp r3) = (res, s)" by fastforce
      then have "stream_loop n env cfg fp r = (res, rep.truncate s)"
        using xy Inr by (simp add: stream_loop_def 1 2 3)
      then show ?thesis
        using a1 a2 a3 4 stream_turns_advance [OF assms, of "stream_state env fp r3" n cfg ?c] by simp
    qed
  qed
qed

lemma on_world_applied:
  "keeps com m \<Longrightarrow> on_world m r = (x, r') \<Longrightarrow> applied com r' = applied com r"
  by (rule keepsD [OF keeps_on_world])

lemma run_advances:
  assumes "tx_store env com pend" and "others_keep env com"
  shows "advances (applied com r) (applied com (snd (run n env cfg fp conn r)))"
proof (induction n arbitrary: conn r)
  case (Suc n)
  let ?again = "\<lambda>r. case sleep_done_aware n env r of
      (False, r) \<Rightarrow> (False, r) | (True, r) \<Rightarrow> run n env cfg fp False r"
  have again: "advances (applied com r) (applied com (snd (?again r)))" for r
  proof -
    obtain b r' where "sleep_done_aware n env r = (b, r')" by fastforce
    then show ?thesis
      using sleep_applied [OF assms(2), of n r] Suc.IH [of r' False] by (cases b) simp_all
  qed
  obtain x r1 where 1: "(if conn then (Inr (), r) else on_world (repl_connect env) r) = (x, r1)" by fastforce
  have a1: "applied com r1 = applied com r"
    using 1 on_world_applied [OF others_keepD(5) [OF assms(2)], of r x r1] by (auto split: if_splits)
  have close: "applied com (close_conn env r) = applied com r" for r
    using others_keepD(11) [OF assms(2)] by (simp add: applied_def close_conn_def)
  have halt: "applied com (halt e r) = applied com r" for e and r :: "'a rep"
    by (simp add: applied_def halt_def Let_def)
  have ack: "applied com (r\<lparr>rp_ack_pos := p\<rparr>) = applied com r" for p r by (simp add: applied_def)
  obtain y r2 where 2: "stream_loop n env cfg fp r1 = (y, r2)" by fastforce
  have a2: "advances (applied com r) (applied com r2)"
    using stream_loop_advances [OF assms, of r1 n cfg fp] 2 a1 by simp
  have a3: "advances (applied com r) (applied com (snd (?again (close_conn env r2\<lparr>rp_ack_pos := p\<rparr>))))" for p
  proof -
    have eq: "applied com (close_conn env r2\<lparr>rp_ack_pos := p\<rparr>) = applied com r2"
      unfolding ack close ..
    show ?thesis
      by (rule advances_trans [OF a2])
        (rule again [of "close_conn env r2\<lparr>rp_ack_pos := p\<rparr>", unfolded eq])
  qed
  show ?case
  proof (cases "is_done env r")
    case False
    then have run: "run (Suc n) env cfg fp conn r =
        (case x of Inl e \<Rightarrow> if is_fatal e then (True, halt e r1) else ?again r1
         | Inr _ \<Rightarrow> (case y of None \<Rightarrow> (False, r2) | Some (Inr _) \<Rightarrow> (True, close_conn env r2)
             | Some (Inl e) \<Rightarrow> let r = close_conn env r2 in if is_fatal e then (True, halt e r)
                 else ?again (r\<lparr>rp_ack_pos := rp_watermark r\<rparr>)))"
      using 1 2 by (cases x) (simp_all add: Let_def)
    show ?thesis
    proof (cases x)
      case (Inl e)
      then show ?thesis using a1 again [of r1] halt [of e r1] by (simp add: run del: run.simps)
    next
      case (Inr u)
      show ?thesis
      proof (cases y)
        case None
        then show ?thesis using Inr a2 by (simp add: run del: run.simps)
      next
        case (Some z)
        then show ?thesis
          using Inr a2 a3 [of "rp_watermark (close_conn env r2)"] close [of r2] halt
          by (cases z) (simp_all add: run Let_def del: run.simps)
      qed
    qed
  qed simp
qed simp

text \<open>Halting: only \<open>halt\<close> touches the flags and the reason.\<close>

definition halt_flags :: "('w, 'm) rep_scheme \<Rightarrow> bool \<times> bool \<times> string option" where
  "halt_flags r = (rp_done r, rp_halted r, rp_halt_reason r)"

lemma flags_on_world [keeps]: "keeps halt_flags (on_world m)"
  by (simp add: keeps_def on_world_def halt_flags_def split: prod.split)

lemma flags_feedback [keeps]: "keeps halt_flags (send_feedback env b)"
  by (simp add: keeps_def send_feedback_def on_world_def halt_flags_def split: prod.split)

lemma flags_set [keeps]: "(\<And>s. halt_flags (f s) = halt_flags s) \<Longrightarrow> keeps halt_flags (\<lambda>s. (r, f s))"
  by (simp add: keeps_def)

lemma flags_handle_msg: "keeps halt_flags (handle_msg env cfg m :: ('w sstate, unit) act)"
proof (cases m)
  case (Message pre content)
  have "keeps halt_flags (resync_schema env cfg :: ('w sstate, unit) act)"
    by (auto simp: keeps_def resync_schema_def Let_def halt_flags_def dest!: on_world_frame
        split: prod.split sum.split)
  then have "keeps halt_flags (bindA (resync_schema env cfg) (\<lambda>_. on_world (resync_security env cfg)) :: ('w sstate, unit) act)"
    by (intro keeps)
  then show ?thesis by (simp add: Message keeps_def)
next
  case (Relation i ns n ri cols)
  then show ?thesis
    by (auto simp: keeps_def handle_relation_def Let_def halt_flags_def dest!: on_world_frame
        split: prod.split sum.split option.split schema_change.split)
next
  case (Commit cl e ts)
  then show ?thesis
    by (auto simp: keeps_def handle_commit_def Let_def halt_flags_def broadcast_def dest!: on_world_frame
        split: option.split prod.split sum.split)
qed (auto simp: keeps_def halt_flags_def buffer_change_def buffer_truncate_def split: sum.split prod.split)

lemma flags_status:
  "keeps halt_flags (bindA (send_feedback env b)
     (\<lambda>_ s. (Inr (), (s :: 'w sstate)\<lparr>sm_last_status := clock env (rp_world s)\<rparr>)))"
  by (intro keeps) (simp add: halt_flags_def)

lemma flags_handle_repl: "keeps halt_flags (handle_repl env cfg m :: ('w sstate, unit) act)"
proof (cases m)
  case (XLogData data)
  then show ?thesis using flags_handle_msg [of env cfg] by (simp add: keeps_def split: sum.split)
next
  case (Keepalive pos reply)
  show ?thesis
    unfolding keeps_def
  proof
    fix s :: "'w sstate"
    let ?s = "if sm_txn s = None then s\<lparr>rp_ack_pos := max (rp_ack_pos s) pos\<rparr> else s"
    have "halt_flags ?s = halt_flags s" by (simp add: halt_flags_def)
    then show "halt_flags (snd (handle_repl env cfg m s)) = halt_flags s"
      using flags_status [of env False] by (simp add: Keepalive Let_def keeps_def cong: if_cong)
  qed
qed (simp add: keeps_def)

lemma flags_stream_iter: "keeps halt_flags (stream_iter env cfg cadence :: ('w sstate, bool) act)"
proof -
  have "keeps halt_flags (poll_status env cadence :: ('w sstate, unit) act)"
    using flags_status [of env False] by (simp add: keeps_def poll_status_def)
  moreover have "keeps halt_flags (bindA (on_world (resync_security env cfg))
      (\<lambda>_ s. (Inr (), (s :: 'w sstate)\<lparr>sm_last_poll := clock env (rp_world s)\<rparr>)))"
    by (intro keeps) (simp add: halt_flags_def)
  then have "keeps halt_flags (poll_roles env cfg :: ('w sstate, unit) act)"
    by (simp add: keeps_def poll_roles_def)
  moreover have "keeps halt_flags (read_and_handle env cfg :: ('w sstate, unit) act)"
    unfolding read_and_handle_def by (intro keeps flags_handle_repl)
  ultimately have "keeps halt_flags (bindA (poll_status env cadence) (\<lambda>_. bindA (poll_roles env cfg) (\<lambda>_.
          bindA (read_and_handle env cfg) (\<lambda>_. retA False))) :: ('w sstate, bool) act)"
    by (intro keeps)
  then show ?thesis by (simp add: keeps_def stream_iter_def)
qed

lemma flags_stream_turns: "halt_flags (snd (stream_turns n env cfg cadence s)) = halt_flags s"
proof (induction n arbitrary: s)
  case (Suc n)
  obtain r s' where i: "stream_iter env cfg cadence s = (r, s')" by fastforce
  then have "halt_flags s' = halt_flags s" using keepsD [OF flags_stream_iter i] by simp
  then show ?case using Suc.IH [of s'] by (cases r) (auto simp: i split: bool.split)
qed simp

definition halt_sound :: "'w rep \<Rightarrow> bool" where
  "halt_sound r \<longleftrightarrow>
     (rp_halted r \<longrightarrow> rp_done r \<and>
        (\<exists>e. is_fatal e \<and> e \<noteq> Closed \<and> rp_halt_reason r = Some (error_to_string e)))"

lemma flags_loops:
  "halt_flags (snd (nap n env d r)) = halt_flags r"
  "halt_flags (snd (sleep_done_aware n env r)) = halt_flags r"
  "halt_flags (snd (slot_wait n env d r)) = halt_flags r"
proof -
  show 1: "halt_flags (snd (nap n env d r)) = halt_flags r" for d r
    by (induction n arbitrary: r) (simp_all add: Let_def halt_flags_def)
  show "halt_flags (snd (sleep_done_aware n env r)) = halt_flags r"
    by (simp add: sleep_done_aware_def next_delay_def 1) (simp add: halt_flags_def)
  show "halt_flags (snd (slot_wait n env d r)) = halt_flags r"
    by (induction n arbitrary: r) (simp_all add: halt_flags_def)
qed

lemma flags_start: "halt_flags (snd (start_attempts n left env cfg r)) = halt_flags r"
proof (induction left arbitrary: r)
  case 0
  then show ?case
    using keepsD [OF flags_on_world]
    by (simp split: prod.split sum.split error.split) blast
next
  case (Suc left)
  obtain x r1 where 1: "on_world (repl_start env (start_replication_sql (cf_slot_name cfg) (watermark r)
      (cf_publication cfg))) r = (x, r1)" by fastforce
  have a: "halt_flags r1 = halt_flags r" using keepsD [OF flags_on_world 1] .
  let ?d = "clock env (rp_world r1) + 200000000"
  obtain y r2 where 2: "slot_wait n env ?d r1 = (y, r2)" by fastforce
  have b: "halt_flags r2 = halt_flags r1" using flags_loops(3) [of n env ?d r1] 2 by simp
  show ?case
    using a b Suc.IH [of r2] by (simp add: 1 2 split: sum.split error.split option.split)
qed

lemma flags_stream_loop: "halt_flags (snd (stream_loop n env cfg fp r)) = halt_flags r"
proof -
  obtain x r1 where 1: "on_world (wal_sender_timeout_ms (repl_query env)) r = (x, r1)" by fastforce
  have a1: "halt_flags r1 = halt_flags r" using keepsD [OF flags_on_world 1] .
  obtain y r2 where 2: "start_replication_with_retry n env cfg r1 = (y, r2)" by fastforce
  have a2: "halt_flags r2 = halt_flags r1"
    using flags_start [of n 5 env cfg r1] 2 by (simp add: start_replication_with_retry_def)
  have k: "keeps halt_flags (bindA (on_world (repl_timeout env t)) (\<lambda>_. send_feedback env False) ::
      ('a rep, unit) act)" for t by (intro keeps)
  have a3: "halt_flags r3 = halt_flags r2"
    if "bindA (on_world (repl_timeout env t)) (\<lambda>_. send_feedback env False) (reset_delay r2) = (z, r3)"
    for t z and r3 :: "'a rep"
  proof -
    have "halt_flags r3 = halt_flags (reset_delay r2)"
      using k [of t] that unfolding keeps_def by (metis snd_conv)
    then show ?thesis by (simp add: halt_flags_def reset_delay_def)
  qed
  have a4: "halt_flags (rep.truncate s) = halt_flags r3"
    if "stream_turns n env cfg c (stream_state env fp r3) = (res, s)" for c res s r3
    using flags_stream_turns [of n env cfg c "stream_state env fp r3"] that
    by (simp add: halt_flags_def stream_state_def rep.defs)
  show ?thesis
    using a1 a2 by (auto simp: stream_loop_def 1 2 Let_def dest!: a3 a4 split: sum.split option.split prod.split)
qed

lemma run_halts:
  "\<not> rp_halted r \<Longrightarrow> run n env cfg fp conn r = (finished, r') \<Longrightarrow>
     halt_sound r' \<and> (rp_halted r' \<longrightarrow> finished)"
proof (induction n arbitrary: conn r)
  case 0
  then show ?case by (auto simp: halt_sound_def)
next
  case (Suc n)
  let ?again = "\<lambda>r. case sleep_done_aware n env r of
      (False, r) \<Rightarrow> (False, r) | (True, r) \<Rightarrow> run n env cfg fp False r"
  have again: "halt_sound r' \<and> (rp_halted r' \<longrightarrow> finished)"
    if "\<not> rp_halted r1" "?again r1 = (finished, r')" for r1
  proof -
    obtain b r2 where 2: "sleep_done_aware n env r1 = (b, r2)" by fastforce
    have "\<not> rp_halted r2" using flags_loops(2) [of n env r1] 2 that(1) by (simp add: halt_flags_def)
    then show ?thesis
      using that(2) 2 Suc.IH [of r2 False] by (cases b) (auto simp: halt_sound_def)
  qed
  obtain x r1 where 1: "(if conn then (Inr (), r) else on_world (repl_connect env) r) = (x, r1)" by fastforce
  have "halt_flags r1 = halt_flags r"
    using 1 keepsD [OF flags_on_world, of "repl_connect env" r x r1] by (auto split: if_splits)
  then have a1: "\<not> rp_halted r1" using Suc.prems(1) by (simp add: halt_flags_def)
  obtain y r2 where 2: "stream_loop n env cfg fp r1 = (y, r2)" by fastforce
  have a2: "\<not> rp_halted r2"
    using flags_stream_loop [of n env cfg fp r1] 2 a1 by (simp add: halt_flags_def)
  have halt: "halt_sound (halt e q)" if "is_fatal e" "\<not> rp_halted q" for e and q :: "'a rep"
    using that by (auto simp: halt_sound_def halt_def Let_def)
  have close: "rp_halted (close_conn env q) = rp_halted q" for q by (simp add: close_conn_def)
  show ?case
  proof (cases "is_done env r")
    case True
    then show ?thesis using Suc.prems by (auto simp: halt_sound_def)
  next
    case False
    then have run: "run (Suc n) env cfg fp conn r =
        (case x of Inl e \<Rightarrow> if is_fatal e then (True, halt e r1) else ?again r1
         | Inr _ \<Rightarrow> (case y of None \<Rightarrow> (False, r2) | Some (Inr _) \<Rightarrow> (True, close_conn env r2)
             | Some (Inl e) \<Rightarrow> let r = close_conn env r2 in if is_fatal e then (True, halt e r)
                 else ?again (r\<lparr>rp_ack_pos := rp_watermark r\<rparr>)))"
      using 1 2 by (cases x) (simp_all add: Let_def)
    show ?thesis
    proof (cases x)
      case (Inl e)
      then show ?thesis
        using Suc.prems(2) a1 again [of r1] halt [of e r1] by (auto simp: run simp del: run.simps split: if_splits)
    next
      case (Inr u)
      let ?q = "close_conn env r2"
      have r': "(finished, r') = (case y of None \<Rightarrow> (False, r2) | Some (Inr _) \<Rightarrow> (True, ?q)
             | Some (Inl e) \<Rightarrow> if is_fatal e then (True, halt e ?q)
                 else ?again (?q\<lparr>rp_ack_pos := rp_watermark ?q\<rparr>))"
      proof (cases y)
        case (Some z)
        then show ?thesis
          using Suc.prems(2) Inr by (cases z) (simp_all add: run Let_def del: run.simps)
      qed (use Suc.prems(2) Inr in \<open>simp add: run del: run.simps\<close>)
      consider (out) "y = None" | (fine) v where "y = Some (Inr v)" | (fatal) e where "y = Some (Inl e)" "is_fatal e"
        | (retry) e where "y = Some (Inl e)" "\<not> is_fatal e"
        by (metis not_None_eq sum.exhaust)
      then show ?thesis
      proof cases
        case retry
        then have "?again (?q\<lparr>rp_ack_pos := rp_watermark ?q\<rparr>) = (finished, r')" using r' by simp
        then show ?thesis using again [of "?q\<lparr>rp_ack_pos := rp_watermark ?q\<rparr>"] a2 close by simp
      qed (use r' a2 close halt [of _ ?q] in \<open>auto simp: halt_sound_def\<close>)
    qed
  qed
qed

section \<open>Restart\<close>

text \<open>
  What a restart reads back: the row of the metadata table holds the position the last committed block
  wrote, or \<open>base\<close> when none was committed.
\<close>

definition loads_mark :: "'w env \<Rightarrow> replica_config \<Rightarrow> 'w \<Rightarrow> u64 \<Rightarrow> bool" where
  "loads_mark env cfg w e \<longleftrightarrow>
     (\<exists>fp. fst (db_query (env_db env) load_sql [] w) =
        Inr [[Some (cf_slot_name cfg), Some (cf_publication cfg), Some (to_pg_str (Lsn e)), Some fp]])"

definition stores_watermark :: "'w env \<Rightarrow> replica_config \<Rightarrow> ('w \<Rightarrow> string list list) \<Rightarrow> u64 \<Rightarrow> bool" where
  "stores_watermark env cfg com base \<longleftrightarrow>
     (\<forall>w. com w = [] \<longrightarrow> loads_mark env cfg w base) \<and>
     (\<forall>w bs qs e. com w = bs @ [block qs e] \<longrightarrow> loads_mark env cfg w e)"

lemma advances_mark:
  assumes "stores_watermark env cfg com base" and "advances ([], base) (applied com r)"
  shows "loads_mark env cfg (rp_world r) (rp_watermark r)"
proof -
  obtain txs where t: "com (rp_world r) = map (\<lambda>(qs, e). block qs e) txs"
    "rp_watermark r = last (base # map snd txs)"
    using assms(2) by (auto simp: advances_def applied_def)
  show ?thesis
  proof (cases txs rule: rev_cases)
    case Nil
    then show ?thesis using t assms(1) by (simp add: stores_watermark_def)
  next
    case (snoc ts tx)
    then show ?thesis using t assms(1) by (cases tx) (auto simp: stores_watermark_def)
  qed
qed

section \<open>Worlds to run it in\<close>

text \<open>The metadata row read from the committed blocks: the literal of the last update of the watermark.\<close>

definition stored_mark :: "u64 \<Rightarrow> string list list \<Rightarrow> string" where
  "stored_mark base blocks =
     (if blocks = [] then to_pg_str (Lsn base)
      else takeWhile (\<lambda>c. c \<noteq> sq)
        (drop (length ''UPDATE _pglite_replica SET watermark_lsn = '' + 1) (last (last blocks))))"

definition mark_env :: "u64 \<Rightarrow> block_log env" where
  "mark_env base = note_env\<lparr>env_db := \<lparr>db_exec = \<lambda>_. retA (),
     db_query = \<lambda>q _ w. (Inr (if q = load_sql
       then [[Some (cf_slot_name default_config), Some (cf_publication default_config),
              Some (stored_mark base (fst w)), Some []]] else []), w)\<rparr>\<rparr>"

definition failing_env :: "error \<Rightarrow> block_log env" where
  "failing_env e = note_env\<lparr>repl_read := failA e\<rparr>"

definition ticking_env :: "nat env" where
  "ticking_env =
     \<lparr>env_db = \<lparr>db_exec = \<lambda>_. retA (), db_query = \<lambda>_ _. retA []\<rparr>, tx_begin = retA (), tx_exec = \<lambda>_. retA (),
      tx_commit = retA (), tx_drop = id, snap_connect = retA (), snap_query = \<lambda>_. retA [],
      snap_copy_out = \<lambda>_ _. retA (), snap_close = id, copy_in = \<lambda>_ _. retA (), repl_connect = retA (),
      repl_query = \<lambda>_. retA [], repl_start = \<lambda>_. retA (), repl_timeout = \<lambda>_. retA (),
      repl_read = retA None, repl_status = \<lambda>_ _. retA (), repl_close = id, stop_requested = \<lambda>_. False,
      clock = \<lambda>now. now, sleep = \<lambda>t now. now + t, visit_keys = id, visit_lines = id\<rparr>"

lemma digit_not_sq: "d < 16 \<Longrightarrow> digit_char d \<noteq> sq"
  by (auto simp: digit_char_def dest!: arg_cong [where f = "of_char :: char \<Rightarrow> nat"] split: if_splits)

lemma sq_not_in_lsn: "sq \<notin> set (to_pg_str l)"
  using to_radix_digits [of 16] digit_not_sq by (auto simp: to_pg_str_def) metis+

lemma stored_mark_block: "stored_mark base (bs @ [block qs e]) = to_pg_str (Lsn e)"
proof -
  have "takeWhile (\<lambda>c. c \<noteq> sq) (to_pg_str (Lsn e) @ sq # rest) = to_pg_str (Lsn e)" for rest
    using sq_not_in_lsn [of "Lsn e"] by (subst takeWhile_append2) auto
  then show ?thesis
    by (simp add: stored_mark_def block_def watermark_sql_def lit_def replace_char_id sq_not_in_lsn)
qed

lemma mark_env_contracts:
  "tx_store (mark_env base) fst snd" "others_keep (mark_env base) fst"
  "stores_watermark (mark_env base) default_config fst base"
  using note_env_contracts
  by (auto simp: mark_env_def tx_store_def others_keep_def db_keeps_def keeps_def stores_watermark_def
      loads_mark_def stored_mark_block) (auto simp: stored_mark_def)

section \<open>Properties\<close>





text \<open>
  C25. A halted replica has a reason: when a run leaves the replica halted the thread has ended, \<open>done\<close> is
  set, and the reason is the text of a fatal error; a transient error never halts it.
\<close>

theorem run_halts_on_fatal:
  assumes "run n env cfg fp conn r = (finished, r')" and "\<not> rp_halted r" and "rp_halted r'"
  shows "finished \<and> rp_done r' \<and>
    (\<exists>e. is_fatal e \<and> e \<noteq> Closed \<and> rp_halt_reason r' = Some (error_to_string e))"
  using run_halts [OF assms(2,1)] assms(3) by (simp add: halt_sound_def)

theorem run_halts_on_fatal_witness:
  "rp_halted (snd (run 3 (failing_env (Protocol ''x'')) default_config [] True (new_replica ([], [])))) \<and>
   (\<exists>e. is_fatal e \<and> e \<noteq> Closed \<and>
      rp_halt_reason (snd (run 3 (failing_env (Protocol ''x'')) default_config [] True (new_replica ([], [])))) =
        Some (error_to_string e))"
proof -
  let ?r = "run 3 (failing_env (Protocol ''x'')) default_config [] True (new_replica ([], []))"
  have h: "rp_halted (snd ?r)"
    by (simp add: numeral_3_eq_3 is_done_def failing_env_def note_env_def new_replica_def stream_loop_def
        on_world_def wal_sender_timeout_ms_def bindA_apply start_replication_with_retry_def
        send_feedback_def reset_delay_def Let_def stream_iter_def poll_status_def poll_roles_def
        read_and_handle_def map_err_def halt_def close_conn_def stream_state_def rep.defs
        stream_cadence_def default_config_def)
  have n: "\<not> rp_halted (new_replica ([], []))" by (simp add: new_replica_def)
  show ?thesis
    using run_halts_on_fatal [OF prod.collapse [symmetric] n h] h by blast
qed

text \<open>
  C26. The sleep before the \<open>k\<close>-th retry ends: it takes at most 201 looks at the clock, lasts 25 milliseconds times \<open>2 ^ k\<close>
  capped at ten seconds unless the replica is stopped, and leaves the delay of the next retry.
\<close>

theorem backoff_sleep_ends:
  assumes "clock_advances env" and "rp_delay r = delay_after k"
  shows "\<exists>w'. sleep_done_aware 201 env r =
        (True, r\<lparr>rp_world := w', rp_delay := delay_after (Suc k)\<rparr>) \<and>
      (is_done env (r\<lparr>rp_world := w'\<rparr>) \<or> clock env w' \<ge> clock env (rp_world r) + delay_after k)"
proof -
  let ?r = "r\<lparr>rp_delay := delay_after (Suc k)\<rparr>"
  let ?d = "clock env (rp_world r) + delay_after k"
  have "delay_after k \<le> 200 * from_millis 50"
    by (simp add: delay_after_def backoff_max_def)
  then have "?d - clock env (rp_world ?r) \<le> 200 * from_millis 50" by simp
  then obtain w' where "nap (Suc 200) env ?d ?r = (True, ?r\<lparr>rp_world := w'\<rparr>)"
    "is_done env (?r\<lparr>rp_world := w'\<rparr>) \<or> ?d \<le> clock env w'"
    using nap_ends [OF assms(1), of ?d ?r 200] by blast
  moreover have "is_done env (?r\<lparr>rp_world := w'\<rparr>) = is_done env (r\<lparr>rp_world := w'\<rparr>)"
    by (simp add: is_done_def)
  moreover have "?r\<lparr>rp_world := w'\<rparr> = r\<lparr>rp_world := w', rp_delay := delay_after (Suc k)\<rparr>"
    by (cases r) simp
  ultimately show ?thesis
    unfolding sleep_done_aware_def next_delay_def assms(2) delay_after_Suc
    by (intro exI [of _ w']) (simp del: nap.simps)
qed

theorem backoff_sleep_ends_witness:
  "\<exists>w'. sleep_done_aware 201 ticking_env (new_replica 7) =
        (True, (new_replica 7)\<lparr>rp_world := w', rp_delay := delay_after (Suc 0)\<rparr>) \<and>
      (is_done ticking_env ((new_replica 7)\<lparr>rp_world := w'\<rparr>) \<or>
       clock ticking_env w' \<ge> clock ticking_env (rp_world (new_replica 7)) + delay_after 0)"
  by (rule backoff_sleep_ends)
    (simp_all add: clock_advances_def ticking_env_def new_replica_def delay_after_def backoff_initial_def
      backoff_max_def)

end
