(* ===== verification/Pool.thy ===== *)
theory Pool
  imports Replica "HOL-Library.Multiset"
begin

text \<open>
  \<^verbatim>\<open>multiple_process/pool.rs\<close>: the connection pool. The shared state is what the mutex guards; each task is
  at a program point; an event is one critical section, one use of a channel, or something the
  outside does (a worker dies, a wait times out, a future is dropped). Every interleaving of the events is a
  run of the pool.
\<close>

section \<open>State\<close>

record pool_config =
  pc_min :: nat
  pc_max :: nat
  pc_idle_ttl :: nat

text \<open>
  Where a task is: outside the pool, spawning the connection it has counted, waiting on a channel, with a connection
  in its channel that it has not taken yet, or with a connection.
\<close>

datatype task = Away | Spawning | Waiting nat | Sent nat | Holding nat

text \<open>
  \<open>idle\<close> from front to back; \<open>waiters\<close> are channel numbers in the order they were pushed; \<open>alive\<close> are the
  connections whose worker runs; \<open>lost\<close> are connections that were dropped while they were counted in \<open>live\<close>.
\<close>

record pool =
  pl_idle :: "nat list"
  pl_waiters :: "nat list"
  pl_live :: nat
  pl_alive :: "nat list"
  pl_used :: "nat \<Rightarrow> nat"
  pl_tasks :: "task list"
  pl_next :: nat
  pl_lost :: "nat list"

definition is_alive :: "pool \<Rightarrow> nat \<Rightarrow> bool" where
  "is_alive s c \<longleftrightarrow> c \<in> set (pl_alive s)"

section \<open>Critical sections\<close>

text \<open>The loop of \<open>acquire\<close>: pop from the back until a live connection comes, uncounting the dead.\<close>

fun pop_alive :: "(nat \<Rightarrow> bool) \<Rightarrow> nat list \<Rightarrow> nat \<Rightarrow> nat option \<times> nat list \<times> nat" where
  "pop_alive ok idle live =
     (if idle = [] then (None, [], live)
      else if ok (last idle) then (Some (last idle), butlast idle, live)
      else pop_alive ok (butlast idle) (live - 1))"

declare pop_alive.simps [simp del]

definition acquire_section :: "pool_config \<Rightarrow> nat \<Rightarrow> pool \<Rightarrow> pool" where
  "acquire_section cfg t s =
     (case pop_alive (is_alive s) (pl_idle s) (pl_live s) of
        (Some c, idle, live) \<Rightarrow>
          s\<lparr>pl_idle := idle, pl_live := live, pl_tasks := (pl_tasks s)[t := Holding c]\<rparr>
      | (None, idle, live) \<Rightarrow>
          if live < pc_max cfg
          then s\<lparr>pl_idle := idle, pl_live := live + 1, pl_tasks := (pl_tasks s)[t := Spawning]\<rparr>
          else s\<lparr>pl_idle := idle, pl_live := live, pl_waiters := pl_waiters s @ [pl_next s],
                 pl_tasks := (pl_tasks s)[t := Waiting (pl_next s)], pl_next := pl_next s + 1\<rparr>)"

text \<open>A new connection, or the failure to make one.\<close>

definition spawn_section :: "nat \<Rightarrow> bool \<Rightarrow> pool \<Rightarrow> pool" where
  "spawn_section t ok s =
     (if ok then s\<lparr>pl_alive := pl_next s # pl_alive s, pl_tasks := (pl_tasks s)[t := Holding (pl_next s)],
                   pl_next := pl_next s + 1\<rparr>
      else s\<lparr>pl_live := pl_live s - 1, pl_tasks := (pl_tasks s)[t := Away]\<rparr>)"

text \<open>The task that waits on a channel, if its receiver is still there.\<close>

definition waiting_on :: "pool \<Rightarrow> nat \<Rightarrow> nat option" where
  "waiting_on s ch = List.find (\<lambda>i. pl_tasks s ! i = Waiting ch) [0..<length (pl_tasks s)]"

text \<open>The loop of \<open>release\<close>: the youngest waiter whose receiver is still there, or the idle queue.\<close>

fun hand_over :: "(nat \<Rightarrow> nat option) \<Rightarrow> nat list \<Rightarrow> nat option \<times> nat list" where
  "hand_over receiver ws =
     (if ws = [] then (None, [])
      else case receiver (last ws) of
             Some i \<Rightarrow> (Some i, butlast ws)
           | None \<Rightarrow> hand_over receiver (butlast ws))"

declare hand_over.simps [simp del]

definition release_section :: "nat \<Rightarrow> nat \<Rightarrow> nat \<Rightarrow> pool \<Rightarrow> pool" where
  "release_section now t c s =
     (let s = s\<lparr>pl_tasks := (pl_tasks s)[t := Away]\<rparr> in
      if \<not> is_alive s c then s\<lparr>pl_live := pl_live s - 1\<rparr>
      else let s = s\<lparr>pl_used := (pl_used s)(c := now)\<rparr> in
        (case hand_over (waiting_on s) (pl_waiters s) of
           (Some i, ws) \<Rightarrow> s\<lparr>pl_waiters := ws, pl_tasks := (pl_tasks s)[i := Sent c]\<rparr>
         | (None, ws) \<Rightarrow> s\<lparr>pl_waiters := ws, pl_idle := pl_idle s @ [c]\<rparr>))"

text \<open>
  What the wait ends with: the connection from the channel, given back to the count when its worker has
  died (the loop then starts again), or the timeout. A connection that is already in the channel of a wait that
  ends with the timeout goes down with the receiver; so does the connection of a \<open>roundtrip\<close> whose future is
  dropped.
\<close>

definition receive_section :: "nat \<Rightarrow> nat \<Rightarrow> pool \<Rightarrow> pool" where
  "receive_section t c s =
     (if is_alive s c then s\<lparr>pl_tasks := (pl_tasks s)[t := Holding c]\<rparr>
      else s\<lparr>pl_live := pl_live s - 1, pl_tasks := (pl_tasks s)[t := Away]\<rparr>)"

definition give_up_section :: "nat \<Rightarrow> pool \<Rightarrow> pool" where
  "give_up_section t s =
     (let s' = s\<lparr>pl_tasks := (pl_tasks s)[t := Away]\<rparr> in
      case pl_tasks s ! t of
        Sent c \<Rightarrow> s'\<lparr>pl_lost := c # pl_lost s\<rparr>
      | Holding c \<Rightarrow> s'\<lparr>pl_lost := c # pl_lost s\<rparr>
      | _ \<Rightarrow> s')"

definition fire_section :: "pool_config \<Rightarrow> nat \<Rightarrow> pool \<Rightarrow> pool" where
  "fire_section cfg t s =
     (if pl_idle s \<noteq> []
      then s\<lparr>pl_idle := butlast (pl_idle s), pl_tasks := (pl_tasks s)[t := Holding (last (pl_idle s))]\<rparr>
      else if pl_live s < pc_max cfg
      then s\<lparr>pl_live := pl_live s + 1, pl_tasks := (pl_tasks s)[t := Spawning]\<rparr>
      else s)"

text \<open>One round of the reaper: expired connections from the front, while more than \<open>min\<close> are idle.\<close>

fun reap :: "(nat \<Rightarrow> bool) \<Rightarrow> nat \<Rightarrow> nat list \<Rightarrow> nat \<Rightarrow> nat list \<times> nat" where
  "reap expired mn [] live = ([], live)"
| "reap expired mn (c # idle) live =
     (if mn < length (c # idle) \<and> expired c then reap expired mn idle (live - 1) else (c # idle, live))"

definition reap_section :: "pool_config \<Rightarrow> nat \<Rightarrow> pool \<Rightarrow> pool" where
  "reap_section cfg now s =
     (let (idle, live) = reap (\<lambda>c. \<not> is_alive s c \<or> now - pl_used s c \<ge> pc_idle_ttl cfg) (pc_min cfg)
                           (pl_idle s) (pl_live s)
      in s\<lparr>pl_idle := idle, pl_live := live\<rparr>)"

section \<open>Steps\<close>

datatype event =
    Acquire nat
  | Spawned nat bool
  | Receive nat
  | GiveUp nat
  | Release nat nat
  | Fire nat
  | Die nat
  | Reap nat

text \<open>An event is possible at its program point only.\<close>

definition task_at :: "pool \<Rightarrow> nat \<Rightarrow> task option" where
  "task_at s t = (if t < length (pl_tasks s) then Some (pl_tasks s ! t) else None)"

fun pool_step :: "pool_config \<Rightarrow> event \<Rightarrow> pool \<Rightarrow> pool option" where
  "pool_step cfg (Acquire t) s = (if task_at s t = Some Away then Some (acquire_section cfg t s) else None)"
| "pool_step cfg (Spawned t ok) s =
     (if task_at s t = Some Spawning then Some (spawn_section t ok s) else None)"
| "pool_step cfg (Receive t) s =
     (case task_at s t of Some (Sent c) \<Rightarrow> Some (receive_section t c s) | _ \<Rightarrow> None)"
| "pool_step cfg (GiveUp t) s =
     (case task_at s t of
        Some (Waiting ch) \<Rightarrow> Some (give_up_section t s)
      | Some (Sent c) \<Rightarrow> Some (give_up_section t s)
      | Some (Holding c) \<Rightarrow> Some (give_up_section t s)
      | _ \<Rightarrow> None)"
| "pool_step cfg (Release now t) s =
     (case task_at s t of Some (Holding c) \<Rightarrow> Some (release_section now t c s) | _ \<Rightarrow> None)"
| "pool_step cfg (Fire t) s = (if task_at s t = Some Away then Some (fire_section cfg t s) else None)"
| "pool_step cfg (Die c) s = Some (s\<lparr>pl_alive := filter (\<lambda>x. x \<noteq> c) (pl_alive s)\<rparr>)"
| "pool_step cfg (Reap now) s = Some (reap_section cfg now s)"

text \<open>\<open>Pool::start\<close>: \<open>min\<close> idle connections; any number of tasks may come.\<close>

definition pool_start :: "pool_config \<Rightarrow> nat \<Rightarrow> pool" where
  "pool_start cfg tasks =
     \<lparr>pl_idle = [0..<pc_min cfg], pl_waiters = [], pl_live = pc_min cfg, pl_alive = [0..<pc_min cfg],
      pl_used = (\<lambda>_. 0), pl_tasks = replicate tasks Away, pl_next = pc_min cfg, pl_lost = []\<rparr>"

inductive pool_reach :: "pool_config \<Rightarrow> pool \<Rightarrow> bool" for cfg where
  init: "pool_reach cfg (pool_start cfg tasks)"
| step: "pool_reach cfg s \<Longrightarrow> pool_step cfg ev s = Some s' \<Longrightarrow> pool_reach cfg s'"

abbreviation pool_run :: "pool_config \<Rightarrow> event list \<Rightarrow> pool \<Rightarrow> pool option" where
  "pool_run cfg \<equiv> run_steps (pool_step cfg)"

section \<open>Accounting\<close>

fun conns_of :: "task \<Rightarrow> nat list" where
  "conns_of (Holding c) = [c]"
| "conns_of (Sent c) = [c]"
| "conns_of _ = []"

definition owned :: "pool \<Rightarrow> nat list" where
  "owned s = pl_idle s @ concat (map conns_of (pl_tasks s)) @ pl_lost s"

fun spawn_mark :: "task \<Rightarrow> unit list" where
  "spawn_mark Spawning = [()]"
| "spawn_mark _ = []"

definition spawning :: "pool \<Rightarrow> nat" where
  "spawning s = length (concat (map spawn_mark (pl_tasks s)))"

text \<open>The invariant: the count, the bound, and that no connection is in two places.\<close>

definition pool_ok :: "pool_config \<Rightarrow> pool \<Rightarrow> bool" where
  "pool_ok cfg s \<longleftrightarrow>
     pl_live s = length (owned s) + spawning s \<and> pl_live s \<le> pc_max cfg \<and> distinct (owned s) \<and>
     (\<forall>c \<in> set (owned s) \<union> set (pl_alive s). c < pl_next s)"

lemma concat_update:
  "i < length xs \<Longrightarrow>
     mset (concat (map f (xs[i := x]))) + mset (f (xs ! i)) = mset (concat (map f xs)) + mset (f x)"
proof (induction xs arbitrary: i)
  case (Cons y ys)
  then show ?case by (cases i) (auto simp: ac_simps)
qed simp

text \<open>A state is seen through the multisets of its connections and of its spawning tasks.\<close>

lemma task_update:
  assumes "task_at s t = Some p"
  shows "mset (concat (map conns_of ((pl_tasks s)[t := q]))) + mset (conns_of p) =
      mset (concat (map conns_of (pl_tasks s))) + mset (conns_of q)"
    and "length (concat (map spawn_mark ((pl_tasks s)[t := q]))) + length (spawn_mark p) =
      length (concat (map spawn_mark (pl_tasks s))) + length (spawn_mark q)"
    and "length (concat (map conns_of ((pl_tasks s)[t := q]))) + length (conns_of p) =
      length (concat (map conns_of (pl_tasks s))) + length (conns_of q)"
proof -
  have t: "t < length (pl_tasks s)" "pl_tasks s ! t = p"
    using assms by (auto simp: task_at_def split: if_splits)
  show m: "mset (concat (map conns_of ((pl_tasks s)[t := q]))) + mset (conns_of p) =
      mset (concat (map conns_of (pl_tasks s))) + mset (conns_of q)"
    using concat_update [OF t(1), of conns_of q] t(2) by simp
  have "size (mset (concat (map spawn_mark ((pl_tasks s)[t := q]))) + mset (spawn_mark p)) =
      size (mset (concat (map spawn_mark (pl_tasks s))) + mset (spawn_mark q))"
    using concat_update [OF t(1), of spawn_mark q] t(2) by simp
  then show "length (concat (map spawn_mark ((pl_tasks s)[t := q]))) + length (spawn_mark p) =
      length (concat (map spawn_mark (pl_tasks s))) + length (spawn_mark q)"
    by (simp del: length_concat)
  show "length (concat (map conns_of ((pl_tasks s)[t := q]))) + length (conns_of p) =
      length (concat (map conns_of (pl_tasks s))) + length (conns_of q)"
    using arg_cong [OF m, of size] by (simp del: length_concat)
qed

lemma distinct_count_le: "distinct xs \<longleftrightarrow> (\<forall>c. count (mset xs) c \<le> 1)"
proof
  assume "distinct xs"
  then show "\<forall>c. count (mset xs) c \<le> 1" by (simp add: distinct_count_atmost_1)
next
  assume le: "\<forall>c. count (mset xs) c \<le> 1"
  have "count (mset xs) c = (if c \<in> set xs then 1 else 0)" for c
    using spec [OF le, of c] by (simp add: count_eq_zero_iff le_Suc_eq)
  then show "distinct xs" by (simp add: distinct_count_atmost_1)
qed

lemma snoc_mset: "xs \<noteq> [] \<Longrightarrow> mset xs = add_mset (last xs) (mset (butlast xs))"
  by (cases xs rule: rev_cases) simp_all

text \<open>The invariant over the multiset, and how it moves when connections leave it.\<close>

lemma pool_ok_mset:
  "pool_ok cfg s \<longleftrightarrow>
     pl_live s = size (mset (owned s)) + spawning s \<and> pl_live s \<le> pc_max cfg \<and>
     (\<forall>c. count (mset (owned s)) c \<le> 1) \<and> (\<forall>c \<in># mset (owned s). c < pl_next s) \<and>
     (\<forall>c \<in> set (pl_alive s). c < pl_next s)"
  by (auto simp: pool_ok_def distinct_count_le)

lemma pool_ok_sub:
  assumes "pool_ok cfg s" and "mset (owned s') + gone = mset (owned s)"
    and "pl_live s' + size gone = pl_live s" and "spawning s' = spawning s"
    and "pl_next s' = pl_next s" and "set (pl_alive s') \<subseteq> set (pl_alive s)"
  shows "pool_ok cfg s'"
  unfolding pool_ok_mset
proof (intro conjI allI)
  have m: "mset (owned s') \<subseteq># mset (owned s)" using assms(2) by (metis mset_subset_eq_add_left)
  note ok = assms(1) [unfolded pool_ok_mset]
  have "size (mset (owned s')) + size gone = size (mset (owned s))" using assms(2) by (metis size_union)
  then show "pl_live s' = size (mset (owned s')) + spawning s'" using ok assms(3,4) by linarith
  show "pl_live s' \<le> pc_max cfg" using ok assms(3) by linarith
  show "count (mset (owned s')) c \<le> 1" for c
    using ok mset_subset_eq_count [OF m, of c] by (meson le_trans)
  show "\<forall>c\<in>#mset (owned s'). c < pl_next s'"
    using ok assms(5) mset_subset_eqD [OF m] by metis
  show "\<forall>c\<in>set (pl_alive s'). c < pl_next s'" using ok assms(5,6) by auto
qed

lemma pop_alive_gone:
  "pop_alive ok idle live = (c, idle', live') \<Longrightarrow> length idle \<le> live \<Longrightarrow>
     \<exists>gone. mset idle = mset idle' + gone + (case c of Some x \<Rightarrow> {#x#} | None \<Rightarrow> {#}) \<and>
       live' + size gone = live"
proof (induction ok idle live arbitrary: c rule: pop_alive.induct)
  case (1 ok idle live)
  show ?case
  proof (cases "idle = [] \<or> ok (last idle)")
    case True
    show ?thesis
    proof (cases "idle = []")
      case True
      then have "c = None" "idle' = []" "live' = live"
        using "1.prems"(1) by (simp_all add: pop_alive.simps [of ok "[]"])
      then show ?thesis using True by (intro exI [of _ "{#}"]) simp
    next
      case False
      then have "c = Some (last idle)" "idle' = butlast idle" "live' = live"
        using True "1.prems"(1) by (simp_all add: pop_alive.simps [of ok idle])
      then show ?thesis using snoc_mset [OF False] by (intro exI [of _ "{#}"]) simp
    qed
  next
    case False
    then have run: "pop_alive ok (butlast idle) (live - 1) = (c, idle', live')"
      using "1.prems"(1) by (simp add: pop_alive.simps [of ok idle live])
    have l: "0 < live" "length (butlast idle) \<le> live - 1"
      using "1.prems"(2) False by (auto simp: Suc_le_eq intro: less_le_trans [of 0 "length idle"])
    obtain gone where g: "mset (butlast idle) = mset idle' + gone + (case c of Some x \<Rightarrow> {#x#} | None \<Rightarrow> {#})"
      "live' + size gone = live - 1"
      using "1.IH" [OF _ _ run l(2)] False by auto
    have "mset idle = add_mset (last idle) (mset (butlast idle))"
      using False snoc_mset by blast
    then show ?thesis
      using g l(1) by (intro exI [of _ "add_mset (last idle) gone"]) auto
  qed
qed

lemma pool_ok_add:
  assumes "pool_ok cfg s" and "mset (owned s') = mset (owned s) + new"
    and "\<forall>c \<in># new. pl_next s \<le> c \<and> c < pl_next s'" and "size new \<le> 1"
    and "pl_live s' = size (mset (owned s')) + spawning s'" and "pl_live s' \<le> pc_max cfg"
    and "pl_next s \<le> pl_next s'" and "\<forall>c \<in> set (pl_alive s'). c < pl_next s'"
  shows "pool_ok cfg s'"
  unfolding pool_ok_mset
proof (intro conjI allI ballI)
  note ok = assms(1) [unfolded pool_ok_mset]
  show "count (mset (owned s')) c \<le> 1" for c
  proof (cases "c \<in># new")
    case True
    then have "count (mset (owned s)) c = 0" using ok assms(3) by (metis linorder_not_le not_in_iff)
    moreover have "count new c \<le> 1" using assms(4) by (meson count_le_size le_trans)
    ultimately show ?thesis using assms(2) by (metis add_0 count_union)
  next
    case False
    then show ?thesis using ok assms(2) by (simp add: not_in_iff)
  qed
  show "c < pl_next s'" if "c \<in># mset (owned s')" for c
    using that ok assms(2,3,7) by (metis order.strict_trans2 union_iff)
qed (use assms in auto)

lemma live_idle: "pool_ok cfg s \<Longrightarrow> length (pl_idle s) \<le> pl_live s"
  by (simp add: pool_ok_def owned_def)

lemma acquire_ok:
  assumes "pool_ok cfg s" and "task_at s t = Some Away"
  shows "pool_ok cfg (acquire_section cfg t s)"
proof -
  obtain c idle live where p: "pop_alive (is_alive s) (pl_idle s) (pl_live s) = (c, idle, live)"
    by (metis prod_cases3)
  obtain gone where g: "mset (pl_idle s) = mset idle + gone + (case c of Some x \<Rightarrow> {#x#} | None \<Rightarrow> {#})"
    "live + size gone = pl_live s"
    using pop_alive_gone [OF p live_idle [OF assms(1)]] by blast
  note u = task_update [OF assms(2), simplified]
  show ?thesis
  proof (cases c)
    case (Some x)
    show ?thesis
      by (rule pool_ok_sub [OF assms(1), of _ gone])
        (use p g Some u [of "Holding x"] in \<open>simp_all add: acquire_section_def owned_def spawning_def ac_simps\<close>)
  next
    case None
    let ?s = "s\<lparr>pl_idle := idle, pl_live := live\<rparr>"
    have ok: "pool_ok cfg ?s"
      by (rule pool_ok_sub [OF assms(1), of _ gone])
        (use g None in \<open>simp_all add: owned_def spawning_def ac_simps\<close>)
    note ok' = ok [unfolded pool_ok_mset]
    show ?thesis
    proof (cases "live < pc_max cfg")
      case True
      then have eq: "acquire_section cfg t s = ?s\<lparr>pl_live := live + 1, pl_tasks := (pl_tasks s)[t := Spawning]\<rparr>"
        by (simp add: acquire_section_def p None)
      show ?thesis unfolding eq
        by (rule pool_ok_add [OF ok, of _ "{#}"])
          (use ok' u [of Spawning] True in \<open>simp_all add: owned_def spawning_def\<close>)
    next
      case False
      then have eq: "acquire_section cfg t s = ?s\<lparr>pl_waiters := pl_waiters s @ [pl_next s],
          pl_tasks := (pl_tasks s)[t := Waiting (pl_next s)], pl_next := pl_next s + 1\<rparr>"
        by (simp add: acquire_section_def p None)
      show ?thesis unfolding eq
        by (rule pool_ok_add [OF ok, of _ "{#}"])
          (use ok' u [of "Waiting (pl_next s)"] in \<open>simp_all add: owned_def spawning_def less_SucI\<close>)
    qed
  qed
qed

lemma spawn_ok:
  assumes "pool_ok cfg s" and "task_at s t = Some Spawning"
  shows "pool_ok cfg (spawn_section t ok s)"
proof -
  note u = task_update [OF assms(2), simplified] and ok' = assms(1) [unfolded pool_ok_mset]
  show ?thesis
    by (rule pool_ok_add [OF assms(1), of _ "if ok then {#pl_next s#} else {#}"])
      (use ok' u [of "Holding (pl_next s)"] u [of Away] in
        \<open>auto simp: spawn_section_def owned_def spawning_def less_SucI simp del: length_concat\<close>)
qed

lemma receive_ok:
  assumes "pool_ok cfg s" and "task_at s t = Some (Sent c)"
  shows "pool_ok cfg (receive_section t c s)"
proof -
  note u = task_update [OF assms(2), simplified]
  have "length (concat (map conns_of (pl_tasks s))) \<le> pl_live s"
    using assms(1) by (simp add: pool_ok_def owned_def)
  moreover have "length (concat (map conns_of ((pl_tasks s)[t := Away]))) + 1 = length (concat (map conns_of (pl_tasks s)))"
    using u(3) [of Away] by simp
  ultimately have live: "0 < pl_live s" by linarith
  show ?thesis
    by (rule pool_ok_sub [OF assms(1), of _ "if is_alive s c then {#} else {#c#}"])
      (use u [of "Holding c"] u [of Away] live in
        \<open>auto simp: receive_section_def owned_def spawning_def ac_simps\<close>)
qed

lemma give_up_ok:
  assumes "pool_ok cfg s" and "task_at s t = Some p" and "p \<noteq> Spawning"
  shows "pool_ok cfg (give_up_section t s)"
proof -
  have p: "pl_tasks s ! t = p" using assms(2) by (auto simp: task_at_def split: if_splits)
  note u = task_update [OF assms(2), of Away, simplified]
  show ?thesis
    by (rule pool_ok_sub [OF assms(1), of _ "{#}"])
      (use u p assms(3) in
        \<open>cases p; simp add: give_up_section_def Let_def owned_def spawning_def ac_simps\<close>)+
qed

lemma fire_ok:
  assumes "pool_ok cfg s" and "task_at s t = Some Away"
  shows "pool_ok cfg (fire_section cfg t s)"
proof -
  note u = task_update [OF assms(2), simplified]
  show ?thesis
  proof (cases "pl_idle s = []")
    case False
    show ?thesis
      by (rule pool_ok_sub [OF assms(1), of _ "{#}"])
        (use u [of "Holding (last (pl_idle s))"] False snoc_mset [OF False] in
          \<open>simp_all add: fire_section_def owned_def spawning_def ac_simps\<close>)
  next
    case True
    then show ?thesis
      by (cases "pl_live s < pc_max cfg")
        (use assms(1) [unfolded pool_ok_mset] u [of Spawning] assms(1) in
          \<open>auto simp: fire_section_def owned_def spawning_def intro!: pool_ok_add [OF assms(1), of _ "{#}"]\<close>)
  qed
qed

lemma reap_gone:
  "reap expired mn idle live = (idle', live') \<Longrightarrow> length idle \<le> live \<Longrightarrow>
     \<exists>gone. mset idle = mset idle' + gone \<and> live' + size gone = live"
proof (induction expired mn idle live rule: reap.induct)
  case (2 expired mn c idle live)
  show ?case
  proof (cases "mn < length (c # idle) \<and> expired c")
    case True
    have "reap expired mn idle (live - 1) = (idle', live')" "length idle \<le> live - 1"
      using "2.prems" True by auto
    then obtain gone where "mset idle = mset idle' + gone" "live' + size gone = live - 1"
      using "2.IH" [OF True] by blast
    then show ?thesis using "2.prems" True by (intro exI [of _ "add_mset c gone"]) auto
  qed (use 2 in \<open>auto intro: exI [of _ "{#}"]\<close>)
qed auto

lemma reap_ok:
  assumes "pool_ok cfg s"
  shows "pool_ok cfg (reap_section cfg now s)"
proof -
  obtain idle live where r: "reap (\<lambda>c. \<not> is_alive s c \<or> now - pl_used s c \<ge> pc_idle_ttl cfg) (pc_min cfg)
      (pl_idle s) (pl_live s) = (idle, live)" by fastforce
  obtain gone where "mset (pl_idle s) = mset idle + gone" "live + size gone = pl_live s"
    using reap_gone [OF r live_idle [OF assms]] by blast
  moreover have "reap_section cfg now s = s\<lparr>pl_idle := idle, pl_live := live\<rparr>"
    by (simp only: reap_section_def r Let_def prod.case)
  ultimately show ?thesis
    by (intro pool_ok_sub [OF assms, of _ gone]) (simp_all add: owned_def spawning_def ac_simps)
qed

text \<open>Handing over: the waiters behind the one served have no receiver.\<close>

lemma hand_over_cases:
  assumes "hand_over f ws = (r, ws')"
  shows "case r of
      None \<Rightarrow> ws' = [] \<and> (\<forall>x \<in> set ws. f x = None)
    | Some i \<Rightarrow> (\<exists>ch post. ws = ws' @ ch # post \<and> f ch = Some i \<and> (\<forall>x \<in> set post. f x = None))"
  using assms
proof (induction ws arbitrary: r ws' rule: rev_induct)
  case Nil
  then show ?case by (simp add: hand_over.simps [of f "[]"] split: option.split)
next
  case (snoc w ws)
  show ?case
  proof (cases "f w")
    case None
    then have "hand_over f ws = (r, ws')" using snoc.prems by (simp add: hand_over.simps [of f "ws @ [w]"])
    then have ih: "case r of
        None \<Rightarrow> ws' = [] \<and> (\<forall>x \<in> set ws. f x = None)
      | Some i \<Rightarrow> (\<exists>ch post. ws = ws' @ ch # post \<and> f ch = Some i \<and> (\<forall>x \<in> set post. f x = None))"
      by (rule snoc.IH)
    show ?thesis
    proof (cases r)
      case (Some i)
      then obtain ch post where "ws = ws' @ ch # post" "f ch = Some i" "\<forall>x \<in> set post. f x = None"
        using ih by auto
      then show ?thesis using Some None by (auto intro!: exI [of _ ch] exI [of _ "post @ [w]"])
    qed (use ih None in simp)
  next
    case (Some i)
    then have "r = Some i \<and> ws' = ws"
      using snoc.prems by (simp add: hand_over.simps [of f "ws @ [w]"])
    then show ?thesis using Some by simp
  qed
qed

lemma waiting_on_Some:
  "waiting_on s ch = Some i \<Longrightarrow> i < length (pl_tasks s) \<and> pl_tasks s ! i = Waiting ch"
  by (auto simp: waiting_on_def find_Some_iff)

lemma waiting_on_None:
  "waiting_on s ch = None \<longleftrightarrow> (\<forall>i < length (pl_tasks s). pl_tasks s ! i \<noteq> Waiting ch)"
  by (auto simp: waiting_on_def find_None_iff)

lemma release_ok:
  assumes "pool_ok cfg s" and "task_at s t = Some (Holding c)"
  shows "pool_ok cfg (release_section now t c s)"
proof -
  note u = task_update [OF assms(2), of Away, simplified]
  have "length (concat (map conns_of (pl_tasks s))) \<le> pl_live s"
    using assms(1) by (simp add: pool_ok_def owned_def)
  moreover have "length (concat (map conns_of ((pl_tasks s)[t := Away]))) + 1 = length (concat (map conns_of (pl_tasks s)))"
    using u(3) by simp
  ultimately have live: "0 < pl_live s" by linarith
  let ?s = "s\<lparr>pl_tasks := (pl_tasks s)[t := Away], pl_used := (pl_used s)(c := now)\<rparr>"
  show ?thesis
  proof (cases "is_alive s c")
    case False
    then have eq: "release_section now t c s =
        s\<lparr>pl_tasks := (pl_tasks s)[t := Away], pl_live := pl_live s - 1\<rparr>"
      by (simp add: release_section_def Let_def is_alive_def)
    show ?thesis unfolding eq
      by (rule pool_ok_sub [OF assms(1), of _ "{#c#}"])
        (use u live in \<open>simp_all add: owned_def spawning_def ac_simps\<close>)
  next
    case True
    obtain r ws where h: "hand_over (waiting_on ?s) (pl_waiters s) = (r, ws)" by fastforce
    have eq: "release_section now t c s =
        (case r of Some i \<Rightarrow> ?s\<lparr>pl_waiters := ws, pl_tasks := (pl_tasks ?s)[i := Sent c]\<rparr>
         | None \<Rightarrow> ?s\<lparr>pl_waiters := ws, pl_idle := pl_idle s @ [c]\<rparr>)"
      using True h by (simp add: release_section_def Let_def is_alive_def split: option.split)
    show ?thesis
    proof (cases r)
      case None
      show ?thesis unfolding eq None option.case
        by (rule pool_ok_sub [OF assms(1), of _ "{#}"])
          (use u in \<open>simp_all add: owned_def spawning_def ac_simps\<close>)
    next
      case (Some i)
      obtain ch where "waiting_on ?s ch = Some i" using hand_over_cases [OF h] Some by auto
      then have "task_at ?s i = Some (Waiting ch)"
        using waiting_on_Some [of ?s ch i] by (simp add: task_at_def)
      note v = task_update [OF this, of "Sent c", simplified]
      show ?thesis unfolding eq Some option.case
        by (rule pool_ok_sub [OF assms(1), of _ "{#}"])
          (use u v in \<open>simp_all add: owned_def spawning_def ac_simps\<close>)
    qed
  qed
qed

lemma step_ok:
  assumes "pool_ok cfg s" and "pool_step cfg ev s = Some s'"
  shows "pool_ok cfg s'"
proof (cases ev)
  case (Die c)
  have "pool_ok cfg (s\<lparr>pl_alive := filter (\<lambda>x. x \<noteq> c) (pl_alive s)\<rparr>)"
    by (rule pool_ok_sub [OF assms(1), of _ "{#}"]) (auto simp: owned_def spawning_def)
  then show ?thesis using assms(2) Die by simp
next
  case (Receive t)
  then obtain c where "task_at s t = Some (Sent c)" "s' = receive_section t c s"
    using assms(2) by (auto split: option.splits task.splits)
  then show ?thesis using receive_ok [OF assms(1)] by simp
next
  case (GiveUp t)
  then obtain p where "task_at s t = Some p" "p \<noteq> Spawning" "s' = give_up_section t s"
    using assms(2) by (auto split: option.splits task.splits)
  then show ?thesis using give_up_ok [OF assms(1)] by simp
next
  case (Release now t)
  then obtain c where "task_at s t = Some (Holding c)" "s' = release_section now t c s"
    using assms(2) by (auto split: option.splits task.splits)
  then show ?thesis using release_ok [OF assms(1)] by simp
qed (use assms acquire_ok spawn_ok fire_ok reap_ok in \<open>auto split: if_splits\<close>)

lemma start_ok: "pc_min cfg \<le> pc_max cfg \<Longrightarrow> pool_ok cfg (pool_start cfg tasks)"
  by (simp add: pool_ok_def pool_start_def owned_def spawning_def)

lemma reach_ok: "pool_reach cfg s \<Longrightarrow> pc_min cfg \<le> pc_max cfg \<Longrightarrow> pool_ok cfg s"
  by (induction rule: pool_reach.induct) (auto intro: start_ok step_ok)

section \<open>Waiting\<close>

definition waiting :: "pool \<Rightarrow> (nat \<times> nat) set" where
  "waiting s = {(i, ch). task_at s i = Some (Waiting ch)}"

text \<open>The queue holds every channel somebody waits on, the youngest last; who waits has no idle connection to take.\<close>

definition waits_ok :: "pool \<Rightarrow> bool" where
  "waits_ok s \<longleftrightarrow>
     sorted_wrt (<) (pl_waiters s) \<and> (\<forall>ch \<in> set (pl_waiters s). ch < pl_next s) \<and>
     snd ` waiting s \<subseteq> set (pl_waiters s) \<and> inj_on snd (waiting s) \<and> (waiting s = {} \<or> pl_idle s = [])"

lemma waits_sub:
  assumes "waits_ok s" and "waiting s' \<subseteq> waiting s" and "pl_waiters s' = pl_waiters s"
    and "pl_next s \<le> pl_next s'" and "pl_idle s = [] \<Longrightarrow> pl_idle s' = []"
  shows "waits_ok s'"
  using assms inj_on_subset [of snd "waiting s" "waiting s'"]
  unfolding waits_ok_def by (auto dest: order.strict_trans2)

lemma waiting_upd:
  "t < length (pl_tasks s) \<Longrightarrow> waiting (s\<lparr>pl_tasks := (pl_tasks s)[t := p]\<rparr>) =
     {(i, ch) \<in> waiting s. i \<noteq> t} \<union> (case p of Waiting ch \<Rightarrow> {(t, ch)} | _ \<Rightarrow> {})"
  by (auto simp: waiting_def task_at_def nth_list_update split: if_splits task.splits)

lemma waiting_cong: "pl_tasks s' = pl_tasks s \<Longrightarrow> waiting s' = waiting s"
  by (simp add: waiting_def task_at_def cong: if_cong)

lemma waiting_move:
  assumes "task_at s t = Some p" and "pl_tasks s' = (pl_tasks s)[t := q]"
  shows "waiting s' = {(i, ch) \<in> waiting s. i \<noteq> t} \<union> (case q of Waiting ch \<Rightarrow> {(t, ch)} | _ \<Rightarrow> {})"
proof -
  have t: "t < length (pl_tasks s)" using assms(1) by (simp add: task_at_def split: if_splits)
  have "waiting s' = waiting (s\<lparr>pl_tasks := (pl_tasks s)[t := q]\<rparr>)" using assms(2) by (simp add: waiting_cong)
  then show ?thesis using waiting_upd [OF t] by simp
qed

lemma waits_same:
  assumes "waits_ok s" and "pl_tasks s' = pl_tasks s" and "pl_waiters s' = pl_waiters s"
    and "pl_next s' = pl_next s" and "pl_idle s = [] \<Longrightarrow> pl_idle s' = []"
  shows "waits_ok s'"
  by (rule waits_sub [OF assms(1)]) (simp_all add: waiting_cong [OF assms(2)] assms)

lemma waits_move:
  assumes "waits_ok s" and "task_at s t = Some p" and "pl_tasks s' = (pl_tasks s)[t := q]"
    and "\<forall>ch. q \<noteq> Waiting ch" and "pl_waiters s' = pl_waiters s" and "pl_next s \<le> pl_next s'"
    and "pl_idle s = [] \<Longrightarrow> pl_idle s' = []"
  shows "waits_ok s'"
  by (rule waits_sub [OF assms(1)]) (use assms waiting_move [OF assms(2,3)] in \<open>auto split: task.splits\<close>)

lemma pop_alive_none: "pop_alive ok idle live = (None, idle', live') \<Longrightarrow> idle' = []"
  by (induction ok idle live rule: pop_alive.induct) (subst (asm) pop_alive.simps, auto split: if_splits)

lemma pop_alive_nil: "pop_alive ok [] live = (None, [], live)"
  by (simp add: pop_alive.simps)

lemma acquire_waits:
  assumes "waits_ok s" and "task_at s t = Some Away"
  shows "waits_ok (acquire_section cfg t s)"
proof -
  obtain c idle live where p: "pop_alive (is_alive s) (pl_idle s) (pl_live s) = (c, idle, live)"
    by (metis prod_cases3)
  consider x where "c = Some x" | "c = None" "live < pc_max cfg" | "c = None" "\<not> live < pc_max cfg"
    by fastforce
  then show ?thesis
  proof cases
    case 1
    then have "pl_idle s \<noteq> []" using p pop_alive_nil by fastforce
    then show ?thesis
      by (intro waits_move [OF assms, of _ "Holding x"]) (use p 1 in \<open>simp_all add: acquire_section_def\<close>)
  next
    case 2
    show ?thesis
      by (rule waits_move [OF assms, of _ Spawning]) (use p 2 pop_alive_none in \<open>simp_all add: acquire_section_def\<close>)
  next
    case 3
    let ?n = "pl_next s"
    have idle: "idle = []" using p 3(1) pop_alive_none by metis
    have eq: "acquire_section cfg t s = s\<lparr>pl_idle := [], pl_live := live, pl_waiters := pl_waiters s @ [?n],
        pl_tasks := (pl_tasks s)[t := Waiting ?n], pl_next := ?n + 1\<rparr>" (is "_ = ?s")
      using 3 p idle by (simp add: acquire_section_def)
    have w: "waiting ?s = {(i, ch) \<in> waiting s. i \<noteq> t} \<union> {(t, ?n)}"
      using waiting_move [OF assms(2), of ?s "Waiting ?n"] by simp
    note ok = assms(1) [unfolded waits_ok_def]
    have old: "ch < ?n" if "(i, ch) \<in> waiting s" for i ch using that ok by force
    have inj: "inj_on snd {(i, ch) \<in> waiting s. i \<noteq> t}"
      by (rule inj_on_subset [of _ "waiting s"]) (use ok in auto)
    have "inj_on snd (waiting ?s)"
      unfolding w using inj old by (fastforce simp: inj_on_insert)
    moreover have "snd ` waiting ?s \<subseteq> set (pl_waiters ?s)" unfolding w using ok by auto
    ultimately show ?thesis
      unfolding eq waits_ok_def using ok by (auto simp: sorted_wrt_append less_SucI)
  qed
qed

text \<open>The waiters before the one served, and those whose receiver is gone, do not matter.\<close>

lemma hand_over_youngest:
  assumes "waits_ok s" and "hand_over (waiting_on s) (pl_waiters s) = (Some i, ws)"
  obtains ch where "(i, ch) \<in> waiting s" and "\<forall>(j, ch') \<in> waiting s. ch' \<le> ch"
    and "\<forall>(j, ch') \<in> waiting s. j \<noteq> i \<longrightarrow> ch' \<in> set ws" and "sorted_wrt (<) ws" and "set ws \<subseteq> set (pl_waiters s)"
proof -
  obtain ch post where w: "pl_waiters s = ws @ ch # post" "waiting_on s ch = Some i"
      "\<forall>x \<in> set post. waiting_on s x = None"
    using hand_over_cases [OF assms(2)] by auto
  note ok = assms(1) [unfolded waits_ok_def]
  have i: "(i, ch) \<in> waiting s" using waiting_on_Some [OF w(2)] by (simp add: waiting_def task_at_def)
  have cases: "ch' \<in> set ws \<or> (j = i \<and> ch' = ch)" if "(j, ch') \<in> waiting s" for j ch'
  proof -
    have "waiting_on s ch' \<noteq> None"
      using that by (auto simp: waiting_on_None waiting_def task_at_def split: if_splits)
    moreover have "ch' \<in> set (pl_waiters s)" using that ok by force
    ultimately have "ch' \<in> set ws \<or> ch' = ch" using w by auto
    then show ?thesis
    proof
      assume "ch' = ch"
      moreover have "inj_on snd (waiting s)" using ok by simp
      ultimately have "(j, ch) = (i, ch)" using that i by (auto dest: inj_onD [of snd _ "(j, ch)" "(i, ch)"])
      then show ?thesis using \<open>ch' = ch\<close> by simp
    qed simp
  qed
  have below: "x < ch" if "x \<in> set ws" for x using that ok w(1) by (simp add: sorted_wrt_append)
  show thesis
  proof
    show "\<forall>(j, ch') \<in> waiting s. ch' \<le> ch" using cases below by (fastforce intro: less_imp_le)
    show "\<forall>(j, ch') \<in> waiting s. j \<noteq> i \<longrightarrow> ch' \<in> set ws" using cases by auto
    show "sorted_wrt (<) ws" "set ws \<subseteq> set (pl_waiters s)" using ok w(1) by (auto simp: sorted_wrt_append)
  qed (rule i)
qed

lemma hand_over_nobody:
  assumes "waits_ok s" and "hand_over (waiting_on s) (pl_waiters s) = (None, ws)"
  shows "waiting s = {}" and "ws = []"
proof -
  have n: "ws = []" "\<forall>x \<in> set (pl_waiters s). waiting_on s x = None"
    using hand_over_cases [OF assms(2)] by auto
  then show "ws = []" by simp
  show "waiting s = {}"
  proof (rule ccontr)
    assume "waiting s \<noteq> {}"
    then obtain j ch where j: "(j, ch) \<in> waiting s" by auto
    then have "ch \<in> set (pl_waiters s)" using assms(1) unfolding waits_ok_def by force
    then show False
      using n(2) j by (auto simp: waiting_on_None waiting_def task_at_def split: if_splits)
  qed
qed

lemma waits_task_gone:
  assumes "waits_ok s" and "task_at s t = Some (Holding c)"
  shows "waits_ok (s\<lparr>pl_tasks := (pl_tasks s)[t := Away]\<rparr>)"
    and "waiting (s\<lparr>pl_tasks := (pl_tasks s)[t := Away]\<rparr>) = waiting s"
proof -
  let ?s = "s\<lparr>pl_tasks := (pl_tasks s)[t := Away]\<rparr>"
  show "waits_ok ?s" by (rule waits_move [OF assms, of _ Away]) simp_all
  have "t \<noteq> i" if "(i, ch) \<in> waiting s" for i ch using that assms(2) by (auto simp: waiting_def)
  then show "waiting ?s = waiting s" using waiting_move [OF assms(2), of ?s Away] by auto
qed

lemma release_waits:
  assumes "waits_ok s" and "task_at s t = Some (Holding c)"
  shows "waits_ok (release_section now t c s)"
proof -
  let ?s = "s\<lparr>pl_tasks := (pl_tasks s)[t := Away], pl_used := (pl_used s)(c := now)\<rparr>"
  have ok: "waits_ok ?s"
    by (rule waits_same [OF waits_task_gone(1) [OF assms]]) simp_all
  show ?thesis
  proof (cases "is_alive s c")
    case False
    then have eq: "release_section now t c s = s\<lparr>pl_tasks := (pl_tasks s)[t := Away], pl_live := pl_live s - 1\<rparr>"
      by (simp add: release_section_def Let_def is_alive_def)
    show ?thesis unfolding eq
      by (rule waits_same [OF waits_task_gone(1) [OF assms]]) simp_all
  next
    case True
    obtain r ws where h: "hand_over (waiting_on ?s) (pl_waiters ?s) = (r, ws)" by fastforce
    have eq: "release_section now t c s =
        (case r of Some i \<Rightarrow> ?s\<lparr>pl_waiters := ws, pl_tasks := (pl_tasks ?s)[i := Sent c]\<rparr>
         | None \<Rightarrow> ?s\<lparr>pl_waiters := ws, pl_idle := pl_idle s @ [c]\<rparr>)"
      using True h by (simp add: release_section_def Let_def is_alive_def split: option.split)
    show ?thesis
    proof (cases r)
      case None
      have n: "waiting ?s = {}" "ws = []" using hand_over_nobody [OF ok] h None by auto
      moreover have "waiting (?s\<lparr>pl_waiters := ws, pl_idle := pl_idle s @ [c]\<rparr>) = waiting ?s"
        by (simp add: waiting_cong)
      ultimately show ?thesis unfolding eq None option.case waits_ok_def by simp
    next
      case (Some i)
      obtain ch where ch: "(i, ch) \<in> waiting ?s" "\<forall>(j, ch') \<in> waiting ?s. j \<noteq> i \<longrightarrow> ch' \<in> set ws"
          "sorted_wrt (<) ws" "set ws \<subseteq> set (pl_waiters ?s)"
        using hand_over_youngest [OF ok h [unfolded Some]] by metis
      let ?n = "?s\<lparr>pl_waiters := ws, pl_tasks := (pl_tasks ?s)[i := Sent c]\<rparr>"
      have "task_at ?s i = Some (Waiting ch)" using ch(1) by (simp add: waiting_def)
      then have w: "waiting ?n = {(j, ch') \<in> waiting ?s. j \<noteq> i}"
        using waiting_move [of ?s i "Waiting ch" ?n "Sent c"] by simp
      note k = ok [unfolded waits_ok_def]
      have "inj_on snd (waiting ?n)" unfolding w by (rule inj_on_subset [of _ "waiting ?s"]) (use k in auto)
      moreover have "snd ` waiting ?n \<subseteq> set ws" unfolding w using ch(2) by auto
      moreover have "pl_idle s = []" using k ch(1) by auto
      ultimately show ?thesis
        unfolding eq Some option.case waits_ok_def using k ch(3,4) by auto
    qed
  qed
qed

lemma step_waits:
  assumes "waits_ok s" and "pool_step cfg ev s = Some s'"
  shows "waits_ok s'"
proof (cases ev)
  case (Acquire t)
  then show ?thesis using assms acquire_waits by (auto split: if_splits)
next
  case (Spawned t ok)
  then have t: "task_at s t = Some Spawning" "s' = spawn_section t ok s"
    using assms(2) by (auto split: if_splits)
  show ?thesis
    by (rule waits_move [OF assms(1) t(1), of _ "if ok then Holding (pl_next s) else Away"])
      (use t(2) in \<open>auto simp: spawn_section_def\<close>)
next
  case (Receive t)
  then obtain c where t: "task_at s t = Some (Sent c)" "s' = receive_section t c s"
    using assms(2) by (auto split: option.splits task.splits)
  show ?thesis
    by (rule waits_move [OF assms(1) t(1), of _ "if is_alive s c then Holding c else Away"])
      (use t(2) in \<open>auto simp: receive_section_def\<close>)
next
  case (GiveUp t)
  then obtain p where t: "task_at s t = Some p" "s' = give_up_section t s"
    using assms(2) by (auto split: option.splits task.splits)
  show ?thesis
    by (rule waits_move [OF assms(1) t(1), of _ Away])
      (use t(2) in \<open>auto simp: give_up_section_def Let_def split: task.splits\<close>)
next
  case (Release now t)
  then obtain c where "task_at s t = Some (Holding c)" "s' = release_section now t c s"
    using assms(2) by (auto split: option.splits task.splits)
  then show ?thesis using release_waits [OF assms(1)] by simp
next
  case (Fire t)
  then have t: "task_at s t = Some Away" "s' = fire_section cfg t s"
    using assms(2) by (auto split: if_splits)
  show ?thesis
  proof (cases "pl_idle s = [] \<and> \<not> pl_live s < pc_max cfg")
    case False
    show ?thesis
      by (rule waits_move [OF assms(1) t(1),
            of _ "if pl_idle s \<noteq> [] then Holding (last (pl_idle s)) else Spawning"])
        (use t(2) False in \<open>auto simp: fire_section_def\<close>)
  qed (use assms(1) t(2) in \<open>simp add: fire_section_def\<close>)
next
  case (Die c)
  then have "s' = s\<lparr>pl_alive := filter (\<lambda>x. x \<noteq> c) (pl_alive s)\<rparr>" using assms(2) by simp
  then show ?thesis by (intro waits_same [OF assms(1)]) simp_all
next
  case (Reap now)
  then have s': "s' = reap_section cfg now s" using assms(2) by simp
  show ?thesis unfolding s'
    by (rule waits_same [OF assms(1)]) (auto simp: reap_section_def split: prod.splits)
qed

lemma start_waits: "waits_ok (pool_start cfg tasks)"
proof -
  have "waiting (pool_start cfg tasks) = {}" by (auto simp: waiting_def task_at_def pool_start_def)
  then show ?thesis by (simp add: waits_ok_def pool_start_def)
qed

lemma reach_waits: "pool_reach cfg s \<Longrightarrow> waits_ok s"
  by (induction rule: pool_reach.induct) (auto intro: start_waits step_waits)

section \<open>What the pool promises\<close>

interpretation reach: machine "pool_step cfg" "\<lambda>_. True" "pool_reach cfg" for cfg
  by unfold_locales (rule pool_reach.step)

lemma run_reach: "pool_reach cfg s \<Longrightarrow> pool_run cfg evs s = Some s' \<Longrightarrow> pool_reach cfg s'"
  by (rule reach.run_inv) simp_all

text \<open>A connection that is lost stays lost.\<close>

lemma step_lost: "pool_step cfg ev s = Some s' \<Longrightarrow> length (pl_lost s) \<le> length (pl_lost s')"
  by (cases ev)
    (auto simp: acquire_section_def spawn_section_def receive_section_def give_up_section_def
      release_section_def fire_section_def reap_section_def Let_def
      split: if_splits option.splits task.splits prod.splits)

interpretation lost: machine "pool_step cfg" "\<lambda>_. True" "\<lambda>s. n \<le> length (pl_lost s)" for cfg n
  by unfold_locales (use step_lost le_trans in blast)

lemma run_lost: "pool_run cfg evs s = Some s' \<Longrightarrow> length (pl_lost s) \<le> length (pl_lost s')"
  using lost.run_inv [of cfg evs s s' "length (pl_lost s)"] by simp

definition demo_cfg :: pool_config where
  "demo_cfg = \<lparr>pc_min = 1, pc_max = 2, pc_idle_ttl = 60\<rparr>"

lemmas pool_eval = demo_cfg_def pool_start_def acquire_section_def spawn_section_def release_section_def
  receive_section_def give_up_section_def fire_section_def reap_section_def task_at_def is_alive_def
  waiting_on_def pop_alive.simps hand_over.simps Let_def find_Some_iff numeral_2_eq_2 numeral_3_eq_3

text \<open>
  C10. In every state the pool reaches, the count \<open>live\<close> is the number of connections idle, in a channel, in use,
  being made or dropped by a task, it never exceeds \<open>max\<close>, and no connection is in two of these places.
\<close>

theorem pool_accounting:
  assumes "pool_reach cfg s" and "pc_min cfg \<le> pc_max cfg"
  shows "pl_live s = length (pl_idle s) + length (concat (map conns_of (pl_tasks s))) + spawning s + length (pl_lost s) \<and>
    pl_live s \<le> pc_max cfg \<and>
    distinct (pl_idle s @ concat (map conns_of (pl_tasks s)) @ pl_lost s)"
  using reach_ok [OF assms] by (simp add: pool_ok_def owned_def)

theorem pool_accounting_witness:
  "\<exists>s. pool_run demo_cfg [Acquire 0, Acquire 1, Spawned 1 True, Acquire 2, Release 5 0] (pool_start demo_cfg 3) = Some s \<and>
     pl_tasks s = [Away, Holding 1, Sent 0] \<and> pl_live s = 2 \<and> distinct (pl_idle s @ concat (map conns_of (pl_tasks s)) @ pl_lost s)"
proof -
  obtain s where s: "pool_run demo_cfg [Acquire 0, Acquire 1, Spawned 1 True, Acquire 2, Release 5 0]
      (pool_start demo_cfg 3) = Some s" "pl_tasks s = [Away, Holding 1, Sent 0]" "pl_live s = 2"
    by (simp add: pool_eval)
  have "pool_reach demo_cfg s" using run_reach [OF pool_reach.init s(1)] .
  then show ?thesis using s pool_accounting [of demo_cfg s] by (auto simp: demo_cfg_def)
qed

text \<open>
  C11. \<open>release\<close> of a connection whose worker runs: the task that waits and called \<open>acquire\<close> last gets it in its channel,
  whatever waiters gave up before; when nobody waits it becomes the youngest idle connection. While somebody waits there is
  no idle connection.
\<close>

theorem pool_release_serves:
  assumes "pool_reach cfg s" and "task_at s t = Some (Holding c)" and "is_alive s c"
  shows "\<exists>s'. pool_step cfg (Release now t) s = Some s' \<and>
    (if waiting s = {} then pl_idle s' = pl_idle s @ [c] \<and> pl_tasks s' = (pl_tasks s)[t := Away]
     else pl_idle s' = [] \<and> (\<exists>i ch. (i, ch) \<in> waiting s \<and> (\<forall>(j, ch') \<in> waiting s. ch' \<le> ch) \<and>
       pl_tasks s' = (pl_tasks s)[t := Away, i := Sent c]))"
proof -
  let ?s = "s\<lparr>pl_tasks := (pl_tasks s)[t := Away], pl_used := (pl_used s)(c := now)\<rparr>"
  have ok0: "waits_ok s" by (rule reach_waits [OF assms(1)])
  have ok: "waits_ok ?s" by (rule waits_same [OF waits_task_gone(1) [OF ok0 assms(2)]]) simp_all
  have w: "waiting ?s = waiting s"
    using waits_task_gone(2) [OF ok0 assms(2)] waiting_cong [of ?s "s\<lparr>pl_tasks := (pl_tasks s)[t := Away]\<rparr>"] by simp
  obtain r ws where h: "hand_over (waiting_on ?s) (pl_waiters ?s) = (r, ws)" by fastforce
  have eq: "pool_step cfg (Release now t) s =
      Some (case r of Some i \<Rightarrow> ?s\<lparr>pl_waiters := ws, pl_tasks := (pl_tasks ?s)[i := Sent c]\<rparr>
       | None \<Rightarrow> ?s\<lparr>pl_waiters := ws, pl_idle := pl_idle s @ [c]\<rparr>)"
    using assms(2,3) h by (simp add: release_section_def Let_def is_alive_def split: option.split)
  show ?thesis
  proof (cases r)
    case None
    then show ?thesis using hand_over_nobody(1) [OF ok] h w eq by simp
  next
    case (Some i)
    obtain ch where ch: "(i, ch) \<in> waiting s" "\<forall>(j, ch') \<in> waiting s. ch' \<le> ch"
      using hand_over_youngest [OF ok h [unfolded Some]] w by metis
    have "waiting s \<noteq> {}" "pl_idle s = []" using ch(1) ok0 by (auto simp: waits_ok_def)
    then show ?thesis using eq Some ch by auto
  qed
qed

theorem pool_release_serves_witness:
  "\<exists>s s'. pool_run demo_cfg [Acquire 0, Acquire 1, Spawned 1 True, Acquire 2, Acquire 3] (pool_start demo_cfg 4) = Some s \<and>
     pool_step demo_cfg (Release 9 0) s = Some s' \<and> waiting s \<noteq> {} \<and> pl_idle s' = []"
proof -
  obtain s where s: "pool_run demo_cfg [Acquire 0, Acquire 1, Spawned 1 True, Acquire 2, Acquire 3]
      (pool_start demo_cfg 4) = Some s" "task_at s 0 = Some (Holding 0)" "is_alive s 0" "(2, 2) \<in> waiting s"
    by (simp add: pool_eval waiting_def)
  have "pool_reach demo_cfg s" using run_reach [OF pool_reach.init s(1)] .
  then obtain s' where "pool_step demo_cfg (Release 9 0) s = Some s'"
      "if waiting s = {} then pl_idle s' = pl_idle s @ [0] \<and> pl_tasks s' = (pl_tasks s)[0 := Away]
       else pl_idle s' = [] \<and> (\<exists>i ch. (i, ch) \<in> waiting s \<and> (\<forall>(j, ch') \<in> waiting s. ch' \<le> ch) \<and>
         pl_tasks s' = (pl_tasks s)[0 := Away, i := Sent 0])"
    using pool_release_serves [of demo_cfg s 0 0 9] s by metis
  moreover have "waiting s \<noteq> {}" using s(4) by blast
  ultimately show ?thesis using s(1) by metis
qed

text \<open>
  C32. Capacity that a dropped future takes is never given back: once as many connections as \<open>max\<close> were dropped by tasks that
  ended while one was theirs, no connection is idle, made or held in any later state, whatever happens.
\<close>

theorem pool_leak_permanent:
  assumes "pool_reach cfg s" and "pc_min cfg \<le> pc_max cfg" and "length (pl_lost s) = pc_max cfg"
    and "pool_run cfg evs s = Some s'"
  shows "pl_live s' = pc_max cfg \<and> pl_idle s' = [] \<and> spawning s' = 0 \<and>
    list_all (\<lambda>p. conns_of p = []) (pl_tasks s')"
proof -
  have "pool_ok cfg s'" using reach_ok [OF run_reach [OF assms(1,4)] assms(2)] .
  then have a: "pl_live s' = length (pl_idle s') + length (concat (map conns_of (pl_tasks s'))) + length (pl_lost s') + spawning s'"
      "pl_live s' \<le> pc_max cfg"
    by (simp_all add: pool_ok_def owned_def)
  have l: "pc_max cfg \<le> length (pl_lost s')" using run_lost [OF assms(4)] assms(3) by simp
  have z: "length (pl_idle s') = 0" "length (concat (map conns_of (pl_tasks s'))) = 0" "spawning s' = 0"
      "pl_live s' = pc_max cfg"
    using a l by linarith+
  then have "concat (map conns_of (pl_tasks s')) = []" by (metis length_0_conv)
  then show ?thesis using z by (auto simp: list_all_iff)
qed

theorem pool_leak_permanent_witness:
  "\<exists>s s'. pool_run demo_cfg [Acquire 0, GiveUp 0, Acquire 1, Spawned 1 True, GiveUp 1] (pool_start demo_cfg 3) = Some s \<and>
     pool_run demo_cfg [Acquire 0, Acquire 2, Reap 100] s = Some s' \<and> pl_live s' = 2 \<and> pl_idle s' = [] \<and>
     pl_tasks s' = [Waiting 2, Away, Waiting 3]"
proof -
  obtain s s' where s: "pool_run demo_cfg [Acquire 0, GiveUp 0, Acquire 1, Spawned 1 True, GiveUp 1]
      (pool_start demo_cfg 3) = Some s" "length (pl_lost s) = 2"
      "pool_run demo_cfg [Acquire 0, Acquire 2, Reap 100] s = Some s'" "pl_tasks s' = [Waiting 2, Away, Waiting 3]"
    by (simp add: pool_eval)
  have "pool_reach demo_cfg s" using run_reach [OF pool_reach.init s(1)] .
  then have "pl_live s' = pc_max demo_cfg \<and> pl_idle s' = []"
    using pool_leak_permanent [of demo_cfg s "[Acquire 0, Acquire 2, Reap 100]" s'] s by (simp add: demo_cfg_def)
  then show ?thesis using s by (simp add: demo_cfg_def)
qed

end
