(* ===== verification/Engine.thy ===== *)
theory Engine
  imports Wire
begin

text \<open>
  \<^verbatim>\<open>engine.rs\<close>: the thread that runs the linked PostgreSQL. The C side is a parameter: a state
  \<open>'c\<close> and the functions the thread calls, which reach the Rust side through the two callbacks only.
  Also here: the startup packet, the arguments of the backend and of \<^verbatim>\<open>initdb\<close>, the fingerprint and the
  unpacking of the runtime.
\<close>

section \<open>Input and output\<close>

record engine_io =
  io_input :: bytes
  io_off :: nat
  io_output :: bytes

definition read_cb :: "nat \<Rightarrow> engine_io \<Rightarrow> bytes \<times> engine_io" where
  "read_cb max_length io =
     (let n = min (length (io_input io) - io_off io) max_length
      in (take n (drop (io_off io) (io_input io)), io\<lparr>io_off := io_off io + n\<rparr>))"

definition write_cb :: "bytes \<Rightarrow> engine_io \<Rightarrow> engine_io" where
  "write_cb bs io = io\<lparr>io_output := io_output io @ bs\<rparr>"

text \<open>\<open>pgl_native_pump\<close> and the other entry points of the C side.\<close>

record 'c engine_c =
  pump :: "'c \<Rightarrow> engine_io \<Rightarrow> int \<times> 'c \<times> engine_io"
  remaining :: "'c \<Rightarrow> int"
  long_jmp :: "'c \<Rightarrow> engine_io \<Rightarrow> 'c \<times> engine_io"
  send_ready :: "'c \<Rightarrow> engine_io \<Rightarrow> 'c \<times> engine_io"
  pq_flush :: "'c \<Rightarrow> engine_io \<Rightarrow> 'c \<times> engine_io"

definition drained :: "engine_io \<Rightarrow> bool" where
  "drained io \<longleftrightarrow> length (io_input io) \<le> io_off io"

text \<open>The loop of \<open>exec_protocol\<close>; it may run for ever, so it has fuel.\<close>

fun pump_loop :: "'c engine_c \<Rightarrow> nat \<Rightarrow> 'c \<Rightarrow> engine_io \<Rightarrow> ('c \<times> engine_io) option" where
  "pump_loop ops 0 c io = None"
| "pump_loop ops (Suc k) c io =
     (if drained io \<and> remaining ops c \<le> 0 then Some (c, io)
      else case pump ops c io of
        (rc, c, io) \<Rightarrow>
          (case (if rc = 100 then long_jmp ops c io else (c, io)) of
             (c, io) \<Rightarrow> pump_loop ops k c io))"

definition exec_protocol ::
  "'c engine_c \<Rightarrow> nat \<Rightarrow> bytes \<Rightarrow> 'c \<Rightarrow> engine_io \<Rightarrow> (bytes \<times> 'c \<times> engine_io) option" where
  "exec_protocol ops fuel wire c io =
     Option.bind (pump_loop ops fuel c (io\<lparr>io_input := wire, io_off := 0, io_output := []\<rparr>))
       (\<lambda>(c, io). case send_ready ops c io of
          (c, io) \<Rightarrow> (case pq_flush ops c io of
             (c, io) \<Rightarrow> Some (io_output io, c, io\<lparr>io_output := []\<rparr>)))"

datatype engine_command = Exec bytes | Close

datatype engine_reply = Answer bytes | CloseDone | Dropped

text \<open>
  \<open>Engine::run\<close>: the reply of each command in the order of the queue. What is queued behind a \<open>Close\<close> loses
  its reply channel. \<open>bye\<close> stands for what the C side does to shut down.
\<close>

fun engine_run ::
  "'c engine_c \<Rightarrow> nat \<Rightarrow> engine_command list \<Rightarrow> 'c \<Rightarrow> engine_io \<Rightarrow> engine_reply list option" where
  "engine_run ops fuel [] c io = Some []"
| "engine_run ops fuel (Exec wire # cmds) c io =
     Option.bind (exec_protocol ops fuel wire c io) (\<lambda>(out, c, io).
       Option.bind (engine_run ops fuel cmds c io) (\<lambda>rs. Some (Answer out # rs)))"
| "engine_run ops fuel (Close # cmds) c io =
     Option.bind (exec_protocol ops fuel [bch CHR ''X'', 0, 0, 0, 4] c io)
       (\<lambda>_. Some (CloseDone # map (\<lambda>_. Dropped) cmds))"

section \<open>Packets and arguments\<close>

definition packet_params :: "string \<Rightarrow> string \<Rightarrow> (string \<times> string) list" where
  "packet_params username database =
     [(''user'', username), (''database'', database), (''client_encoding'', ''UTF8'')]"

definition build_startup_packet :: "string \<Rightarrow> string \<Rightarrow> bytes" where
  "build_startup_packet username database =
     (let params = concat (map (\<lambda>(k, v). bytes_of k @ [0] @ bytes_of v @ [0]) (packet_params username database)) @ [0];
          total = of_nat (4 + 4 + length params)
      in be32 total @ be32 196608 @ params)"

datatype locale_provider = Libc | Icu

record pglite_options =
  po_username :: string
  po_database :: string
  po_relaxed_durability :: bool
  po_start_params :: "string list"
  po_locale_provider :: locale_provider

definition default_options :: pglite_options where
  "default_options =
     \<lparr>po_username = ''postgres'', po_database = ''postgres'', po_relaxed_durability = False,
      po_start_params = [], po_locale_provider = Libc\<rparr>"

definition boot_args :: "pglite_options \<Rightarrow> string \<Rightarrow> string list" where
  "boot_args options data_dir =
     [''--single'', ''-O'', ''-j'', ''-c'', ''search_path=public'', ''-c'', ''exit_on_error=false'',
      ''-c'', ''log_checkpoints=false'', ''-c'', ''max_worker_processes=0'', ''-c'', ''max_parallel_workers=0'',
      ''-c'', ''max_parallel_workers_per_gather=0'', ''-c'', ''max_parallel_maintenance_workers=0''] @
     (if po_relaxed_durability options then [''-F''] else []) @
     concat (map (\<lambda>param. [''-c'', param]) (po_start_params options)) @
     [''-D'', data_dir, po_database options]"

definition locale_args :: "locale_provider \<Rightarrow> string list" where
  "locale_args p =
     (case p of
        Libc \<Rightarrow> [''--locale=C'', ''--locale-provider=libc'']
      | Icu \<Rightarrow> [''--locale=C'', ''--locale-provider=icu'', ''--icu-locale=en''])"

text \<open>
  \<open>run_initdb_at\<close>: nothing when the data directory has a version file; \<open>run\<close> is the process that is
  started, with its exit and its standard error.
\<close>

definition run_initdb_at ::
  "(string list \<Rightarrow> error + (bool \<times> string)) \<Rightarrow> bool \<Rightarrow> string \<Rightarrow> string \<Rightarrow> locale_provider \<Rightarrow> unit res" where
  "run_initdb_at run has_version data_dir username provider =
     (if has_version then Inr ()
      else bindR (run ([''--allow-group-access'', ''--encoding'', ''UTF8''] @ locale_args provider @
                       [''--auth=trust'', ''-U'', username, ''-D'', data_dir]))
        (\<lambda>(success, err). if success then Inr () else Inl (Boot (''initdb failed: '' @ err))))"

text \<open>
  \<open>boot\<close>. A NUL in a text that becomes a C string or an environment variable panics the thread, which the
  opener sees as an engine that died. \<open>main\<close> and \<open>process_startup\<close> are the C side.
\<close>

datatype boot_end = Booted | BootFailed error | BootPanicked

record 'c boot_ops =
  bo_extract :: "unit res"
  bo_initdb :: "unit res"
  bo_main :: "string list \<Rightarrow> int"
  bo_startup :: "'c \<Rightarrow> engine_io \<Rightarrow> int \<times> 'c \<times> engine_io"
  bo_send_conn :: "'c \<Rightarrow> engine_io \<Rightarrow> 'c \<times> engine_io"

definition has_nul :: "string \<Rightarrow> bool" where
  "has_nul s \<longleftrightarrow> CHR 0x00 \<in> set s"

definition engine_boot ::
  "'c boot_ops \<Rightarrow> pglite_options \<Rightarrow> string \<Rightarrow> string \<Rightarrow> 'c \<Rightarrow> engine_io \<Rightarrow> boot_end \<times> 'c \<times> engine_io" where
  "engine_boot ops options bin data_dir c io =
     (case bo_extract ops of
        Inl e \<Rightarrow> (BootFailed e, c, io)
      | Inr _ \<Rightarrow>
          (case bo_initdb ops of
             Inl e \<Rightarrow> (BootFailed e, c, io)
           | Inr _ \<Rightarrow>
               if has_nul (po_username options) \<or> list_ex has_nul (bin # boot_args options data_dir)
               then (BootPanicked, c, io)
               else let rc = bo_main ops (bin # boot_args options data_dir) in
                 if rc \<noteq> 99
                 then (BootFailed (Boot (''backend main returned '' @ show_int rc @ '', expected 99'')), c, io)
                 else (case bo_startup ops c
                         (io\<lparr>io_input := build_startup_packet (po_username options) (po_database options),
                             io_off := 0, io_output := []\<rparr>) of
                    (rc, c, io) \<Rightarrow>
                      if rc \<noteq> 0 then (BootFailed (Boot (''startup packet rejected: '' @ show_int rc)), c, io)
                      else (case bo_send_conn ops c io of (c, io) \<Rightarrow> (Booted, c, io\<lparr>io_output := []\<rparr>)))))"

section \<open>The runtime directory\<close>

text \<open>\<open>runtime_fingerprint\<close>: FNV over blocks of eight bytes, the last one padded with zeros.\<close>

fun chunks8 :: "bytes \<Rightarrow> bytes list" where
  "chunks8 bs = (if bs = [] then [] else take 8 bs # chunks8 (drop 8 bs))"

declare chunks8.simps [simp del]

definition le_word :: "bytes \<Rightarrow> u64" where
  "le_word chunk = from_be64 (rev (chunk @ replicate (8 - length chunk) 0))"

definition mix :: "u64 \<Rightarrow> bytes \<Rightarrow> u64" where
  "mix hash chunk = (hash XOR le_word chunk) * 0x100000001b3"

definition runtime_fingerprint :: "bytes \<Rightarrow> u64" where
  "runtime_fingerprint tar = foldl mix 0xcbf29ce484222325 (chunks8 tar)"

text \<open>
  \<open>extract_runtime_to\<close>: the directory and the staging directory beside it, each with its files and
  the marker \<^verbatim>\<open>.extracted\<close>. The result comes with the states the file system goes through. The
  environment says which call fails, what an interrupted unpacking leaves, and what other processes have done to
  the directory by the time of the rename.
\<close>

record dir =
  dir_files :: "string list"
  dir_marker :: bool

record runtime_fs =
  rt_target :: "dir option"
  rt_staging :: "dir option"

record extract_env =
  ex_create :: "unit res"
  ex_unpack :: "unit res \<times> string list"
  ex_mark :: "unit res"
  ex_meanwhile :: "dir option \<Rightarrow> dir option"

definition marked :: "dir option \<Rightarrow> bool" where
  "marked d \<longleftrightarrow> (\<exists>x. d = Some x \<and> dir_marker x)"

text \<open>A rename onto a directory succeeds when it is not there or empty.\<close>

definition can_rename :: "dir option \<Rightarrow> bool" where
  "can_rename d \<longleftrightarrow> d = None \<or> d = Some \<lparr>dir_files = [], dir_marker = False\<rparr>"

definition extract_runtime_to ::
  "extract_env \<Rightarrow> runtime_fs \<Rightarrow> unit res \<times> runtime_fs list" where
  "extract_runtime_to env fs =
     (if marked (rt_target fs) then (Inr (), [fs])
      else let fs1 = fs\<lparr>rt_staging := None\<rparr> in
        case ex_create env of
          Inl e \<Rightarrow> (Inl e, [fs, fs1])
        | Inr _ \<Rightarrow>
            let fs2 = fs1\<lparr>rt_staging := Some \<lparr>dir_files = snd (ex_unpack env), dir_marker = False\<rparr>\<rparr> in
            (case fst (ex_unpack env) of
               Inl e \<Rightarrow> (Inl e, [fs, fs1, fs2])
             | Inr _ \<Rightarrow>
                 (case ex_mark env of
                    Inl e \<Rightarrow> (Inl e, [fs, fs1, fs2])
                  | Inr _ \<Rightarrow>
                      let staged = \<lparr>dir_files = snd (ex_unpack env), dir_marker = True\<rparr>;
                          fs3 = fs2\<lparr>rt_staging := Some staged\<rparr>;
                          fs4 = fs3\<lparr>rt_target := ex_meanwhile env (rt_target fs3)\<rparr>
                      in if can_rename (rt_target fs4)
                         then (Inr (), [fs, fs1, fs2, fs3, fs4, \<lparr>rt_target = Some staged, rt_staging = None\<rparr>])
                         else (if marked (rt_target fs4) then Inr ()
                               else Inl (Boot ''runtime extraction race lost and target invalid''),
                               [fs, fs1, fs2, fs3, fs4, fs4\<lparr>rt_staging := None\<rparr>]))))"

section \<open>Lemmas\<close>

datatype callback = ReadCb nat | WriteCb bytes

fun run_callbacks :: "callback list \<Rightarrow> engine_io \<Rightarrow> engine_io" where
  "run_callbacks [] io = io"
| "run_callbacks (ReadCb n # cbs) io = run_callbacks cbs (snd (read_cb n io))"
| "run_callbacks (WriteCb bs # cbs) io = run_callbacks cbs (write_cb bs io)"

definition by_callbacks :: "'c engine_c \<Rightarrow> bool" where
  "by_callbacks ops \<longleftrightarrow>
     (\<forall>c io. (\<exists>cbs. snd (snd (pump ops c io)) = run_callbacks cbs io) \<and>
        (\<exists>cbs. snd (long_jmp ops c io) = run_callbacks cbs io) \<and>
        (\<exists>cbs. snd (send_ready ops c io) = run_callbacks cbs io) \<and>
        (\<exists>cbs. snd (pq_flush ops c io) = run_callbacks cbs io))"

text \<open>Every turn of the loop brings the end of the input nearer, by a measure \<open>m\<close>.\<close>

definition pump_progress :: "'c engine_c \<Rightarrow> ('c \<Rightarrow> engine_io \<Rightarrow> nat) \<Rightarrow> bool" where
  "pump_progress ops m \<longleftrightarrow>
     (\<forall>c io. \<not> (drained io \<and> remaining ops c \<le> 0) \<longrightarrow>
        (case pump ops c io of (rc, c', io') \<Rightarrow>
          (case (if rc = 100 then long_jmp ops c' io' else (c', io')) of (c', io') \<Rightarrow> m c' io' < m c io)))"

definition io_ext :: "engine_io \<Rightarrow> engine_io \<Rightarrow> bool" where
  "io_ext io io' \<longleftrightarrow> io_input io' = io_input io \<and> io_off io \<le> io_off io' \<and>
     (io_off io \<le> length (io_input io) \<longrightarrow> io_off io' \<le> length (io_input io)) \<and>
     (\<exists>out. io_output io' = io_output io @ out)"

lemma io_ext_refl [simp]: "io_ext io io"
  by (simp add: io_ext_def)

lemma io_ext_trans: "io_ext a b \<Longrightarrow> io_ext b c \<Longrightarrow> io_ext a c"
  by (auto simp: io_ext_def)

lemma callbacks_ext: "io_ext io (run_callbacks cbs io)"
proof (induction cbs io rule: run_callbacks.induct)
  case (2 n cbs io)
  have "io_ext io (snd (read_cb n io))" by (auto simp: io_ext_def read_cb_def Let_def)
  then show ?case using 2 io_ext_trans by simp
next
  case (3 bs cbs io)
  have "io_ext io (write_cb bs io)" by (auto simp: io_ext_def write_cb_def)
  then show ?case using 3 io_ext_trans by simp
qed simp

lemma by_callbacksD:
  assumes "by_callbacks ops"
  shows "pump ops c io = (rc, c', io') \<Longrightarrow> io_ext io io'"
    and "long_jmp ops c io = (c', io') \<Longrightarrow> io_ext io io'"
    and "send_ready ops c io = (c', io') \<Longrightarrow> io_ext io io'"
    and "pq_flush ops c io = (c', io') \<Longrightarrow> io_ext io io'"
proof -
  note a = assms [unfolded by_callbacks_def, rule_format, of c io]
  show "pump ops c io = (rc, c', io') \<Longrightarrow> io_ext io io'" using a callbacks_ext [of io] by (metis snd_conv)
  show "long_jmp ops c io = (c', io') \<Longrightarrow> io_ext io io'" using a callbacks_ext [of io] by (metis snd_conv)
  show "send_ready ops c io = (c', io') \<Longrightarrow> io_ext io io'" using a callbacks_ext [of io] by (metis snd_conv)
  show "pq_flush ops c io = (c', io') \<Longrightarrow> io_ext io io'" using a callbacks_ext [of io] by (metis snd_conv)
qed

lemma pump_loop_returns:
  assumes "by_callbacks ops" and "pump_progress ops m" and "m c io < k"
  shows "\<exists>c' io'. pump_loop ops k c io = Some (c', io') \<and> io_ext io io' \<and> drained io' \<and> remaining ops c' \<le> 0"
  using assms(3)
proof (induction k arbitrary: c io)
  case (Suc k)
  show ?case
  proof (cases "drained io \<and> remaining ops c \<le> 0")
    case False
    obtain rc c1 io1 where p: "pump ops c io = (rc, c1, io1)" by (metis prod_cases3)
    obtain c2 io2 where j: "(if rc = 100 then long_jmp ops c1 io1 else (c1, io1)) = (c2, io2)" by fastforce
    have "m c2 io2 < m c io"
      using assms(2) [unfolded pump_progress_def, rule_format, OF False] p j by simp
    then have "m c2 io2 < k" using Suc.prems by simp
    from Suc.IH [OF this] obtain c' io' where r: "pump_loop ops k c2 io2 = Some (c', io')" "io_ext io2 io'"
        "drained io'" "remaining ops c' \<le> 0" by blast
    have "io_ext io1 io2" using j by_callbacksD(2) [OF assms(1)] by (auto split: if_splits)
    then have "io_ext io io'" using by_callbacksD(1) [OF assms(1) p] r(2) io_ext_trans by blast
    then show ?thesis using False p j r by simp
  qed simp
qed simp

lemma exec_returns:
  assumes "by_callbacks ops" and "pump_progress ops m"
    and "m c \<lparr>io_input = wire, io_off = 0, io_output = []\<rparr> < fuel"
  shows "\<exists>out c' io'. (\<forall>io. exec_protocol ops fuel wire c io = Some (out, c', io')) \<and>
    io_input io' = wire \<and> io_off io' = length wire \<and> io_output io' = []"
proof -
  let ?io = "\<lparr>io_input = wire, io_off = 0, io_output = []\<rparr>"
  obtain c1 io1 where r: "pump_loop ops fuel c ?io = Some (c1, io1)" "io_ext ?io io1" "drained io1"
    using pump_loop_returns [OF assms] by blast
  obtain c2 io2 where s: "send_ready ops c1 io1 = (c2, io2)" by fastforce
  obtain c3 io3 where f: "pq_flush ops c2 io2 = (c3, io3)" by fastforce
  have e: "io_ext ?io io3"
    using r(2) by_callbacksD(3) [OF assms(1) s] by_callbacksD(4) [OF assms(1) f] io_ext_trans by blast
  have "io_ext io1 io3" using by_callbacksD(3) [OF assms(1) s] by_callbacksD(4) [OF assms(1) f] io_ext_trans by blast
  then have off: "io_off io3 = length wire"
    using e r(2,3) by (auto simp: io_ext_def drained_def)
  have "exec_protocol ops fuel wire c io = Some (io_output io3, c3, io3\<lparr>io_output := []\<rparr>)" for io
  proof -
    have "io\<lparr>io_input := wire, io_off := 0, io_output := []\<rparr> = ?io" by simp
    then show ?thesis using r(1) s f by (simp only: exec_protocol_def) simp
  qed
  then show ?thesis using e off by (auto simp: io_ext_def)
qed


definition echo_c :: "unit engine_c" where
  "echo_c = \<lparr>pump = (\<lambda>c io. case read_cb 4 io of (bs, io) \<Rightarrow> (0, c, write_cb bs io)), remaining = (\<lambda>_. 0),
     long_jmp = Pair, send_ready = (\<lambda>c io. (c, write_cb [bch CHR ''Z''] io)), pq_flush = Pair\<rparr>"

lemma echo_callbacks: "by_callbacks echo_c"
  unfolding by_callbacks_def
proof (intro allI conjI)
  fix c :: unit and io
  show "\<exists>cbs. snd (snd (pump echo_c c io)) = run_callbacks cbs io"
    by (intro exI [of _ "[ReadCb 4, WriteCb (fst (read_cb 4 io))]"]) (simp add: echo_c_def split: prod.split)
  show "\<exists>cbs. snd (long_jmp echo_c c io) = run_callbacks cbs io"
    by (intro exI [of _ "[]"]) (simp add: echo_c_def)
  show "\<exists>cbs. snd (send_ready echo_c c io) = run_callbacks cbs io"
    by (intro exI [of _ "[WriteCb [bch CHR ''Z'']]"]) (simp add: echo_c_def)
  show "\<exists>cbs. snd (pq_flush echo_c c io) = run_callbacks cbs io"
    by (intro exI [of _ "[]"]) (simp add: echo_c_def)
qed

lemma echo_progress: "pump_progress echo_c (\<lambda>_ io. length (io_input io) - io_off io)"
  by (auto simp: pump_progress_def echo_c_def read_cb_def write_cb_def drained_def Let_def)


section \<open>The fingerprint and the marker\<close>

lemma chunks8_append: "length p mod 8 = 0 \<Longrightarrow> chunks8 (p @ s) = chunks8 p @ chunks8 s"
proof (induction p rule: chunks8.induct)
  case (1 p)
  show ?case
  proof (cases "p = []")
    case False
    have l: "8 \<le> length p" using 1(2) False by (metis length_greater_0_conv mod_less not_le_imp_less less_numeral_extra(3))
    then have "chunks8 (drop 8 p @ s) = chunks8 (drop 8 p) @ chunks8 s"
      using 1(1) [OF False] 1(2) by (simp add: le_mod_geq)
    moreover have "take 8 (p @ s) = take 8 p" "drop 8 (p @ s) = drop 8 p @ s" using l by simp_all
    ultimately show ?thesis using False by (simp add: chunks8.simps [of "p @ s"] chunks8.simps [of p])
  qed (simp add: chunks8.simps [of "[]"])
qed

lemma chunks8_Cons:
  assumes "c \<noteq> []" and "length c \<le> 8" and "length c = 8 \<or> s = []"
  shows "chunks8 (c @ s) = c # chunks8 s"
proof -
  have "take 8 (c @ s) = c" "drop 8 (c @ s) = s" using assms by auto
  then show ?thesis using assms(1) by (simp add: chunks8.simps [of "c @ s"])
qed

lemma from_be64_inj: "length a = 8 \<Longrightarrow> length b = 8 \<Longrightarrow> from_be64 a = from_be64 b \<longleftrightarrow> a = b"
  by (metis be_from_be(3))

lemma le_word_inj:
  assumes "length c = length d" and "length c \<le> 8" and "le_word c = le_word d"
  shows "c = d"
proof -
  have "rev (c @ replicate (8 - length c) 0) = rev (d @ replicate (8 - length d) 0)"
    using assms by (simp add: le_word_def from_be64_inj del: rev_append)
  then show ?thesis using assms(1) by (metis append_eq_append_conv rev_is_rev_conv)
qed

text \<open>The multiplier of FNV is odd, so it has an inverse and mixing loses nothing.\<close>

lemma fnv_inverse: "(0x100000001b3 :: u64) * 0xce965057aff6957b = 1"
  by simp

lemma inverse_cancel:
  fixes p q a b :: u64
  assumes "p * q = 1"
  shows "a * p = b * p \<longleftrightarrow> a = b"
proof
  assume "a * p = b * p"
  then have "a * p * q = b * p * q" by (rule arg_cong)
  then show "a = b" using assms by (simp only: mult.assoc mult_1_right)
qed simp

lemma fnv_cancel: "a * 0x100000001b3 = b * 0x100000001b3 \<longleftrightarrow> a = b" for a b :: u64
  by (rule inverse_cancel [OF fnv_inverse])

lemma xor_cancel: "(a XOR b = a XOR c) = (b = c)" "(b XOR a = c XOR a) = (b = c)" for a b c :: u64
proof -
  have l: "a XOR (a XOR x) = x" for x by (simp add: xor.assoc [symmetric])
  show "(a XOR b = a XOR c) = (b = c)" by (rule iffI, drule arg_cong [of _ _ "\<lambda>x. a XOR x"], simp only: l, simp)
  then show "(b XOR a = c XOR a) = (b = c)" by (simp add: xor.commute)
qed

lemma mix_word: "mix h c = mix h d \<longleftrightarrow> le_word c = le_word d"
  by (simp only: mix_def fnv_cancel xor_cancel)

lemma mix_hash: "mix h c = mix k c \<longleftrightarrow> h = k"
  by (simp only: mix_def fnv_cancel xor_cancel)

lemma foldl_mix_inj: "foldl mix h cs = foldl mix k cs \<longleftrightarrow> h = k"
  by (induction cs arbitrary: h k) (simp_all add: mix_hash)

text \<open>
  Two runtime archives of the same length that differ in one aligned block of eight bytes have different
  fingerprints, so they are unpacked to different directories.
\<close>

theorem fingerprint_one_block:
  assumes "length p mod 8 = 0" and "length c = length d" and "length c \<le> 8" and "length c = 8 \<or> s = []" and "c \<noteq> d"
  shows "runtime_fingerprint (p @ c @ s) \<noteq> runtime_fingerprint (p @ d @ s)"
proof -
  have ne: "c \<noteq> []" "d \<noteq> []" using assms(2,5) by auto
  have "chunks8 (p @ c @ s) = chunks8 p @ c # chunks8 s" "chunks8 (p @ d @ s) = chunks8 p @ d # chunks8 s"
    using assms ne by (simp_all add: chunks8_append chunks8_Cons)
  moreover have "le_word c \<noteq> le_word d" using le_word_inj assms(2,3,5) by blast
  ultimately show ?thesis by (simp add: runtime_fingerprint_def foldl_mix_inj mix_word)
qed

theorem fingerprint_one_block_witness:
  "runtime_fingerprint ([1, 2, 3, 4, 5, 6, 7, 8] @ [9, 1] @ []) \<noteq> runtime_fingerprint ([1, 2, 3, 4, 5, 6, 7, 8] @ [9, 2] @ [])"
  by (rule fingerprint_one_block) simp_all

definition complete :: "string list \<Rightarrow> dir option \<Rightarrow> bool" where
  "complete files d \<longleftrightarrow> (\<forall>x. d = Some x \<longrightarrow> dir_marker x \<longrightarrow> dir_files x = files)"

text \<open>
  C40. Unpacking the runtime: in every state the file system goes through, wherever the process stops, a runtime
  directory with the marker holds the whole archive; when the call succeeds the directory has the marker. Other processes
  may unpack the same archive at the same time, and an unpacking that reports success is complete.
\<close>

theorem extract_runtime_atomic:
  assumes "complete files (rt_target fs)"
    and "\<forall>d. complete files d \<longrightarrow> complete files (ex_meanwhile env d)"
    and "is_ok (fst (ex_unpack env)) \<Longrightarrow> snd (ex_unpack env) = files"
    and "extract_runtime_to env fs = (r, trace)"
  shows "(\<forall>st \<in> set trace. complete files (rt_target st)) \<and> hd trace = fs \<and>
    (is_ok r \<longrightarrow> marked (rt_target (last trace)))"
proof -
  have later: "complete files (ex_meanwhile env (rt_target fs))" using assms(1,2) by blast
  have part: "complete files (Some \<lparr>dir_files = xs, dir_marker = False\<rparr>)" for xs by (simp add: complete_def)
  have whole: "complete files (Some \<lparr>dir_files = files, dir_marker = True\<rparr>)" by (simp add: complete_def)
  show ?thesis
  proof (cases "marked (rt_target fs)")
    case True
    then show ?thesis using assms(1,4) by (auto simp: extract_runtime_to_def)
  next
    case False
    note e = assms(4) [unfolded extract_runtime_to_def Let_def if_not_P [OF False]]
    show ?thesis
    proof (cases "is_ok (ex_create env) \<and> is_ok (fst (ex_unpack env)) \<and> is_ok (ex_mark env)")
      case True
      then obtain a b c where ok: "ex_create env = Inr a" "fst (ex_unpack env) = Inr b" "ex_mark env = Inr c"
        by (auto simp: is_ok_iff)
      then have files: "snd (ex_unpack env) = files" using assms(3) by simp
      have m: "marked (Some \<lparr>dir_files = files, dir_marker = True\<rparr>)" by (simp add: marked_def)
      show ?thesis
        using e assms(1) later whole m unfolding ok files
        by (cases "can_rename (ex_meanwhile env (rt_target fs))";
            cases "marked (ex_meanwhile env (rt_target fs))") auto
    next
      case False
      then show ?thesis
        using e assms(1) by (auto simp: is_ok_iff split: sum.splits)
    qed
  qed
qed

theorem extract_runtime_atomic_witness:
  "\<exists>r trace. extract_runtime_to
      \<lparr>ex_create = Inr (), ex_unpack = (Inr (), [''bin/postgres'']), ex_mark = Inr (),
       ex_meanwhile = (\<lambda>_. Some \<lparr>dir_files = [''bin/postgres''], dir_marker = True\<rparr>)\<rparr>
      \<lparr>rt_target = None, rt_staging = None\<rparr> = (r, trace) \<and> length trace = 6 \<and> marked (rt_target (last trace))"
proof -
  let ?env = "\<lparr>ex_create = Inr (), ex_unpack = (Inr (), [''bin/postgres'']), ex_mark = Inr (),
       ex_meanwhile = (\<lambda>_. Some \<lparr>dir_files = [''bin/postgres''], dir_marker = True\<rparr>)\<rparr>"
  let ?fs = "\<lparr>rt_target = None, rt_staging = None\<rparr>"
  obtain r trace where e: "extract_runtime_to ?env ?fs = (r, trace)" by fastforce
  have n: "length trace = 6" "is_ok r" using e by (auto simp: extract_runtime_to_def marked_def can_rename_def Let_def)
  have "marked (rt_target (last trace))"
    using extract_runtime_atomic [OF _ _ _ e, of "[''bin/postgres'']"] n(2) by (simp add: complete_def)
  then show ?thesis using e n by blast
qed

end
