(* ===== verification/Conn.thy ===== *)
theory Conn
  imports Engine
begin

text \<open>
  The connections of \<^verbatim>\<open>multiple_process\<close>: the framing of replies, the handshake and the worker of a pool
  connection (\<^verbatim>\<open>pool.rs\<close>), and the connection for notifications (\<^verbatim>\<open>notify.rs\<close>). A stream is the bytes the peer
  sends, and whether it closes after them; a read that waits for more of an open stream is \<open>None\<close>.
\<close>

section \<open>Reading\<close>

definition eof :: error where
  "eof = Io UnexpectedEof ''failed to fill whole buffer''"

definition read_exact :: "bool \<Rightarrow> nat \<Rightarrow> bytes \<Rightarrow> (bytes res \<times> bytes) option" where
  "read_exact closed n inp =
     (if n \<le> length inp then Some (Inr (take n inp), drop n inp)
      else if closed then Some (Inl eof, []) else None)"

lemma read_exact_short:
  "read_exact closed n inp = Some (Inr bs, rest) \<Longrightarrow> inp = bs @ rest \<and> length bs = n"
  by (auto simp: read_exact_def split: if_splits)

definition frame_len :: "bytes \<Rightarrow> nat" where
  "frame_len header = unat (from_be32 (drop 1 header)) - 4"

function read_response :: "bool \<Rightarrow> bytes \<Rightarrow> bytes \<Rightarrow> (bytes res \<times> bytes) option" where
  "read_response closed out inp =
     (case read_exact closed 5 inp of
        None \<Rightarrow> None
      | Some (Inl e, rest) \<Rightarrow> Some (Inl e, rest)
      | Some (Inr header, rest) \<Rightarrow>
          (case read_exact closed (frame_len header) rest of
             None \<Rightarrow> None
           | Some (Inl e, rest) \<Rightarrow> Some (Inl e, rest)
           | Some (Inr body, rest) \<Rightarrow>
               if hd header = bch CHR ''Z'' then Some (Inr (out @ header @ body), rest)
               else read_response closed (out @ header @ body) rest))"
  by pat_completeness auto
termination
  by (relation "measure (\<lambda>(closed, out, inp). length inp)") (auto dest!: read_exact_short)

declare read_response.simps [simp del]

text \<open>
  \<open>connect_and_handshake\<close>: \<open>connected\<close> is the result of the connect and of the write of the startup packet,
  \<open>inp\<close> what the server sends, \<open>lossy\<close> the lossy decoding of UTF-8 in the standard library. The result comes with
  the packet written.
\<close>

definition connect_and_handshake ::
  "(bytes \<Rightarrow> string) \<Rightarrow> unit res \<Rightarrow> string \<Rightarrow> string \<Rightarrow> bool \<Rightarrow> bytes \<Rightarrow> ((unit res \<times> bytes) \<times> bytes) option" where
  "connect_and_handshake lossy connected username database closed inp =
     (let wire = build_startup_packet username database in
      case connected of
        Inl e \<Rightarrow> Some ((Inl e, inp), [])
      | Inr _ \<Rightarrow>
          (case read_response closed [] inp of
             None \<Rightarrow> None
           | Some (Inl e, rest) \<Rightarrow> Some ((Inl e, rest), wire)
           | Some (Inr response, rest) \<Rightarrow>
               if take 1 response = [bch CHR ''E'']
               then Some ((Inl (Protocol (''server rejected connection: '' @ lossy response)), rest), wire)
               else Some ((Inr (), rest), wire)))"

section \<open>The worker of a pool connection\<close>

text \<open>
  The commands in the order of the queue; \<open>rt\<close> is \<open>write_all\<close> and \<open>read_response\<close> on the current stream \<open>w\<close>,
  \<open>reconnect\<close> the outcome of the \<open>n\<close>-th new handshake. The replies, and whether the connection is still alive. A
  command that comes after the worker has ended has no reply channel any more.
\<close>

fun worker ::
  "(bytes \<Rightarrow> 'w \<Rightarrow> bytes res \<times> 'w) \<Rightarrow> (nat \<Rightarrow> 'w res) \<Rightarrow> nat \<Rightarrow> bytes list \<Rightarrow> 'w \<Rightarrow> bytes res list \<times> bool" where
  "worker rt reconnect n [] w = ([], True)"
| "worker rt reconnect n (wire # wires) w =
     (case rt wire w of
        (Inr resp, w) \<Rightarrow> map_prod (Cons (Inr resp)) id (worker rt reconnect n wires w)
      | (Inl e, w) \<Rightarrow>
          (case reconnect n of
             Inr fresh \<Rightarrow> map_prod (Cons (Inl e)) id (worker rt reconnect (Suc n) wires fresh)
           | Inl _ \<Rightarrow> (Inl e # map (\<lambda>_. Inl Closed) wires, False)))"

section \<open>The connection for notifications\<close>

type_synonym 'k listener_map = "string \<Rightarrow> (u64 \<times> 'k) list option"

text \<open>A notification calls the callbacks of its channel, in the order they were registered.\<close>

definition notify_calls :: "(string \<Rightarrow> string) \<Rightarrow> 'k listener_map \<Rightarrow> string \<Rightarrow> string \<Rightarrow> ('k \<times> string) list" where
  "notify_calls lower listeners channel payload =
     (case listeners (lower channel) of None \<Rightarrow> [] | Some cbs \<Rightarrow> map (\<lambda>(_, k). (k, payload)) cbs)"

text \<open>
  The state the reader and the callers of \<open>command\<close> share: the replies awaited, from the front; the replies given and the
  calls made so far; the error of the reply being read.
\<close>

record 'k notify_state =
  ny_pending :: "nat list"
  ny_replies :: "(nat \<times> error option) list"
  ny_calls :: "('k \<times> string) list"
  ny_staged :: "error option"

text \<open>The body of the loop of \<open>reader_loop\<close>, for what \<open>Message::parse\<close> makes of a frame.\<close>

definition on_frame ::
  "(string \<Rightarrow> string) \<Rightarrow> 'k listener_map \<Rightarrow> (string + (backend_msg \<times> bytes) option) \<Rightarrow> 'k notify_state \<Rightarrow> 'k notify_state" where
  "on_frame lower listeners parsed s =
     (case parsed of
        Inr (Some (NotificationResponse (Inr channel) (Inr payload), _)) \<Rightarrow>
          s\<lparr>ny_calls := ny_calls s @ notify_calls lower listeners channel payload\<rparr>
      | Inr (Some (ErrorResponse fs, _)) \<Rightarrow> s\<lparr>ny_staged := Some (from_error_fields fs)\<rparr>
      | Inr (Some (ReadyForQuery, _)) \<Rightarrow>
          (case ny_pending s of
             [] \<Rightarrow> s
           | tx # txs \<Rightarrow> s\<lparr>ny_pending := txs, ny_replies := ny_replies s @ [(tx, ny_staged s)], ny_staged := None\<rparr>)
      | _ \<Rightarrow> s)"

definition on_eof :: "'k notify_state \<Rightarrow> 'k notify_state" where
  "on_eof s = s\<lparr>ny_pending := [], ny_replies := ny_replies s @ map (\<lambda>tx. (tx, Some Closed)) (ny_pending s)\<rparr>"

text \<open>\<open>command\<close> puts its reply channel into the queue while it holds the writer, then writes.\<close>

definition command_queued :: "nat \<Rightarrow> 'k notify_state \<Rightarrow> 'k notify_state" where
  "command_queued tx s = s\<lparr>ny_pending := ny_pending s @ [tx]\<rparr>"

datatype notify_event = Command nat | FrameIn "string + (backend_msg \<times> bytes) option"

definition notify_step ::
  "(string \<Rightarrow> string) \<Rightarrow> 'k listener_map \<Rightarrow> 'k notify_state \<Rightarrow> notify_event \<Rightarrow> 'k notify_state" where
  "notify_step lower listeners s ev =
     (case ev of Command tx \<Rightarrow> command_queued tx s | FrameIn parsed \<Rightarrow> on_frame lower listeners parsed s)"

text \<open>The frames of \<open>reader_loop\<close>: the bytes of each, as the parser gets them, until the stream ends.\<close>

function reader_frames :: "bytes \<Rightarrow> bytes list" where
  "reader_frames inp =
     (case read_exact True 5 inp of
        Some (Inr header, rest) \<Rightarrow>
          (case read_exact True (frame_len header) rest of
             Some (Inr body, rest) \<Rightarrow> (header @ body) # reader_frames rest
           | _ \<Rightarrow> [])
      | _ \<Rightarrow> [])"
  by pat_completeness auto
termination
  by (relation "measure length") (auto dest!: read_exact_short)

declare reader_frames.simps [simp del]

definition reader_loop ::
  "(string \<Rightarrow> string) \<Rightarrow> 'k listener_map \<Rightarrow> (bytes \<Rightarrow> string + (backend_msg \<times> bytes) option) \<Rightarrow> bytes \<Rightarrow>
     'k notify_state \<Rightarrow> 'k notify_state" where
  "reader_loop lower listeners parse inp s =
     on_eof (foldl (\<lambda>s fr. on_frame lower listeners (parse fr) s) s (reader_frames inp))"

section \<open>Frames\<close>

definition frame_header :: "u8 \<Rightarrow> bytes \<Rightarrow> bytes" where
  "frame_header tag body = tag # be32 (of_nat (4 + length body))"

definition frame :: "u8 \<Rightarrow> bytes \<Rightarrow> bytes" where
  "frame tag body = frame_header tag body @ body"

definition body_ok :: "bytes \<Rightarrow> bool" where
  "body_ok body \<longleftrightarrow> 4 + length body < 2 ^ 32"

definition frames :: "(u8 \<times> bytes) list \<Rightarrow> bytes" where
  "frames fs = concat (map (\<lambda>(t, b). frame t b) fs)"

lemma frames_simps [simp]:
  "frames [] = []" "frames ((t, b) # fs) = frame t b @ frames fs" "frames (fs @ gs) = frames fs @ frames gs"
  by (simp_all add: frames_def)

lemma length_header [simp]: "length (frame_header t b) = 5"
  by (simp add: frame_header_def)

lemma hd_header [simp]: "hd (frame_header t b) = t"
  by (simp add: frame_header_def)

lemma length_frame [simp]: "length (frame t b) = 5 + length b"
  by (simp add: frame_def)

lemma frame_len_ok: "body_ok b \<Longrightarrow> frame_len (frame_header t b) = length b"
  unfolding frame_len_def body_ok_def frame_header_def by (simp only: drop_Suc_Cons drop_0 One_nat_def from_be_be unat_of_nat) simp

lemma read_frame:
  assumes "body_ok b"
  shows "read_response closed out (frame t b @ rest) =
    (if t = bch CHR ''Z'' then Some (Inr (out @ frame t b), rest) else read_response closed (out @ frame t b) rest)"
proof -
  have "read_exact closed 5 (frame t b @ rest) = Some (Inr (frame_header t b), b @ rest)"
    by (simp add: read_exact_def frame_def)
  moreover have "read_exact closed (length b) (b @ rest) = Some (Inr b, rest)"
    by (simp add: read_exact_def)
  ultimately show ?thesis
    using frame_len_ok [OF assms, of t]
    by (simp add: read_response.simps [of closed out "frame_header t b @ b @ rest"] frame_def)
qed

lemma read_frame_cut:
  assumes "body_ok b" and "n < length (frame t b)"
  shows "read_response closed out (take n (frame t b)) = (if closed then Some (Inl eof, []) else None)"
proof (cases "n < 5")
  case True
  then show ?thesis by (simp add: read_response.simps [of closed out "take n (frame t b)"] read_exact_def)
next
  case False
  then have "read_exact closed 5 (take n (frame t b)) = Some (Inr (frame_header t b), take (n - 5) b)"
    using assms(2) by (simp add: read_exact_def frame_def)
  moreover have "n - 5 < length b" using assms(2) False by simp
  then have "read_exact closed (length b) (take (n - 5) b) = (if closed then Some (Inl eof, []) else None)"
    by (simp add: read_exact_def)
  ultimately show ?thesis
    using frame_len_ok [OF assms(1), of t] by (simp add: read_response.simps [of closed out "take n (frame t b)"])
qed

definition no_ready :: "(u8 \<times> bytes) list \<Rightarrow> bool" where
  "no_ready fs \<longleftrightarrow> list_all (\<lambda>(t, b). t \<noteq> bch CHR ''Z'' \<and> body_ok b) fs"

lemma no_ready_simps [simp]:
  "no_ready []" "no_ready ((t, b) # fs) \<longleftrightarrow> t \<noteq> bch CHR ''Z'' \<and> body_ok b \<and> no_ready fs"
  by (simp_all add: no_ready_def)

lemma read_frames:
  "no_ready fs \<Longrightarrow> read_response closed out (frames fs @ rest) = read_response closed (out @ frames fs) rest"
proof (induction fs arbitrary: out)
  case (Cons f fs)
  obtain t b where f: "f = (t, b)" by fastforce
  show ?case
    using Cons.prems read_frame [of b closed out t "frames fs @ rest"] Cons.IH [of "out @ frame t b"]
    by (simp only: f frames_simps append_assoc no_ready_simps if_False)
qed simp

lemma read_cut:
  assumes "no_ready fs" and "body_ok b" and "n < length (frames fs @ frame t b)"
  shows "read_response closed out (take n (frames fs @ frame t b)) = (if closed then Some (Inl eof, []) else None)"
  using assms
proof (induction fs arbitrary: out n)
  case Nil
  then show ?case using read_frame_cut [of b n t closed out] by simp
next
  case (Cons f fs)
  obtain t1 b1 where f: "f = (t1, b1)" by fastforce
  have ok: "body_ok b1" "t1 \<noteq> bch CHR ''Z''" "no_ready fs" using Cons.prems(1) by (simp_all add: f)
  show ?case
  proof (cases "n < length (frame t1 b1)")
    case True
    then have "take n (frames (f # fs) @ frame t b) = take n (frame t1 b1)" by (simp add: f)
    then show ?thesis using read_frame_cut [OF ok(1) True, of closed out] by simp
  next
    case False
    let ?m = "n - length (frame t1 b1)"
    have "take n (frames (f # fs) @ frame t b) = frame t1 b1 @ take ?m (frames fs @ frame t b)"
      using False by (simp add: f)
    moreover have "?m < length (frames fs @ frame t b)" using Cons.prems(3) False by (simp add: f)
    ultimately show ?thesis
      using Cons.IH [OF ok(3) assms(2), of ?m "out @ frame t1 b1"]
        read_frame [OF ok(1), of closed out t1 "take ?m (frames fs @ frame t b)"] ok(2) by simp
  qed
qed

lemma read_reply:
  "no_ready fs \<Longrightarrow> body_ok b \<Longrightarrow> read_response closed [] (frames fs @ frame (bch CHR ''Z'') b @ rest) =
     Some (Inr (frames fs @ frame (bch CHR ''Z'') b), rest)"
  using read_frames [of fs closed "[]" "frame (bch CHR ''Z'') b @ rest"]
    read_frame [of b closed "frames fs" "bch CHR ''Z''" rest] by simp

text \<open>
  A worker reads exactly one reply: the frames up to and with the first ReadyForQuery, whatever follows on the
  stream stays there; a reply that is cut anywhere is waited for while the connection is open and is the IO error
  of an early end when it closed.
\<close>

theorem read_response_reads_one:
  assumes "no_ready fs" and "body_ok b"
  shows "read_response closed [] (frames fs @ frame (bch CHR ''Z'') b @ rest) =
      Some (Inr (frames fs @ frame (bch CHR ''Z'') b), rest) \<and>
    (\<forall>n < length (frames fs @ frame (bch CHR ''Z'') b).
      read_response closed [] (take n (frames fs @ frame (bch CHR ''Z'') b)) =
        (if closed then Some (Inl eof, []) else None))"
  using read_reply [OF assms] read_cut [OF assms] by simp

theorem read_response_reads_one_witness:
  "read_response False [] (frames [(bch CHR ''C'', [83, 0])] @ frame (bch CHR ''Z'') [73] @ [1, 2]) =
     Some (Inr (frames [(bch CHR ''C'', [83, 0])] @ frame (bch CHR ''Z'') [73]), [1, 2])"
  using read_response_reads_one [of "[(bch CHR ''C'', [83, 0])]" "[73]" False "[1, 2]"]
  by (simp add: body_ok_def)

text \<open>
  C29. The handshake: it succeeds when the server's reply ends with ReadyForQuery and does not begin with an error, and
  leaves what follows unread; an error in front of a ReadyForQuery is reported with its text. A server that
  sends an error and closes the connection, as it does when it refuses one, gives the IO error of an early end: the
  text of the refusal is lost.
\<close>

theorem handshake_outcomes:
  assumes "no_ready ((t, b0) # fs)" and "body_ok b"
  shows "connect_and_handshake lossy (Inr ()) user database closed (frames ((t, b0) # fs) @ frame (bch CHR ''Z'') b @ rest) =
      Some ((if t = bch CHR ''E''
             then Inl (Protocol (''server rejected connection: '' @ lossy (frames ((t, b0) # fs) @ frame (bch CHR ''Z'') b)))
             else Inr (), rest), build_startup_packet user database) \<and>
    connect_and_handshake lossy (Inr ()) user database True (frames ((t, b0) # fs)) =
      Some ((Inl eof, []), build_startup_packet user database)"
proof (intro conjI)
  have "take 1 (frames ((t, b0) # fs) @ frame (bch CHR ''Z'') b) = [t]" by (simp add: frame_def frame_header_def)
  then show "connect_and_handshake lossy (Inr ()) user database closed (frames ((t, b0) # fs) @ frame (bch CHR ''Z'') b @ rest) =
      Some ((if t = bch CHR ''E''
             then Inl (Protocol (''server rejected connection: '' @ lossy (frames ((t, b0) # fs) @ frame (bch CHR ''Z'') b)))
             else Inr (), rest), build_startup_packet user database)"
    using read_reply [OF assms, of closed rest]
    by (simp only: connect_and_handshake_def Let_def sum.case option.case prod.case) auto
  have "read_response True [] (take (length (frames ((t, b0) # fs))) (frames ((t, b0) # fs) @ frame (bch CHR ''Z'') b)) =
      Some (Inl eof, [])"
    using read_cut [OF assms, of "length (frames ((t, b0) # fs))" "bch CHR ''Z''" True] by simp
  then show "connect_and_handshake lossy (Inr ()) user database True (frames ((t, b0) # fs)) =
      Some ((Inl eof, []), build_startup_packet user database)"
    by (simp only: connect_and_handshake_def Let_def sum.case option.case prod.case append_eq_conv_conj take_append) simp
qed

theorem handshake_outcomes_witness:
  "connect_and_handshake str_of (Inr ()) ''u'' ''d'' True (frames [(bch CHR ''E'', [77, 0, 0])]) =
      Some ((Inl eof, []), build_startup_packet ''u'' ''d'') \<and>
    connect_and_handshake str_of (Inr ()) ''u'' ''d'' False (frames [(bch CHR ''R'', [0, 0, 0, 0])] @ frame (bch CHR ''Z'') [73] @ []) =
      Some ((Inr (), []), build_startup_packet ''u'' ''d'')"
  using handshake_outcomes [of "bch CHR ''E''" "[77, 0, 0]" "[]" "[73]" str_of "''u''" "''d''" True "[]"]
    handshake_outcomes [of "bch CHR ''R''" "[0, 0, 0, 0]" "[]" "[73]" str_of "''u''" "''d''" False "[]"]
  by (simp add: body_ok_def)

section \<open>Replies and calls of the notification connection\<close>

text \<open>What the frames say: the outcome of each command, in order, and the error of the reply that is not yet complete.\<close>

definition outcome_step ::
  "error option list \<times> error option \<Rightarrow> string + (backend_msg \<times> bytes) option \<Rightarrow> error option list \<times> error option" where
  "outcome_step acc parsed =
     (case parsed of
        Inr (Some (ErrorResponse fs, _)) \<Rightarrow> (fst acc, Some (from_error_fields fs))
      | Inr (Some (ReadyForQuery, _)) \<Rightarrow> (fst acc @ [snd acc], None)
      | _ \<Rightarrow> acc)"

definition outcomes :: "(string + (backend_msg \<times> bytes) option) list \<Rightarrow> error option list \<times> error option" where
  "outcomes = foldl outcome_step ([], None)"

definition calls_of ::
  "(string \<Rightarrow> string) \<Rightarrow> 'k listener_map \<Rightarrow> string + (backend_msg \<times> bytes) option \<Rightarrow> ('k \<times> string) list" where
  "calls_of lower listeners parsed =
     (case parsed of
        Inr (Some (NotificationResponse (Inr channel) (Inr payload), _)) \<Rightarrow> notify_calls lower listeners channel payload
      | _ \<Rightarrow> [])"

definition asked :: "notify_event list \<Rightarrow> nat list" where
  "asked evs = List.map_filter (\<lambda>ev. case ev of Command tx \<Rightarrow> Some tx | _ \<Rightarrow> None) evs"

definition frames_in :: "notify_event list \<Rightarrow> (string + (backend_msg \<times> bytes) option) list" where
  "frames_in evs = List.map_filter (\<lambda>ev. case ev of FrameIn p \<Rightarrow> Some p | _ \<Rightarrow> None) evs"

text \<open>The server answers only what it was asked: at every point at most as many replies as commands.\<close>

definition answers_asked :: "notify_event list \<Rightarrow> bool" where
  "answers_asked evs \<longleftrightarrow>
     (\<forall>k \<le> length evs. length (fst (outcomes (frames_in (take k evs)))) \<le> length (asked (take k evs)))"

lemma asked_simps [simp]:
  "asked [] = []" "asked (evs @ [Command tx]) = asked evs @ [tx]" "asked (evs @ [FrameIn p]) = asked evs"
  by (simp_all add: asked_def map_filter_def)

lemma frames_in_simps [simp]:
  "frames_in [] = []" "frames_in (evs @ [Command tx]) = frames_in evs" "frames_in (evs @ [FrameIn p]) = frames_in evs @ [p]"
  by (simp_all add: frames_in_def map_filter_def)

lemma outcomes_simps [simp]:
  "outcomes [] = ([], None)" "outcomes (ps @ [p]) = outcome_step (outcomes ps) p"
  by (simp_all add: outcomes_def)

definition notify_start :: "'k notify_state" where
  "notify_start = \<lparr>ny_pending = [], ny_replies = [], ny_calls = [], ny_staged = None\<rparr>"

definition notify_run ::
  "(string \<Rightarrow> string) \<Rightarrow> 'k listener_map \<Rightarrow> notify_event list \<Rightarrow> 'k notify_state" where
  "notify_run lower listeners evs = foldl (notify_step lower listeners) notify_start evs"

lemma answers_asked_snoc:
  "answers_asked (evs @ [ev]) \<longleftrightarrow> answers_asked evs \<and>
     length (fst (outcomes (frames_in (evs @ [ev])))) \<le> length (asked (evs @ [ev]))"
proof -
  have "(\<forall>k \<le> Suc (length evs). P k) \<longleftrightarrow> (\<forall>k \<le> length evs. P k) \<and> P (Suc (length evs))" for P
    by (auto simp: le_Suc_eq)
  then show ?thesis by (auto simp: answers_asked_def)
qed

lemma calls_of_ready [simp]: "calls_of lower ls (Inr (Some (ReadyForQuery, r))) = []"
  by (simp add: calls_of_def)

lemma zip_snoc: "length ys < length xs \<Longrightarrow> zip xs (ys @ [y]) = zip xs ys @ [(xs ! length ys, y)]"
proof (induction ys arbitrary: xs)
  case Nil
  then show ?case by (cases xs) simp_all
next
  case (Cons z ys)
  then show ?case by (cases xs) simp_all
qed

lemma notify_run_spec:
  assumes "answers_asked evs"
  shows "ny_replies (notify_run lower ls evs) = zip (asked evs) (fst (outcomes (frames_in evs))) \<and>
    ny_pending (notify_run lower ls evs) = drop (length (fst (outcomes (frames_in evs)))) (asked evs) \<and>
    ny_staged (notify_run lower ls evs) = snd (outcomes (frames_in evs)) \<and>
    ny_calls (notify_run lower ls evs) = concat (map (calls_of lower ls) (frames_in evs))"
  using assms
proof (induction evs rule: rev_induct)
  case Nil
  then show ?case by (simp add: notify_run_def notify_start_def)
next
  case (snoc ev evs)
  let ?s = "notify_run lower ls evs" and ?o = "outcomes (frames_in evs)"
  have ih: "ny_replies ?s = zip (asked evs) (fst ?o)" "ny_pending ?s = drop (length (fst ?o)) (asked evs)"
      "ny_staged ?s = snd ?o" "ny_calls ?s = concat (map (calls_of lower ls) (frames_in evs))"
    and le: "length (fst ?o) \<le> length (asked evs)"
    using snoc answers_asked_snoc [of evs ev] by (auto simp: answers_asked_def)
  have run: "notify_run lower ls (evs @ [ev]) = notify_step lower ls ?s ev" by (simp add: notify_run_def)
  show ?case
  proof (cases ev)
    case (Command tx)
    have "zip (asked evs @ [tx]) (fst ?o) = zip (asked evs) (fst ?o)"
      using le by (simp add: zip_append1)
    then show ?thesis
      unfolding run using ih le by (simp add: Command notify_step_def command_queued_def)
  next
    case (FrameIn p)
    show ?thesis
    proof (cases "\<exists>r. p = Inr (Some (ReadyForQuery, r))")
      case True
      then obtain r where p: "p = Inr (Some (ReadyForQuery, r))" by blast
      have lt: "length (fst ?o) < length (asked evs)"
        using snoc.prems by (simp add: answers_asked_snoc FrameIn p outcome_step_def)
      have "drop (length (fst ?o)) (asked evs) = asked evs ! length (fst ?o) # drop (Suc (length (fst ?o))) (asked evs)"
        by (rule Cons_nth_drop_Suc [OF lt, symmetric])
      moreover have "zip (asked evs) (fst ?o @ [snd ?o]) = zip (asked evs) (fst ?o) @ [(asked evs ! length (fst ?o), snd ?o)]"
        by (rule zip_snoc [OF lt])
      ultimately show ?thesis
        unfolding run using ih by (simp add: FrameIn p notify_step_def on_frame_def outcome_step_def)
    next
      case False
      then show ?thesis
        unfolding run using ih
        by (auto simp: FrameIn notify_step_def on_frame_def outcome_step_def calls_of_def [of lower ls p]
            split: sum.splits option.splits backend_msg.splits prod.splits)
    qed
  qed
qed

text \<open>
  C16. The notification connection answers every command with its own outcome. However commands, replies and
  notifications interleave, while the server answers only what it was asked: the replies given are the commands
  in the order they were queued, each with the last error of its reply; the callbacks are called for every notification in
  order; and when the stream ends every command still waiting is answered with \<open>Closed\<close>.
\<close>

theorem notify_in_order:
  assumes "answers_asked evs"
  shows "ny_replies (notify_run lower ls evs) = zip (asked evs) (fst (outcomes (frames_in evs))) \<and>
    ny_calls (notify_run lower ls evs) = concat (map (calls_of lower ls) (frames_in evs)) \<and>
    map fst (ny_replies (on_eof (notify_run lower ls evs))) = asked evs \<and>
    drop (length (fst (outcomes (frames_in evs)))) (map snd (ny_replies (on_eof (notify_run lower ls evs)))) =
      replicate (length (asked evs) - length (fst (outcomes (frames_in evs)))) (Some Closed)"
proof -
  let ?n = "length (fst (outcomes (frames_in evs)))"
  note spec = notify_run_spec [OF assms, of lower ls]
  have le: "?n \<le> length (asked evs)" using assms by (auto simp: answers_asked_def)
  have "map fst (zip (asked evs) (fst (outcomes (frames_in evs)))) = take ?n (asked evs)"
    using le by (simp add: map_fst_zip_take min_absorb2)
  moreover have "map snd (zip (asked evs) (fst (outcomes (frames_in evs)))) = fst (outcomes (frames_in evs))"
    using le by (simp add: map_snd_zip_take)
  moreover have "map (\<lambda>tx. snd (tx, Some Closed)) xs = replicate (length xs) (Some Closed)" for xs :: "nat list"
    by (simp add: map_replicate_const)
  ultimately show ?thesis
    using spec le by (simp add: on_eof_def comp_def map_replicate_const)
qed

theorem notify_in_order_witness:
  "ny_replies (on_eof (notify_run id (\<lambda>ch. if ch = ''c'' then Some [(0, ''k'')] else None)
     [Command 1, Command 2, FrameIn (Inr (Some (NotificationResponse (Inr ''c'') (Inr ''p''), []))),
      FrameIn (Inr (Some (ErrorResponse [(CHR ''M'', ''no'')], []))), FrameIn (Inr (Some (ReadyForQuery, [])))])) =
     [(1, Some (Database [] ''no'' None None)), (2, Some Closed)]"
proof -
  let ?evs = "[Command 1, Command 2, FrameIn (Inr (Some (NotificationResponse (Inr ''c'') (Inr ''p''), []))),
      FrameIn (Inr (Some (ErrorResponse [(CHR ''M'', ''no'')], []))), FrameIn (Inr (Some (ReadyForQuery, [])))]"
  let ?ls = "\<lambda>ch. if ch = ''c'' then Some [(0, ''k'')] else None"
  have ok: "answers_asked ?evs"
    by (simp add: answers_asked_def asked_def frames_in_def map_filter_def outcomes_def outcome_step_def
      All_less_Suc2 less_Suc_eq_le [symmetric])
  have o: "outcomes (frames_in ?evs) = ([Some (Database [] ''no'' None None)], None)" "asked ?evs = [1, 2]"
    by (simp_all add: asked_def frames_in_def map_filter_def outcomes_def outcome_step_def from_error_fields_def)
  show ?thesis
    using notify_in_order [OF ok, of id ?ls] o notify_run_spec [OF ok, of id ?ls]
    by (simp add: on_eof_def)
qed

end
