(* ===== verification/Db.thy ===== *)
theory Db
  imports Conn
begin

text \<open>
  \<^verbatim>\<open>db.rs\<close> and \<^verbatim>\<open>row.rs\<close>: statements, their responses, COPY, rows and the listeners. The backend (the engine
  thread or the pool) is a state \<open>'b\<close> and the function \<open>roundtrip\<close>; the message parser and the encoders of the
  other crates, and the lower-casing of the standard library, are parameters.
\<close>

section \<open>State\<close>

record ('b, 'k) db =
  db_backend :: 'b
  db_listeners :: "'k listener_map"
  db_next :: u64
  db_calls :: "('k \<times> string) list"

text \<open>
  \<open>de_notify\<close> is the notification connection of the multi-process mode; the in-process mode has none.
\<close>

record 'b db_env =
  de_parse :: "bytes \<Rightarrow> string + (backend_msg \<times> bytes) option"
  de_lower :: "string \<Rightarrow> string"
  de_roundtrip :: "bytes \<Rightarrow> 'b \<Rightarrow> bytes res \<times> 'b"
  de_notify :: "(string \<Rightarrow> 'b \<Rightarrow> unit res \<times> 'b) option"

section \<open>Responses\<close>

text \<open>
  The messages of a response, as the loops over \<open>Message::parse\<close> meet them: up to the first that is malformed or
  incomplete. A message takes at least a byte, so the length of the response is enough fuel.
\<close>

fun messages :: "(bytes \<Rightarrow> string + (backend_msg \<times> bytes) option) \<Rightarrow> nat \<Rightarrow> bytes \<Rightarrow> inbox" where
  "messages parse 0 buf = []"
| "messages parse (Suc k) buf =
     (case parse buf of
        Inl e \<Rightarrow> [Inl (Protocol e)]
      | Inr None \<Rightarrow> []
      | Inr (Some (m, rest)) \<Rightarrow> Inr m # messages parse k rest)"

definition response_msgs :: "'b db_env \<Rightarrow> bytes \<Rightarrow> inbox" where
  "response_msgs env response = messages (de_parse env) (length response) response"

fun process_msgs :: "(string \<Rightarrow> string) \<Rightarrow> inbox \<Rightarrow> ('b, 'k) db \<Rightarrow> unit res \<times> ('b, 'k) db" where
  "process_msgs lower [] s = (Inr (), s)"
| "process_msgs lower (Inl e # ms) s = (Inl e, s)"
| "process_msgs lower (Inr m # ms) s =
     (case m of
        ErrorResponse fs \<Rightarrow> (Inl (from_error_fields fs), s)
      | NotificationResponse (Inl e) _ \<Rightarrow> (Inl (Protocol e), s)
      | NotificationResponse (Inr channel) (Inl e) \<Rightarrow> (Inl (Protocol e), s)
      | NotificationResponse (Inr channel) (Inr payload) \<Rightarrow>
          process_msgs lower ms
            (s\<lparr>db_calls := db_calls s @ notify_calls lower (db_listeners s) channel payload\<rparr>)
      | _ \<Rightarrow> process_msgs lower ms s)"

definition process_response :: "'b db_env \<Rightarrow> bytes \<Rightarrow> (('b, 'k) db, unit) act" where
  "process_response env response = process_msgs (de_lower env) (response_msgs env response)"

text \<open>\<open>dispatch_notifications_to\<close> skips what it cannot read and goes on behind errors.\<close>

fun dispatch_msgs :: "(string \<Rightarrow> string) \<Rightarrow> inbox \<Rightarrow> ('b, 'k) db \<Rightarrow> ('b, 'k) db" where
  "dispatch_msgs lower [] s = s"
| "dispatch_msgs lower (Inl e # ms) s = s"
| "dispatch_msgs lower (Inr m # ms) s =
     (case m of
        NotificationResponse (Inr channel) (Inr payload) \<Rightarrow>
          dispatch_msgs lower ms
            (s\<lparr>db_calls := db_calls s @ notify_calls lower (db_listeners s) channel payload\<rparr>)
      | _ \<Rightarrow> dispatch_msgs lower ms s)"

definition dispatch_notifications_to :: "'b db_env \<Rightarrow> bytes \<Rightarrow> ('b, 'k) db \<Rightarrow> ('b, 'k) db" where
  "dispatch_notifications_to env response = dispatch_msgs (de_lower env) (response_msgs env response)"

fun has_msg :: "(backend_msg \<Rightarrow> bool) \<Rightarrow> inbox \<Rightarrow> bool res" where
  "has_msg P [] = Inr False"
| "has_msg P (Inl e # ms) = Inl e"
| "has_msg P (Inr m # ms) = (if P m then Inr True else has_msg P ms)"

definition has_message :: "'b db_env \<Rightarrow> bytes \<Rightarrow> (backend_msg \<Rightarrow> bool) \<Rightarrow> bool res" where
  "has_message env response P = has_msg P (response_msgs env response)"

fun copied_data :: "inbox \<Rightarrow> bytes \<Rightarrow> bytes res" where
  "copied_data [] out = Inr out"
| "copied_data (Inl e # ms) out = Inl e"
| "copied_data (Inr m # ms) out = (case m of CopyData d \<Rightarrow> copied_data ms (out @ d) | _ \<Rightarrow> copied_data ms out)"

section \<open>Statements\<close>

text \<open>\<open>frontend::query\<close> refuses a text with a NUL and one whose length is no \<open>i32\<close>.\<close>

definition frontend_query :: "string \<Rightarrow> bytes res" where
  "frontend_query sql =
     (if has_nul sql then Inl (Protocol ''string contains embedded null'')
      else if 2 ^ 31 \<le> 4 + length sql + 1 then Inl (Protocol ''value too large to transmit'')
      else Inr (query_wire sql))"

definition db_roundtrip :: "'b db_env \<Rightarrow> bytes \<Rightarrow> (('b, 'k) db, bytes) act" where
  "db_roundtrip env wire s = (case de_roundtrip env wire (db_backend s) of (r, b) \<Rightarrow> (r, s\<lparr>db_backend := b\<rparr>))"

definition exec_unlocked :: "'b db_env \<Rightarrow> string \<Rightarrow> (('b, 'k) db, unit) act" where
  "exec_unlocked env sql =
     bindA (liftA (frontend_query sql)) (\<lambda>wire. bindA (db_roundtrip env wire) (process_response env))"

definition notify_command :: "'b db_env \<Rightarrow> string \<Rightarrow> (('b, 'k) db, unit) act" where
  "notify_command env sql s =
     (case de_notify env of
        None \<Rightarrow> exec_unlocked env sql s
      | Some command \<Rightarrow> (case command sql (db_backend s) of (r, b) \<Rightarrow> (r, s\<lparr>db_backend := b\<rparr>)))"

definition is_copy_in :: "backend_msg \<Rightarrow> bool" where
  "is_copy_in m \<longleftrightarrow> m = CopyInResponse"

definition is_copy_out :: "backend_msg \<Rightarrow> bool" where
  "is_copy_out m \<longleftrightarrow> m = CopyOutResponse"

text \<open>\<open>copy_in\<close> sends the statement, one message with all the data and the end of the copy in one request.\<close>

definition copy_in_wire :: "bytes \<Rightarrow> bytes \<Rightarrow> bytes" where
  "copy_in_wire query data =
     query @ [bch CHR ''d''] @ be32 (of_nat (4 + length data)) @ data @ [bch CHR ''c''] @ be32 4"

definition copy_in :: "'b db_env \<Rightarrow> string \<Rightarrow> bytes \<Rightarrow> (('b, 'k) db, unit) act" where
  "copy_in env sql data =
     bindA (liftA (frontend_query sql)) (\<lambda>query.
     bindA (db_roundtrip env (copy_in_wire query data)) (\<lambda>response.
     bindA (process_response env response) (\<lambda>_.
     bindA (liftA (has_message env response is_copy_in)) (\<lambda>started.
       if started then retA () else failA (Protocol ''statement did not initiate COPY IN'')))))"

definition db_copy_out :: "'b db_env \<Rightarrow> string \<Rightarrow> (('b, 'k) db, bytes) act" where
  "db_copy_out env sql =
     bindA (liftA (frontend_query sql)) (\<lambda>query.
     bindA (db_roundtrip env query) (\<lambda>response.
     bindA (process_response env response) (\<lambda>_.
     bindA (liftA (has_message env response is_copy_out)) (\<lambda>started.
       if \<not> started then failA (Protocol ''statement did not initiate COPY OUT'')
       else liftA (copied_data (response_msgs env response) [])))))"

section \<open>Queries and rows\<close>

text \<open>
  \<open>'ty\<close> are the types of \<open>postgres_types\<close>, \<open>'v\<close> the parameters. The encoders of the extended protocol and the conversion of a
  parameter may refuse.
\<close>

record ('ty, 'v) frontend =
  fe_type_from_oid :: "u32 \<Rightarrow> 'ty option"
  fe_text :: 'ty
  fe_oid :: "'ty \<Rightarrow> u32"
  fe_parse :: "string \<Rightarrow> u32 list \<Rightarrow> string + bytes"
  fe_describe :: "string + bytes"
  fe_bind :: "('v \<times> 'ty) list \<Rightarrow> string + bytes"
  fe_execute :: "string + bytes"
  fe_sync :: bytes

record 'ty column =
  col_name :: string
  col_type :: 'ty

record 'ty db_row =
  row_columns :: "'ty column list"
  row_cells :: "string option list"

definition type_from_oid :: "('ty, 'v) frontend \<Rightarrow> u32 \<Rightarrow> 'ty" where
  "type_from_oid fe oid = (case fe_type_from_oid fe oid of Some t \<Rightarrow> t | None \<Rightarrow> fe_text fe)"

fun describe_msgs ::
  "('ty, 'v) frontend \<Rightarrow> inbox \<Rightarrow> 'ty list \<Rightarrow> 'ty column list \<Rightarrow> ('ty list \<times> 'ty column list) res" where
  "describe_msgs fe [] types cols = Inr (types, cols)"
| "describe_msgs fe (Inl e # ms) types cols = Inl e"
| "describe_msgs fe (Inr m # ms) types cols =
     (case m of
        ParameterDescription (Inl e) \<Rightarrow> Inl (Protocol e)
      | ParameterDescription (Inr oids) \<Rightarrow> describe_msgs fe ms (map (type_from_oid fe) oids) cols
      | RowDescription (Inl e) \<Rightarrow> Inl (Protocol e)
      | RowDescription (Inr fs) \<Rightarrow>
          describe_msgs fe ms types (map (\<lambda>(n, oid). \<lparr>col_name = n, col_type = type_from_oid fe oid\<rparr>) fs)
      | _ \<Rightarrow> describe_msgs fe ms types cols)"

definition parse_describe ::
  "'b db_env \<Rightarrow> ('ty, 'v) frontend \<Rightarrow> bytes \<Rightarrow> ('ty list \<times> 'ty column list) res" where
  "parse_describe env fe response = describe_msgs fe (response_msgs env response) [] []"

fun row_msgs :: "'ty column list \<Rightarrow> inbox \<Rightarrow> 'ty db_row list \<Rightarrow> 'ty db_row list res" where
  "row_msgs cols [] rows = Inr rows"
| "row_msgs cols (Inl e # ms) rows = Inl e"
| "row_msgs cols (Inr m # ms) rows =
     (case m of
        DataRow (Inl e) \<Rightarrow> Inl (Protocol e)
      | DataRow (Inr vals) \<Rightarrow> row_msgs cols ms (rows @ [\<lparr>row_columns = cols, row_cells = vals\<rparr>])
      | _ \<Rightarrow> row_msgs cols ms rows)"

text \<open>The encoders fail with a text that becomes a protocol error.\<close>

definition encoded :: "string + bytes \<Rightarrow> bytes res" where
  "encoded r = (case r of Inl e \<Rightarrow> Inl (Protocol e) | Inr w \<Rightarrow> Inr w)"

definition arity_error :: "nat \<Rightarrow> nat \<Rightarrow> error" where
  "arity_error takes given =
     Protocol (''statement takes '' @ show_nat takes @ '' parameters, '' @ show_nat given @ '' given'')"

definition describe_statement ::
  "'b db_env \<Rightarrow> ('ty, 'v) frontend \<Rightarrow> string \<Rightarrow> (('b, 'k) db, 'ty list \<times> 'ty column list) act" where
  "describe_statement env fe sql =
     bindA (liftA (encoded (fe_parse fe sql []))) (\<lambda>parse.
     bindA (liftA (encoded (fe_describe fe))) (\<lambda>describe.
     bindA (db_roundtrip env (parse @ describe @ fe_sync fe)) (\<lambda>response.
     bindA (process_response env response) (\<lambda>_.
       liftA (parse_describe env fe response)))))"

definition query_unlocked ::
  "'b db_env \<Rightarrow> ('ty, 'v) frontend \<Rightarrow> string \<Rightarrow> 'v list \<Rightarrow> (('b, 'k) db, 'ty db_row list) act" where
  "query_unlocked env fe sql params =
     bindA (describe_statement env fe sql) (\<lambda>(types, cols).
       if length types \<noteq> length params then failA (arity_error (length types) (length params))
       else
         bindA (liftA (encoded (fe_bind fe (zip params types)))) (\<lambda>bind.
         bindA (liftA (encoded (fe_execute fe))) (\<lambda>execute.
         bindA (db_roundtrip env (bind @ execute @ fe_sync fe)) (\<lambda>response.
         bindA (process_response env response) (\<lambda>_.
           liftA (row_msgs cols (response_msgs env response) []))))))"

definition query_with_types ::
  "'b db_env \<Rightarrow> ('ty, 'v) frontend \<Rightarrow> string \<Rightarrow> 'v list \<Rightarrow> 'ty list \<Rightarrow> (('b, 'k) db, 'ty db_row list) act" where
  "query_with_types env fe sql params types =
     bindA (liftA (encoded (fe_parse fe sql (map (fe_oid fe) types)))) (\<lambda>parse.
     bindA (liftA (encoded (fe_describe fe))) (\<lambda>describe.
     bindA (liftA (encoded (fe_bind fe (zip params types)))) (\<lambda>bind.
     bindA (liftA (encoded (fe_execute fe))) (\<lambda>execute.
     bindA (db_roundtrip env (parse @ describe @ bind @ execute @ fe_sync fe)) (\<lambda>response.
     bindA (process_response env response) (\<lambda>_.
     bindA (liftA (parse_describe env fe response)) (\<lambda>(_, cols).
       liftA (row_msgs cols (response_msgs env response) []))))))))"

text \<open>\<open>Row::get\<close> and \<open>Row::try_get\<close>; \<open>from_sql\<close> is the conversion of the value, or of NULL.\<close>

definition row_get :: "('ty \<Rightarrow> string option \<Rightarrow> string + 'a) \<Rightarrow> 'ty db_row \<Rightarrow> nat \<Rightarrow> 'a res" where
  "row_get from_sql row idx =
     (if length (row_columns row) \<le> idx \<or> length (row_cells row) \<le> idx
      then Inl (Protocol (''column index '' @ show_nat idx @ '' out of bounds''))
      else case from_sql (col_type (row_columns row ! idx)) (row_cells row ! idx) of
             Inl e \<Rightarrow> Inl (Protocol e)
           | Inr v \<Rightarrow> Inr v)"

definition column_position :: "string \<Rightarrow> 'ty column list \<Rightarrow> nat option" where
  "column_position name cols = List.find (\<lambda>i. col_name (cols ! i) = name) [0..<length cols]"

definition row_try_get :: "('ty \<Rightarrow> string option \<Rightarrow> string + 'a) \<Rightarrow> 'ty db_row \<Rightarrow> string \<Rightarrow> 'a res" where
  "row_try_get from_sql row name =
     (case column_position name (row_columns row) of
        None \<Rightarrow> Inl (Protocol (''no column named '' @ name))
      | Some idx \<Rightarrow> row_get from_sql row idx)"

text \<open>
  \<open>format_literals\<close>: every \<^verbatim>\<open>$n\<close> of the statement becomes \<^verbatim>\<open>%nL\<close> and the server formats it. \<open>as_value\<close> makes a parameter
  of the text, \<open>as_str\<close> reads the answer; the index \<open>rows[0]\<close> panics, which is \<open>None\<close>, when there is no row.
\<close>

definition is_digit :: "char \<Rightarrow> bool" where
  "is_digit c \<longleftrightarrow> digit_val 10 c \<noteq> None"

function sub_params :: "string \<Rightarrow> string" where
  "sub_params [] = []"
| "sub_params (c # cs) =
     (if c = CHR ''$'' \<and> cs \<noteq> [] \<and> is_digit (hd cs)
      then CHR ''%'' # takeWhile is_digit cs @ CHR ''L'' # sub_params (dropWhile is_digit cs)
      else c # sub_params cs)"
  by pat_completeness auto
termination
  by (relation "measure length") (auto simp: length_dropWhile_le less_Suc_eq_le)

definition format_select :: "nat \<Rightarrow> string" where
  "format_select n =
     ''SELECT format($1, '' @ join_str '', '' (map (\<lambda>i. ''$'' @ show_nat (i + 2)) [0..<n]) @ '')''"

definition format_literals ::
  "'b db_env \<Rightarrow> ('ty, 'v) frontend \<Rightarrow> (string \<Rightarrow> 'v) \<Rightarrow> ('ty \<Rightarrow> string option \<Rightarrow> string + string) \<Rightarrow>
     string \<Rightarrow> 'v list \<Rightarrow> (('b, 'k) db, string option) act" where
  "format_literals env fe as_value as_str sql params =
     (if params = [] then retA (Some sql)
      else
        bindA (describe_statement env fe sql) (\<lambda>(types, _).
          if length types \<noteq> length params then failA (arity_error (length types) (length params))
          else
            bindA (query_with_types env fe (format_select (length params)) (as_value (sub_params sql) # params)
                     (fe_text fe # types)) (\<lambda>rows.
              case rows of
                [] \<Rightarrow> retA None
              | row # _ \<Rightarrow> bindA (liftA (row_get as_str row 0)) (\<lambda>s. retA (Some s)))))"

section \<open>Listeners\<close>

definition listen_sql :: "string \<Rightarrow> string" where
  "listen_sql channel = ''LISTEN '' @ ident channel"

definition unlisten_sql :: "string \<Rightarrow> string" where
  "unlisten_sql channel = ''UNLISTEN '' @ ident channel"

definition add_listener :: "'k listener_map \<Rightarrow> string \<Rightarrow> u64 \<Rightarrow> 'k \<Rightarrow> 'k listener_map" where
  "add_listener m key token k =
     m(key := Some ((case m key of None \<Rightarrow> [] | Some es \<Rightarrow> es) @ [(token, k)]))"

definition listen :: "'b db_env \<Rightarrow> string \<Rightarrow> 'k \<Rightarrow> (('b, 'k) db, u64) act" where
  "listen env channel k s =
     bindA (notify_command env (listen_sql channel)) (\<lambda>_. retA (db_next s))
       (s\<lparr>db_next := db_next s + 1,
          db_listeners := add_listener (db_listeners s) (de_lower env channel) (db_next s) k\<rparr>)"

text \<open>The map without a token, and whether the key has no callback left.\<close>

definition drop_token :: "'k listener_map \<Rightarrow> string \<Rightarrow> u64 \<Rightarrow> 'k listener_map \<times> bool" where
  "drop_token m key token =
     (case m key of
        None \<Rightarrow> (m, False)
      | Some es \<Rightarrow>
          let es = filter (\<lambda>(t, _). t \<noteq> token) es
          in if es = [] then (m(key := None), True) else (m(key := Some es), False))"

definition unlisten_token :: "'b db_env \<Rightarrow> string \<Rightarrow> u64 \<Rightarrow> (('b, 'k) db, unit) act" where
  "unlisten_token env channel token s =
     (case drop_token (db_listeners s) (de_lower env channel) token of
        (m, gone) \<Rightarrow>
          if gone then notify_command env (unlisten_sql channel) (s\<lparr>db_listeners := m\<rparr>)
          else (Inr (), s\<lparr>db_listeners := m\<rparr>))"

definition unlisten :: "'b db_env \<Rightarrow> string \<Rightarrow> (('b, 'k) db, unit) act" where
  "unlisten env channel =
     bindA (notify_command env (unlisten_sql channel)) (\<lambda>_ s.
       (Inr (), s\<lparr>db_listeners := (db_listeners s)(de_lower env channel := None)\<rparr>))"

section \<open>Lemmas\<close>

subsection \<open>Responses\<close>

text \<open>What a response calls: the notifications before the first error or malformed message.\<close>

fun calm :: "backend_msg res \<Rightarrow> bool" where
  "calm (Inl e) = False"
| "calm (Inr (ErrorResponse fs)) = False"
| "calm (Inr (NotificationResponse (Inl e) p)) = False"
| "calm (Inr (NotificationResponse (Inr c) (Inl e))) = False"
| "calm (Inr m) = True"

fun msg_calls :: "(string \<Rightarrow> string) \<Rightarrow> 'k listener_map \<Rightarrow> backend_msg res \<Rightarrow> ('k \<times> string) list" where
  "msg_calls lower m (Inr (NotificationResponse (Inr c) (Inr p))) = notify_calls lower m c p"
| "msg_calls lower m _ = []"

fun first_error :: "inbox \<Rightarrow> error option" where
  "first_error [] = None"
| "first_error (Inl e # ms) = Some e"
| "first_error (Inr (ErrorResponse fs) # ms) = Some (from_error_fields fs)"
| "first_error (Inr (NotificationResponse (Inl e) p) # ms) = Some (Protocol e)"
| "first_error (Inr (NotificationResponse (Inr c) (Inl e)) # ms) = Some (Protocol e)"
| "first_error (Inr m # ms) = first_error ms"

lemma process_msgs_spec:
  "process_msgs lower ms s =
     (case first_error ms of None \<Rightarrow> Inr () | Some e \<Rightarrow> Inl e,
      s\<lparr>db_calls := db_calls s @ concat (map (msg_calls lower (db_listeners s)) (takeWhile calm ms))\<rparr>)"
proof (induction lower ms s rule: process_msgs.induct)
  case (3 lower m ms s)
  show ?case
  proof (cases m)
    case (NotificationResponse c p)
    then show ?thesis using 3 by (cases c; cases p) simp_all
  qed (use 3 in simp_all)
qed simp_all

text \<open>Everything before a parse error is dispatched, errors or not.\<close>

lemma dispatch_msgs_spec:
  "dispatch_msgs lower ms s =
     s\<lparr>db_calls := db_calls s @ concat (map (msg_calls lower (db_listeners s)) (takeWhile is_ok ms))\<rparr>"
proof (induction lower ms s rule: dispatch_msgs.induct)
  case (3 lower m ms s)
  show ?case
  proof (cases m)
    case (NotificationResponse c p)
    then show ?thesis using 3 by (cases c; cases p) simp_all
  qed (use 3 in simp_all)
qed simp_all

lemma first_error_calm: "first_error ms = None \<longleftrightarrow> list_all calm ms"
  by (induction ms rule: first_error.induct) simp_all

text \<open>
  C30. What a response does: it fails with its first error (or malformed message), and it calls the callbacks of exactly the
  notifications in front of that, in order. The dispatch of the socket gateway agrees when the response has no
  error; behind an error it goes on, where the statement functions drop the notifications that follow.
\<close>

theorem process_response_calls:
  "process_response env response s =
     (case first_error (response_msgs env response) of None \<Rightarrow> Inr () | Some e \<Rightarrow> Inl e,
      s\<lparr>db_calls := db_calls s @
          concat (map (msg_calls (de_lower env) (db_listeners s)) (takeWhile calm (response_msgs env response)))\<rparr>) \<and>
   db_calls (dispatch_notifications_to env response s) =
     db_calls (snd (process_response env response s)) @
       concat (map (msg_calls (de_lower env) (db_listeners s))
         (dropWhile calm (takeWhile is_ok (response_msgs env response))))"
proof -
  let ?ms = "response_msgs env response"
  have c: "calm m \<Longrightarrow> is_ok m" for m by (cases m) simp_all
  have t: "takeWhile calm (takeWhile is_ok ms) = takeWhile calm ms" for ms
    by (induction ms) (auto dest: c)
  have "takeWhile is_ok ?ms = takeWhile calm ?ms @ dropWhile calm (takeWhile is_ok ?ms)"
    using takeWhile_dropWhile_id [of calm "takeWhile is_ok ?ms"] by (simp add: t)
  then have "concat (map f (takeWhile is_ok ?ms)) =
      concat (map f (takeWhile calm ?ms)) @ concat (map f (dropWhile calm (takeWhile is_ok ?ms)))" for f :: "_ \<Rightarrow> _ list"
    by (metis concat_append map_append)
  then show ?thesis
    by (simp add: process_response_def process_msgs_spec dispatch_notifications_to_def dispatch_msgs_spec)
qed

subsection \<open>Listeners\<close>

datatype 'k listen_op = OpListen string 'k | OpUnlistenToken string u64 | OpUnlisten string

fun op_channel :: "'k listen_op \<Rightarrow> string" where
  "op_channel (OpListen channel k) = channel"
| "op_channel (OpUnlistenToken channel token) = channel"
| "op_channel (OpUnlisten channel) = channel"

definition listen_step :: "'b db_env \<Rightarrow> 'k listen_op \<Rightarrow> (('b, 'k) db, unit) act" where
  "listen_step env op =
     (case op of
        OpListen channel k \<Rightarrow> bindA (listen env channel k) (\<lambda>_. retA ())
      | OpUnlistenToken channel token \<Rightarrow> unlisten_token env channel token
      | OpUnlisten channel \<Rightarrow> unlisten env channel)"

fun listen_run :: "'b db_env \<Rightarrow> 'k listen_op list \<Rightarrow> ('b, 'k) db \<Rightarrow> unit res list \<times> ('b, 'k) db" where
  "listen_run env [] s = ([], s)"
| "listen_run env (op # ops) s =
     (case listen_step env op s of (r, s) \<Rightarrow> map_prod (Cons r) id (listen_run env ops s))"

definition fresh_db :: "'b \<Rightarrow> ('b, 'k) db" where
  "fresh_db b = \<lparr>db_backend = b, db_listeners = (\<lambda>_. None), db_next = 0, db_calls = []\<rparr>"

lemma db_roundtrip_keeps:
  "db_roundtrip env wire s = (r, s') \<Longrightarrow> db_listeners s' = db_listeners s \<and> db_next s' = db_next s"
  by (auto simp: db_roundtrip_def split: prod.splits)

lemma process_response_keeps:
  "process_response env resp s = (r, s') \<Longrightarrow> db_listeners s' = db_listeners s \<and> db_next s' = db_next s"
  by (auto simp: process_response_def process_msgs_spec)

lemma exec_keeps:
  "exec_unlocked env sql s = (r, s') \<Longrightarrow> db_listeners s' = db_listeners s \<and> db_next s' = db_next s"
  by (auto simp: exec_unlocked_def bindA_apply split: sum.splits prod.splits
      dest!: db_roundtrip_keeps process_response_keeps)

lemma notify_command_keeps:
  "notify_command env sql s = (r, s') \<Longrightarrow> db_listeners s' = db_listeners s \<and> db_next s' = db_next s"
  by (auto simp: notify_command_def split: option.splits prod.splits dest: exec_keeps)

text \<open>What one operation does to the map and to the counter.\<close>

lemma listen_step_effect:
  assumes "listen_step env op s = (r, s')"
  shows "case op of
      OpListen channel k \<Rightarrow> db_next s' = db_next s + 1 \<and>
        db_listeners s' = add_listener (db_listeners s) (de_lower env channel) (db_next s) k
    | OpUnlistenToken channel token \<Rightarrow> db_next s' = db_next s \<and>
        db_listeners s' = fst (drop_token (db_listeners s) (de_lower env channel) token)
    | OpUnlisten channel \<Rightarrow> db_next s' = db_next s \<and>
        db_listeners s' = (if is_ok r then (db_listeners s)(de_lower env channel := None) else db_listeners s)"
proof (cases op)
  case (OpListen channel k)
  then show ?thesis
    using assms
    by (auto simp: listen_step_def listen_def bindA_apply split: sum.splits prod.splits dest!: notify_command_keeps)
next
  case (OpUnlistenToken channel token)
  then show ?thesis
    using assms
    by (auto simp: listen_step_def unlisten_token_def split: prod.splits if_splits dest!: notify_command_keeps)
next
  case (OpUnlisten channel)
  then show ?thesis
    using assms
    by (auto simp: listen_step_def unlisten_def bindA_apply split: sum.splits prod.splits dest!: notify_command_keeps)
qed

text \<open>The invariant: no empty entry, and every token is in one place and below the counter.\<close>

definition map_tokens :: "'k listener_map \<Rightarrow> string \<Rightarrow> u64 list" where
  "map_tokens m key = (case m key of None \<Rightarrow> [] | Some es \<Rightarrow> map fst es)"

definition listeners_ok :: "nat \<Rightarrow> 'k listener_map \<Rightarrow> bool" where
  "listeners_ok n m \<longleftrightarrow>
     (\<forall>key. m key \<noteq> Some []) \<and>
     (\<forall>key. distinct (map_tokens m key) \<and> (\<forall>t \<in> set (map_tokens m key). unat t < n)) \<and>
     (\<forall>key key'. key \<noteq> key' \<longrightarrow> set (map_tokens m key) \<inter> set (map_tokens m key') = {})"

lemma map_tokens_add:
  "map_tokens (add_listener m key token k) key' = (if key' = key then map_tokens m key @ [token] else map_tokens m key')"
  by (simp add: map_tokens_def add_listener_def split: option.splits)

lemma map_tokens_drop:
  "map_tokens (fst (drop_token m key token)) key' =
     (if key' = key then filter (\<lambda>t. t \<noteq> token) (map_tokens m key) else map_tokens m key')"
proof -
  have "filter (\<lambda>t. t \<noteq> token) (map fst es) = map fst (filter (\<lambda>(t, _). t \<noteq> token) es)" for es :: "(u64 \<times> 'a) list"
    by (induction es) auto
  then show ?thesis
    by (auto simp: map_tokens_def drop_token_def Let_def split: option.splits if_splits)
qed

lemma listeners_ok_sub:
  assumes "listeners_ok n m" and "\<forall>key. m' key \<noteq> Some []"
    and "\<And>key. \<exists>P. map_tokens m' key = filter P (map_tokens m key)"
  shows "listeners_ok n m'"
proof -
  have sub: "set (map_tokens m' key) \<subseteq> set (map_tokens m key)" "distinct (map_tokens m' key)" for key
    using assms(3) [of key] assms(1) by (auto simp: listeners_ok_def)
  show ?thesis
    using assms(1,2) sub unfolding listeners_ok_def by (meson disjoint_iff subsetD)
qed

lemma listeners_ok_add:
  assumes "listeners_ok n m" and "unat token = n"
  shows "listeners_ok (Suc n) (add_listener m key token k)"
proof -
  have new: "token \<notin> set (map_tokens m key')" for key'
    using assms by (auto simp: listeners_ok_def)
  have "add_listener m key token k key' \<noteq> Some []" for key'
    using assms(1) by (auto simp: add_listener_def listeners_ok_def)
  then show ?thesis
    using assms new by (auto simp: listeners_ok_def map_tokens_add less_SucI disjoint_iff)
qed

lemma step_listeners_ok:
  assumes "listen_step env op s = (r, s')" and "listeners_ok n (db_listeners s)" and "db_next s = of_nat n"
    and "n < 2 ^ 64"
  shows "\<exists>n' \<le> Suc n. listeners_ok n' (db_listeners s') \<and> db_next s' = of_nat n'"
proof -
  note e = listen_step_effect [OF assms(1)]
  show ?thesis
  proof (cases op)
    case (OpListen channel k)
    have "unat (db_next s) = n" using assms(3,4) by (simp add: unat_of_nat)
    then show ?thesis
      using e OpListen listeners_ok_add [OF assms(2)] assms(3) by (intro exI [of _ "Suc n"]) simp
  next
    case (OpUnlistenToken channel token)
    have "fst (drop_token (db_listeners s) (de_lower env channel) token) key \<noteq> Some []" for key
      using assms(2) by (auto simp: drop_token_def Let_def listeners_ok_def split: option.splits)
    then have "listeners_ok n (fst (drop_token (db_listeners s) (de_lower env channel) token))"
      by (intro listeners_ok_sub [OF assms(2)]) (auto simp: map_tokens_drop intro: exI [of _ "\<lambda>_. True"])
    then show ?thesis using e OpUnlistenToken assms(3) by (intro exI [of _ n]) simp
  next
    case (OpUnlisten channel)
    have "listeners_ok n ((db_listeners s)(de_lower env channel := None))"
      by (rule listeners_ok_sub [OF assms(2)])
        (use assms(2) in \<open>auto simp: map_tokens_def listeners_ok_def intro: exI [of _ "\<lambda>_. True"] exI [of _ "\<lambda>_. False"]\<close>)
    then show ?thesis using e OpUnlisten assms(2,3) by (intro exI [of _ n]) auto
  qed
qed

lemma run_listeners_ok:
  assumes "listen_run env ops s = (rs, s')" and "listeners_ok n (db_listeners s)" and "db_next s = of_nat n"
    and "n + length ops < 2 ^ 64"
  shows "\<exists>n'. listeners_ok n' (db_listeners s') \<and> n' < 2 ^ 64"
  using assms
proof (induction ops arbitrary: s n rs)
  case (Cons op ops)
  obtain r s1 where st: "listen_step env op s = (r, s1)" by fastforce
  obtain rs1 where r1: "listen_run env ops s1 = (rs1, s')"
    using Cons.prems(1) st by (cases "listen_run env ops s1") auto
  obtain n1 where n1: "n1 \<le> Suc n" "listeners_ok n1 (db_listeners s1)" "db_next s1 = of_nat n1"
    using step_listeners_ok [OF st Cons.prems(2,3)] Cons.prems(4) by auto
  show ?case using Cons.IH [OF r1 n1(2,3)] n1(1) Cons.prems(4) by simp
qed (auto intro: exI [of _ n])

text \<open>
  What the code relies on in the server: a LISTEN or UNLISTEN that succeeds adds or removes the channel, and every other
  LISTEN or UNLISTEN that fails leaves the channels as they were. \<open>subs\<close> are the channels the session listens on.
\<close>

definition server_listens :: "'b db_env \<Rightarrow> ('b \<Rightarrow> string set) \<Rightarrow> 'k itself \<Rightarrow> bool" where
  "server_listens env subs k \<longleftrightarrow>
     (\<forall>channel (s :: ('b, 'k) db) r s'.
        (notify_command env (listen_sql channel) s = (r, s') \<longrightarrow>
           subs (db_backend s') = (if is_ok r then insert channel (subs (db_backend s)) else subs (db_backend s))) \<and>
        (notify_command env (unlisten_sql channel) s = (r, s') \<longrightarrow>
           subs (db_backend s') = (if is_ok r then subs (db_backend s) - {channel} else subs (db_backend s))))"

lemma listen_step_server:
  fixes s :: "('b, 'k) db"
  assumes "server_listens env subs TYPE('k)" and "listen_step env op s = (Inr (), s')"
    and "de_lower env (op_channel op) = op_channel op" and "\<forall>key. db_listeners s key \<noteq> Some []"
    and "dom (db_listeners s) = subs (db_backend s)"
  shows "dom (db_listeners s') = subs (db_backend s')"
proof (cases op)
  case (OpListen channel k)
  let ?s = "s\<lparr>db_next := db_next s + 1, db_listeners := add_listener (db_listeners s) (de_lower env channel) (db_next s) k\<rparr>"
  obtain u s1 where c: "notify_command env (listen_sql channel) ?s = (Inr u, s1)" "s' = s1"
    using assms(2) OpListen by (auto simp: listen_step_def listen_def bindA_apply split: sum.splits prod.splits)
  have "dom (db_listeners s') = insert channel (dom (db_listeners s))"
    using notify_command_keeps [OF c(1)] c(2) assms(3) OpListen by (auto simp: add_listener_def)
  moreover have "subs (db_backend s1) = insert channel (subs (db_backend s))"
    using assms(1) [unfolded server_listens_def, rule_format, of channel ?s "Inr u" s1] c(1) by simp
  ultimately show ?thesis using assms(5) c(2) by simp
next
  case (OpUnlistenToken channel token)
  obtain m gone where d: "drop_token (db_listeners s) (de_lower env channel) token = (m, gone)" by fastforce
  show ?thesis
  proof (cases gone)
    case True
    obtain u s1 where c: "notify_command env (unlisten_sql channel) (s\<lparr>db_listeners := m\<rparr>) = (Inr u, s1)" "s' = s1"
      using assms(2) OpUnlistenToken d True by (auto simp: listen_step_def unlisten_token_def)
    have "dom m = dom (db_listeners s) - {channel}"
      using d True assms(3) OpUnlistenToken by (auto simp: drop_token_def Let_def split: option.splits if_splits)
    moreover have "subs (db_backend s1) = subs (db_backend s) - {channel}"
      using assms(1) [unfolded server_listens_def, rule_format, of channel "s\<lparr>db_listeners := m\<rparr>" "Inr u" s1] c(1) by simp
    ultimately show ?thesis using notify_command_keeps [OF c(1)] c(2) assms(5) by simp
  next
    case False
    then have s': "s' = s\<lparr>db_listeners := m\<rparr>" using assms(2) OpUnlistenToken d by (simp add: listen_step_def unlisten_token_def)
    have "dom m = dom (db_listeners s)"
      using d False by (auto simp: drop_token_def Let_def split: option.splits if_splits)
    then show ?thesis using s' assms(5) by simp
  qed
next
  case (OpUnlisten channel)
  obtain u s1 where c: "notify_command env (unlisten_sql channel) s = (Inr u, s1)"
      "s' = s1\<lparr>db_listeners := (db_listeners s1)(de_lower env channel := None)\<rparr>"
    using assms(2) OpUnlisten by (auto simp: listen_step_def unlisten_def bindA_apply split: sum.splits prod.splits)
  have "subs (db_backend s1) = subs (db_backend s) - {channel}"
    using assms(1) [unfolded server_listens_def, rule_format, of channel s "Inr u" s1] c(1) by simp
  then show ?thesis using notify_command_keeps [OF c(1)] c(2) assms(3,5) OpUnlisten by auto
qed

lemma listen_run_server:
  fixes s :: "('b, 'k) db"
  assumes "server_listens env subs TYPE('k)" and "listen_run env ops s = (rs, s')" and "\<forall>r \<in> set rs. is_ok r"
    and "\<forall>op \<in> set ops. de_lower env (op_channel op) = op_channel op"
    and "listeners_ok n (db_listeners s)" and "db_next s = of_nat n" and "n + length ops < 2 ^ 64"
    and "dom (db_listeners s) = subs (db_backend s)"
  shows "dom (db_listeners s') = subs (db_backend s')"
  using assms(2-)
proof (induction ops arbitrary: s n rs)
  case (Cons op ops)
  obtain r s1 where st: "listen_step env op s = (r, s1)" by fastforce
  obtain rs1 where r1: "listen_run env ops s1 = (rs1, s')" "rs = r # rs1"
    using Cons.prems(1) st by (cases "listen_run env ops s1") auto
  obtain n1 where n1: "n1 \<le> Suc n" "listeners_ok n1 (db_listeners s1)" "db_next s1 = of_nat n1"
    using step_listeners_ok [OF st Cons.prems(4,5)] Cons.prems(6) by auto
  have "r = Inr ()" using Cons.prems(2) r1(2) by (auto simp: is_ok_iff)
  then have "dom (db_listeners s1) = subs (db_backend s1)"
    using listen_step_server [OF assms(1), of op s s1] st Cons.prems(3,4,7) by (simp add: listeners_ok_def)
  then show ?case using Cons.IH [OF r1(1) _ _ n1(2,3)] Cons.prems(2,3,6) n1(1) r1(2) by simp
qed simp

lemma fresh_listeners_ok: "listeners_ok 0 (db_listeners (fresh_db b))"
  by (simp add: listeners_ok_def fresh_db_def map_tokens_def)


text \<open>A server as the hypothesis describes it: it keeps the quoted names and refuses what is neither command.\<close>

definition demo_command :: "string \<Rightarrow> string set \<Rightarrow> unit res \<times> string set" where
  "demo_command sql b =
     (if take 7 sql = ''LISTEN '' then (Inr (), insert (drop 7 sql) b)
      else if take 9 sql = ''UNLISTEN '' then (Inr (), b - {drop 9 sql})
      else (Inl Closed, b))"

definition demo_env :: "string set db_env" where
  "demo_env = \<lparr>de_parse = (\<lambda>_. Inr None), de_lower = (\<lambda>ch. ch), de_roundtrip = (\<lambda>_ b. (Inr [], b)),
     de_notify = Some demo_command\<rparr>"

lemma demo_listens: "server_listens demo_env (\<lambda>b. {ch. ident ch \<in> b}) k"
proof -
  have i: "ident a = ident b \<longleftrightarrow> a = b" for a b by (rule ident_inj)
  show ?thesis
    by (auto simp: server_listens_def notify_command_def demo_env_def demo_command_def listen_sql_def unlisten_sql_def i)
qed


subsection \<open>COPY\<close>

lemma reader_frame:
  assumes "body_ok b"
  shows "reader_frames (frame t b @ rest) = frame t b # reader_frames rest"
proof -
  have "read_exact True 5 (frame t b @ rest) = Some (Inr (frame_header t b), b @ rest)"
    "read_exact True (length b) (b @ rest) = Some (Inr b, rest)"
    by (simp_all add: read_exact_def frame_def)
  then show ?thesis
    using frame_len_ok [OF assms, of t] by (simp add: reader_frames.simps [of "frame_header t b @ b @ rest"] frame_def)
qed

lemma query_wire_frame:
  assumes "frontend_query sql = Inr q"
  shows "q = frame (bch CHR ''Q'') (bytes_of sql @ [0])" and "body_ok (bytes_of sql @ [0])"
  using assms by (auto simp: frontend_query_def query_wire_def frame_def frame_header_def body_ok_def split: if_splits)

text \<open>
  The request of \<open>copy_in\<close> reads as three messages: the statement, one message with exactly the data and the end of the
  copy; the statement's text is refused when it could not be read back. The length of the data has to fit the
  32-bit field of its message: with more, the field wraps around and announces fewer bytes than follow.
\<close>

theorem copy_in_framing:
  assumes "frontend_query sql = Inr q"
  shows "(body_ok data \<longrightarrow> reader_frames (copy_in_wire q data) =
      [frame (bch CHR ''Q'') (bytes_of sql @ [0]), frame (bch CHR ''d'') data, frame (bch CHR ''c'') []]) \<and>
    frame_len (take 5 (drop (length q) (copy_in_wire q data))) = (4 + length data) mod 2 ^ 32 - 4"
proof -
  have e: "copy_in_wire q data = q @ frame (bch CHR ''d'') data @ frame (bch CHR ''c'') []"
    by (simp add: copy_in_wire_def frame_def frame_header_def)
  have "body_ok []" by (simp add: body_ok_def)
  then have c: "reader_frames (frame (bch CHR ''c'') []) = [frame (bch CHR ''c'') []]"
    using reader_frame [of "[]" "bch CHR ''c''" "[]"] by (simp add: reader_frames.simps [of "[]"] read_exact_def)
  have three: "reader_frames (copy_in_wire q data) =
      [frame (bch CHR ''Q'') (bytes_of sql @ [0]), frame (bch CHR ''d'') data, frame (bch CHR ''c'') []]" if "body_ok data"
    unfolding e unfolding query_wire_frame(1) [OF assms] reader_frame [OF query_wire_frame(2) [OF assms]] reader_frame [OF that] c
    by (rule refl)
  have h: "take 5 (drop (length q) (copy_in_wire q data)) = frame_header (bch CHR ''d'') data"
    by (simp add: e frame_def)
  have "frame_len (frame_header (bch CHR ''d'') data) = (4 + length data) mod 2 ^ 32 - 4"
    unfolding frame_len_def frame_header_def
    by (simp only: drop_Suc_Cons drop_0 One_nat_def from_be_be unat_of_nat) simp
  then have "frame_len (take 5 (drop (length q) (copy_in_wire q data))) = (4 + length data) mod 2 ^ 32 - 4"
    unfolding h .
  then show ?thesis using three by blast
qed

theorem copy_in_framing_witness:
  "reader_frames (copy_in_wire (query_wire ''COPY t FROM STDIN'') [49, 10]) =
     [frame (bch CHR ''Q'') (bytes_of ''COPY t FROM STDIN'' @ [0]), frame (bch CHR ''d'') [49, 10], frame (bch CHR ''c'') []]"
proof -
  have "frontend_query ''COPY t FROM STDIN'' = Inr (query_wire ''COPY t FROM STDIN'')"
    by (simp add: frontend_query_def has_nul_def)
  then show ?thesis using copy_in_framing [of "''COPY t FROM STDIN''" _ "[49, 10]"] by (simp add: body_ok_def)
qed

end
