(* ===== verification/Session.thy ===== *)
theory Session
  imports Pool Db
begin

text \<open>
  How sessions are shared. In one process there is one backend behind the lock \<open>tx_lock\<close>: transactions
  (\<^verbatim>\<open>transaction.rs\<close>), single statements and the batches of the socket gateway as interleavings of the tasks'
  steps. In the multi-process mode each request goes through the pool: a query is two requests. And the
  two flags that let a process boot one engine (\<open>open_inner\<close>).
\<close>

section \<open>Transactions on the one backend\<close>

datatype statement = Begin | Plain nat | Commit | Rollback

text \<open>
  Where a task is: outside, in a statement or a batch under the lock, with the lock before BEGIN is sent, waiting for its
  reply, in the transaction, waiting for the reply of COMMIT or ROLLBACK.
\<close>

datatype client = Out | Single | Locked | Beginning | InTx | Ending

text \<open>\<open>ts_log\<close> is the queue of the engine, which executes in order: who sent which statement.\<close>

record tx_state =
  ts_lock :: "nat option"
  ts_client :: "nat \<Rightarrow> client"
  ts_log :: "(nat \<times> statement) list"

datatype tx_event =
    SingleStart nat
  | SingleSend nat statement
  | SingleEnd nat
  | TxLock nat
  | TxSendBegin nat
  | TxBegun nat
  | TxStmt nat nat
  | TxFinish nat statement
  | TxEnd nat
  | TxDrop nat
  | TxAbandon nat

definition goes :: "nat \<Rightarrow> client \<Rightarrow> tx_state \<Rightarrow> tx_state" where
  "goes t c s = s\<lparr>ts_client := (ts_client s)(t := c)\<rparr>"

definition sends :: "nat \<Rightarrow> statement \<Rightarrow> tx_state \<Rightarrow> tx_state" where
  "sends t q s = s\<lparr>ts_log := ts_log s @ [(t, q)]\<rparr>"

text \<open>
  Each event at its program point. \<open>TxDrop\<close> is the \<open>Drop\<close> of a transaction that was not finished: ROLLBACK is queued, then the
  guard is dropped. \<open>TxAbandon\<close> is the future of \<open>begin\<close> dropped while it waits: no transaction was made yet, so
  nothing is queued and the guard is dropped.
\<close>

fun tx_step :: "tx_event \<Rightarrow> tx_state \<Rightarrow> tx_state option" where
  "tx_step (SingleStart t) s =
     (if ts_client s t = Out \<and> ts_lock s = None then Some (goes t Single (s\<lparr>ts_lock := Some t\<rparr>)) else None)"
| "tx_step (SingleSend t q) s = (if ts_client s t = Single then Some (sends t q s) else None)"
| "tx_step (SingleEnd t) s =
     (if ts_client s t = Single then Some (goes t Out (s\<lparr>ts_lock := None\<rparr>)) else None)"
| "tx_step (TxLock t) s =
     (if ts_client s t = Out \<and> ts_lock s = None then Some (goes t Locked (s\<lparr>ts_lock := Some t\<rparr>)) else None)"
| "tx_step (TxSendBegin t) s =
     (if ts_client s t = Locked then Some (goes t Beginning (sends t Begin s)) else None)"
| "tx_step (TxBegun t) s = (if ts_client s t = Beginning then Some (goes t InTx s) else None)"
| "tx_step (TxStmt t n) s = (if ts_client s t = InTx then Some (sends t (Plain n) s) else None)"
| "tx_step (TxFinish t q) s =
     (if ts_client s t = InTx \<and> (q = Commit \<or> q = Rollback) then Some (goes t Ending (sends t q s)) else None)"
| "tx_step (TxEnd t) s =
     (if ts_client s t = Ending then Some (goes t Out (s\<lparr>ts_lock := None\<rparr>)) else None)"
| "tx_step (TxDrop t) s =
     (if ts_client s t = InTx then Some (goes t Out (sends t Rollback (s\<lparr>ts_lock := None\<rparr>))) else None)"
| "tx_step (TxAbandon t) s =
     (if ts_client s t = Locked \<or> ts_client s t = Beginning
      then Some (goes t Out (s\<lparr>ts_lock := None\<rparr>)) else None)"

definition tx_start :: tx_state where
  "tx_start = \<lparr>ts_lock = None, ts_client = (\<lambda>_. Out), ts_log = []\<rparr>"

abbreviation tx_run :: "tx_event list \<Rightarrow> tx_state \<Rightarrow> tx_state option" where
  "tx_run \<equiv> run_steps tx_step"

text \<open>Whose transaction the engine is in after a log, and the statements that ran in another's.\<close>

fun tx_owner_step :: "nat option \<Rightarrow> nat \<times> statement \<Rightarrow> nat option" where
  "tx_owner_step owner (t, Begin) = (case owner of None \<Rightarrow> Some t | Some u \<Rightarrow> Some u)"
| "tx_owner_step owner (t, Plain n) = owner"
| "tx_owner_step owner (t, Commit) = None"
| "tx_owner_step owner (t, Rollback) = None"

definition tx_owner :: "(nat \<times> statement) list \<Rightarrow> nat option" where
  "tx_owner log = foldl tx_owner_step None log"

definition isolated :: "(nat \<times> statement) list \<Rightarrow> bool" where
  "isolated log \<longleftrightarrow>
     (\<forall>k < length log. \<forall>t. tx_owner (take k log) = Some t \<longrightarrow> fst (log ! k) = t)"

text \<open>
  Events the library makes when no future of \<open>begin\<close> is dropped after BEGIN was sent and single statements do not
  open or close a transaction.
\<close>

fun orderly :: "tx_event \<Rightarrow> bool" where
  "orderly (SingleSend t (Plain n)) = True"
| "orderly (SingleSend t q) = False"
| "orderly (TxAbandon t) = False"
| "orderly ev = True"

section \<open>Lemmas on transactions\<close>

definition tx_ok :: "tx_state \<Rightarrow> bool" where
  "tx_ok s \<longleftrightarrow>
     (\<forall>t. ts_client s t \<noteq> Out \<longleftrightarrow> ts_lock s = Some t) \<and>
     (\<forall>t. tx_owner (ts_log s) = Some t \<longleftrightarrow> ts_client s t \<in> {Beginning, InTx}) \<and> isolated (ts_log s)"

lemma tx_owner_snoc: "tx_owner (log @ [e]) = tx_owner_step (tx_owner log) e"
  by (simp add: tx_owner_def)

lemma isolated_snoc:
  "isolated (log @ [(t, q)]) \<longleftrightarrow> isolated log \<and> (\<forall>u. tx_owner log = Some u \<longrightarrow> t = u)"
  by (auto simp: isolated_def nth_append less_Suc_eq)

lemma tx_step_ok:
  assumes "tx_ok s" and "tx_step ev s = Some s'" and "orderly ev"
  shows "tx_ok s'"
proof -
  have lock: "ts_lock s = Some t" if "ts_client s t \<noteq> Out" for t using assms(1) that by (simp add: tx_ok_def)
  have none: "tx_owner (ts_log s) = None" if "\<forall>t. ts_client s t \<notin> {Beginning, InTx}"
    using assms(1) that by (metis tx_ok_def option.exhaust)
  have only: "ts_client s u = Out" if "ts_client s t \<noteq> Out" "u \<noteq> t" for t u
    using lock [OF that(1)] lock [of u] that(2) by auto
  note ok = assms(1) [unfolded tx_ok_def]
  show ?thesis
  proof (cases ev)
    case (SingleStart t)
    then show ?thesis using assms ok by (auto simp: tx_ok_def goes_def split: if_splits)
  next
    case (SingleSend t q)
    then have c: "ts_client s t = Single" "s' = sends t q s" using assms(2) by (auto split: if_splits)
    have "ts_client s u \<notin> {Beginning, InTx}" for u using only [of t u] c(1) by (cases "u = t") auto
    then show ?thesis
      using ok c none assms(3) SingleSend
      by (cases q) (auto simp: tx_ok_def sends_def isolated_snoc tx_owner_snoc)
  next
    case (SingleEnd t)
    then show ?thesis using assms ok only by (auto simp: tx_ok_def goes_def split: if_splits)
  next
    case (TxLock t)
    then show ?thesis using assms ok by (auto simp: tx_ok_def goes_def split: if_splits)
  next
    case (TxSendBegin t)
    then have c: "ts_client s t = Locked" "s' = goes t Beginning (sends t Begin s)" using assms(2) by (auto split: if_splits)
    have "ts_client s u \<notin> {Beginning, InTx}" for u using only [of t u] c(1) by (cases "u = t") auto
    then show ?thesis
      using ok c none only [of t]
      by (auto simp: tx_ok_def goes_def sends_def isolated_snoc tx_owner_snoc)
  next
    case (TxBegun t)
    then show ?thesis using assms ok by (auto simp: tx_ok_def goes_def split: if_splits)
  next
    case (TxStmt t n)
    then have c: "ts_client s t = InTx" "s' = sends t (Plain n) s" using assms(2) by (auto split: if_splits)
    have "u = t" if "ts_client s u \<noteq> Out" for u using only [of t u] c(1) that by auto
    then show ?thesis using ok c by (fastforce simp: tx_ok_def sends_def isolated_snoc tx_owner_snoc)
  next
    case (TxFinish t q)
    then have c: "ts_client s t = InTx" "s' = goes t Ending (sends t q s)" "q = Commit \<or> q = Rollback"
      using assms(2) by (auto split: if_splits)
    have "u = t" if "ts_client s u \<noteq> Out" for u using only [of t u] c(1) that by auto
    then show ?thesis
      using ok c by (fastforce simp: tx_ok_def goes_def sends_def isolated_snoc tx_owner_snoc)
  next
    case (TxEnd t)
    then show ?thesis using assms ok only by (auto simp: tx_ok_def goes_def split: if_splits)
  next
    case (TxDrop t)
    then have c: "ts_client s t = InTx" "s' = goes t Out (sends t Rollback (s\<lparr>ts_lock := None\<rparr>))"
      using assms(2) by (auto split: if_splits)
    have "u = t" if "ts_client s u \<noteq> Out" for u using only [of t u] c(1) that by auto
    then show ?thesis
      using ok c by (fastforce simp: tx_ok_def goes_def sends_def isolated_snoc tx_owner_snoc)
  qed (use assms(3) in simp)
qed

interpretation tx: machine tx_step orderly tx_ok
  by unfold_locales (rule tx_step_ok)

lemma tx_start_ok: "tx_ok tx_start"
  by (simp add: tx_ok_def tx_start_def tx_owner_def isolated_def)


definition demo_txs :: "tx_event list" where
  "demo_txs = [TxLock 0, TxSendBegin 0, TxBegun 0, TxStmt 0 1, TxDrop 0, SingleStart 1, SingleSend 1 (Plain 2),
     SingleEnd 1, TxLock 2, TxSendBegin 2]"


text \<open>
  The two ways out of the isolation: a future of \<open>begin\<close> that is dropped after it sent BEGIN leaves the engine in a
  transaction that nobody owns, and a gateway client that sends BEGIN in a batch keeps it open when the batch's lock is
  released; in both the next statement of another task runs inside that transaction.
\<close>

theorem transaction_leaks:
  "(\<exists>s. tx_run [TxLock 0, TxSendBegin 0, TxAbandon 0, SingleStart 1, SingleSend 1 (Plain 5), SingleEnd 1] tx_start = Some s \<and>
      ts_lock s = None \<and> tx_owner (ts_log s) = Some 0 \<and> \<not> isolated (ts_log s)) \<and>
   (\<exists>s. tx_run [SingleStart 7, SingleSend 7 Begin, SingleEnd 7, SingleStart 1, SingleSend 1 (Plain 5), SingleEnd 1] tx_start = Some s \<and>
      ts_lock s = None \<and> tx_owner (ts_log s) = Some 7 \<and> \<not> isolated (ts_log s))"
proof -
  have "\<not> isolated [(t, Begin), (1, Plain 5)]" if "t \<noteq> 1" for t
  proof
    assume "isolated [(t, Begin), (1, Plain 5)]"
    from this [unfolded isolated_def, rule_format, of 1 t] show False using that by (simp add: tx_owner_def)
  qed
  then show ?thesis by (simp add: tx_start_def goes_def sends_def tx_owner_def)
qed

section \<open>Queries through the pool\<close>

text \<open>
  A query is two requests: one parses and describes the statement as the unnamed statement of the session, the other
  binds and executes it. \<open>PGlite::query\<close> sends each through \<open>Pool::roundtrip\<close>, which takes a connection and gives it
  back; a transaction sends both on its pinned connection. \<open>ps_stmt\<close> is the unnamed statement of each
  connection, \<open>ps_log\<close> who executed what. \<open>Heal\<close> is the reconnect of a worker after an IO error: the session is new.
\<close>

record pooled =
  ps_pool :: pool
  ps_stmt :: "nat \<Rightarrow> string option"
  ps_log :: "(nat \<times> string option) list"

datatype session_event = PoolEv event | SendParse nat string | SendBind nat | Heal nat

definition held_by :: "pooled \<Rightarrow> nat \<Rightarrow> nat option" where
  "held_by s t = (case task_at (ps_pool s) t of Some (Holding c) \<Rightarrow> Some c | _ \<Rightarrow> None)"

fun session_step :: "pool_config \<Rightarrow> session_event \<Rightarrow> pooled \<Rightarrow> pooled option" where
  "session_step cfg (PoolEv ev) s = map_option (\<lambda>p. s\<lparr>ps_pool := p\<rparr>) (pool_step cfg ev (ps_pool s))"
| "session_step cfg (SendParse t sql) s = map_option (\<lambda>c. s\<lparr>ps_stmt := (ps_stmt s)(c := Some sql)\<rparr>) (held_by s t)"
| "session_step cfg (SendBind t) s = map_option (\<lambda>c. s\<lparr>ps_log := ps_log s @ [(t, ps_stmt s c)]\<rparr>) (held_by s t)"
| "session_step cfg (Heal c) s = Some (s\<lparr>ps_stmt := (ps_stmt s)(c := None)\<rparr>)"

abbreviation session_run :: "pool_config \<Rightarrow> session_event list \<Rightarrow> pooled \<Rightarrow> pooled option" where
  "session_run cfg \<equiv> run_steps (session_step cfg)"

definition session_start :: "pool_config \<Rightarrow> nat \<Rightarrow> pooled" where
  "session_start cfg tasks = \<lparr>ps_pool = pool_start cfg tasks, ps_stmt = (\<lambda>_. None), ps_log = []\<rparr>"

text \<open>\<open>PGlite::query\<close> of a task, with nothing else of that task.\<close>

definition query_events :: "nat \<Rightarrow> string \<Rightarrow> session_event list" where
  "query_events t sql =
     [PoolEv (Acquire t), SendParse t sql, PoolEv (Release 0 t), PoolEv (Acquire t), SendBind t, PoolEv (Release 0 t)]"

fun event_task :: "session_event \<Rightarrow> nat option" where
  "event_task (PoolEv (Acquire t)) = Some t"
| "event_task (PoolEv (Spawned t ok)) = Some t"
| "event_task (PoolEv (Receive t)) = Some t"
| "event_task (PoolEv (GiveUp t)) = Some t"
| "event_task (PoolEv (Release now t)) = Some t"
| "event_task (PoolEv (Fire t)) = Some t"
| "event_task (PoolEv (Die c)) = None"
| "event_task (PoolEv (Reap now)) = None"
| "event_task (SendParse t sql) = Some t"
| "event_task (SendBind t) = Some t"
| "event_task (Heal c) = None"

text \<open>
  C14. Two tasks that each run one query through the pool can interleave so that the first executes the statement of the second:
  its two requests are two visits to the pool, and between them the connection serves the other task.
\<close>

theorem query_split_race:
  "\<exists>evs s. session_run demo_cfg evs (session_start demo_cfg 2) = Some s \<and>
     filter (\<lambda>ev. event_task ev = Some 0) evs = query_events 0 ''SELECT a'' \<and>
     filter (\<lambda>ev. event_task ev = Some 1) evs = query_events 1 ''DELETE b'' \<and>
     (0, Some ''DELETE b'') \<in> set (ps_log s)"
proof -
  let ?q0 = "query_events 0 ''SELECT a''" and ?q1 = "query_events 1 ''DELETE b''"
  let ?evs = "take 3 ?q0 @ take 3 ?q1 @ drop 3 ?q0 @ drop 3 ?q1"
  have "\<exists>s. session_run demo_cfg ?evs (session_start demo_cfg 2) = Some s \<and> (0, Some ''DELETE b'') \<in> set (ps_log s)"
    by (simp add: query_events_def session_start_def held_by_def pool_eval)
  moreover have "filter (\<lambda>ev. event_task ev = Some 0) ?evs = ?q0" "filter (\<lambda>ev. event_task ev = Some 1) ?evs = ?q1"
    by (simp_all add: query_events_def)
  ultimately show ?thesis by blast
qed

section \<open>Lemmas on held connections\<close>

lemma task_at_update:
  "task_at (s\<lparr>pl_tasks := (pl_tasks s)[i := p]\<rparr>) t = (if i = t \<and> t < length (pl_tasks s) then Some p else task_at s t)"
  by (auto simp: task_at_def nth_list_update)

lemma task_at_cong: "pl_tasks s' = pl_tasks s \<Longrightarrow> task_at s' t = task_at s t"
  by (simp add: task_at_def cong: if_cong)

lemma task_at_other:
  "pl_tasks s' = (pl_tasks s)[i := p] \<Longrightarrow> i \<noteq> t \<Longrightarrow> task_at s' t = task_at s t"
  by (auto simp: task_at_def nth_list_update)

lemma step_keeps_holding:
  assumes "task_at s t = Some (Holding c)" and "pool_step cfg ev s = Some s'"
    and "\<forall>now. ev \<noteq> Release now t" and "ev \<noteq> GiveUp t"
  shows "task_at s' t = Some (Holding c)"
proof (cases ev)
  case (Acquire u)
  then have "u \<noteq> t" "s' = acquire_section cfg u s" using assms by (auto split: if_splits)
  then have "\<exists>p. pl_tasks s' = (pl_tasks s)[u := p]" by (auto simp: acquire_section_def split: option.splits prod.splits)
  then show ?thesis using task_at_other [of s' s u _ t] \<open>u \<noteq> t\<close> assms(1) by auto
next
  case (Spawned u ok)
  then have "u \<noteq> t" "s' = spawn_section u ok s" using assms by (auto split: if_splits)
  then have "\<exists>p. pl_tasks s' = (pl_tasks s)[u := p]" by (auto simp: spawn_section_def)
  then show ?thesis using task_at_other [of s' s u _ t] \<open>u \<noteq> t\<close> assms(1) by auto
next
  case (Receive u)
  then obtain d where d: "task_at s u = Some (Sent d)" "s' = receive_section u d s"
    using assms(2) by (auto split: option.splits task.splits)
  then have "u \<noteq> t" "\<exists>p. pl_tasks s' = (pl_tasks s)[u := p]" using assms(1) by (auto simp: receive_section_def)
  then show ?thesis using task_at_other [of s' s u _ t] assms(1) by auto
next
  case (GiveUp u)
  then have "u \<noteq> t" "s' = give_up_section u s" using assms by (auto split: option.splits task.splits)
  then have "pl_tasks s' = (pl_tasks s)[u := Away]" by (auto simp: give_up_section_def Let_def split: task.splits)
  then show ?thesis using task_at_other [of s' s u _ t] \<open>u \<noteq> t\<close> assms(1) by auto
next
  case (Release now u)
  then obtain d where d: "s' = release_section now u d s"
    using assms(2) by (auto split: option.splits task.splits)
  have ut: "u \<noteq> t" using assms(3) Release by auto
  let ?s = "s\<lparr>pl_tasks := (pl_tasks s)[u := Away], pl_used := (pl_used s)(d := now)\<rparr>"
  have t: "task_at ?s t = Some (Holding c)" using task_at_other [of ?s s u Away t] ut assms(1) by simp
  obtain r ws where h: "hand_over (waiting_on ?s) (pl_waiters s) = (r, ws)" by fastforce
  have "pl_tasks s' = (if is_alive s d then (case r of None \<Rightarrow> pl_tasks ?s | Some i \<Rightarrow> (pl_tasks ?s)[i := Sent d]) else pl_tasks ?s)"
    using d h by (auto simp: release_section_def Let_def is_alive_def split: option.split)
  moreover have "i \<noteq> t" if "r = Some i" for i
  proof -
    obtain ch where "waiting_on ?s ch = Some i" using hand_over_cases [OF h] \<open>r = Some i\<close> by auto
    then have "task_at ?s i = Some (Waiting ch)" using waiting_on_Some [of ?s ch i] by (simp add: task_at_def)
    then show ?thesis using t by auto
  qed
  ultimately show ?thesis
    using t task_at_cong [of s' ?s t] task_at_other [of s' ?s _ "Sent d" t] by (auto split: if_splits option.splits)
next
  case (Fire u)
  then have "u \<noteq> t" "s' = fire_section cfg u s" using assms by (auto split: if_splits)
  then have "(\<exists>p. pl_tasks s' = (pl_tasks s)[u := p]) \<or> s' = s" by (auto simp: fire_section_def)
  then show ?thesis using task_at_other [of s' s u _ t] \<open>u \<noteq> t\<close> assms(1) by auto
next
  case (Die d)
  then have "pl_tasks s' = pl_tasks s" using assms(2) by auto
  then show ?thesis using task_at_cong assms(1) by metis
next
  case (Reap now)
  then have "pl_tasks s' = pl_tasks s" using assms(2) by (auto simp: reap_section_def split: prod.splits)
  then show ?thesis using task_at_cong assms(1) by metis
qed

lemma concat_apart:
  assumes "distinct (concat (map f xs))" and "i < j" and "j < length xs" and "c \<in> set (f (xs ! i))"
  shows "c \<notin> set (f (xs ! j))"
proof -
  have "xs = take i xs @ xs ! i # drop (Suc i) xs" using assms(2,3) by (simp add: id_take_nth_drop)
  then have "concat (map f xs) = concat (map f (take i xs)) @ f (xs ! i) @ concat (map f (drop (Suc i) xs))"
    by (metis append.assoc concat.simps(2) concat_append list.simps(9) map_append)
  moreover have "xs ! j \<in> set (drop (Suc i) xs)"
    using nth_mem [of "j - Suc i" "drop (Suc i) xs"] assms(2,3) by simp
  ultimately show ?thesis using assms(1,4) by auto
qed

lemma held_apart:
  assumes "pool_ok cfg s" and "task_at s t = Some (Holding c)" and "task_at s u = Some (Holding c)"
  shows "t = u"
proof (rule ccontr)
  assume "t \<noteq> u"
  have d: "distinct (concat (map conns_of (pl_tasks s)))" using assms(1) by (simp add: pool_ok_def owned_def)
  have i: "t < length (pl_tasks s)" "pl_tasks s ! t = Holding c" "u < length (pl_tasks s)" "pl_tasks s ! u = Holding c"
    using assms(2,3) by (auto simp: task_at_def split: if_splits)
  show False
    using concat_apart [OF d, of t u c] concat_apart [OF d, of u t c] i \<open>t \<noteq> u\<close> by (cases "t < u") auto
qed

interpretation shared: machine "session_step cfg" "\<lambda>_. True" "\<lambda>s. pool_reach cfg (ps_pool s)" for cfg
proof
  fix s ev s'
  assume "pool_reach cfg (ps_pool s)" and "session_step cfg ev s = Some s'"
  then show "pool_reach cfg (ps_pool s')" by (cases ev) (auto intro: pool_reach.step)
qed

lemma session_reach:
  "session_run cfg evs s = Some s' \<Longrightarrow> pool_reach cfg (ps_pool s) \<Longrightarrow> pool_reach cfg (ps_pool s')"
  by (rule shared.run_inv) simp_all

text \<open>The events of a transaction between the two requests of its query: none of the task's own.\<close>

definition pinned_between :: "nat \<Rightarrow> session_event list \<Rightarrow> bool" where
  "pinned_between t evs \<longleftrightarrow> list_all (\<lambda>ev. event_task ev \<noteq> Some t) evs"

lemma pinned_keeps:
  assumes "session_run cfg evs s = Some s'" and "pool_reach cfg (ps_pool s)" and "pc_min cfg \<le> pc_max cfg"
    and "held_by s t = Some c" and "pinned_between t evs"
  shows "held_by s' t = Some c \<and> (ps_stmt s' c = ps_stmt s c \<or> (ps_stmt s' c = None \<and> Heal c \<in> set evs))"
  using assms(1,2,4,5)
proof (induction evs arbitrary: s)
  case (Cons ev evs)
  obtain s1 where s1: "session_step cfg ev s = Some s1" "session_run cfg evs s1 = Some s'"
    using Cons.prems(1) by (cases "session_step cfg ev s") auto
  have r1: "pool_reach cfg (ps_pool s1)" using session_reach [of cfg "[ev]" s s1] s1(1) Cons.prems(2) by simp
  have h: "task_at (ps_pool s) t = Some (Holding c)"
    using Cons.prems(3) by (auto simp: held_by_def split: option.splits task.splits)
  have ev: "event_task ev \<noteq> Some t" "pinned_between t evs" using Cons.prems(4) by (simp_all add: pinned_between_def)
  have "held_by s1 t = Some c \<and> (ps_stmt s1 c = ps_stmt s c \<or> (ps_stmt s1 c = None \<and> ev = Heal c))"
  proof (cases ev)
    case (PoolEv e)
    then obtain p where p: "pool_step cfg e (ps_pool s) = Some p" "s1 = s\<lparr>ps_pool := p\<rparr>" using s1(1) by auto
    have "\<forall>now. e \<noteq> Release now t" "e \<noteq> GiveUp t" using ev(1) PoolEv by auto
    then show ?thesis using step_keeps_holding [OF h p(1)] p(2) by (simp add: held_by_def)
  next
    case (SendParse u sql)
    then obtain d where d: "held_by s u = Some d" "s1 = s\<lparr>ps_stmt := (ps_stmt s)(d := Some sql)\<rparr>" using s1(1) by auto
    then have "task_at (ps_pool s) u = Some (Holding d)" by (auto simp: held_by_def split: option.splits task.splits)
    then have "d \<noteq> c" using held_apart [OF reach_ok [OF Cons.prems(2) assms(3)] h, of u] ev(1) SendParse by auto
    then show ?thesis using d(2) Cons.prems(3) by (simp add: held_by_def)
  next
    case (SendBind u)
    then show ?thesis using s1(1) Cons.prems(3) by (auto simp: held_by_def)
  next
    case (Heal d)
    then show ?thesis using s1(1) Cons.prems(3) by (cases "d = c") (auto simp: held_by_def)
  qed
  then show ?case using Cons.IH [OF s1(2) r1 _ ev(2)] by auto
qed simp

text \<open>
  C13. A query on a pinned connection executes its own statement: whatever other tasks do between the two requests, the
  task executes the statement it parsed; only when its worker had to reconnect in between is there no statement,
  never that of another task.
\<close>

theorem pinned_query_own:
  assumes "pool_reach cfg (ps_pool s)" and "pc_min cfg \<le> pc_max cfg" and "pinned_between t evs"
    and "session_run cfg (SendParse t sql # evs @ [SendBind t]) s = Some s'"
  shows "\<exists>x. last (ps_log s') = (t, x) \<and> (x = Some sql \<or> (x = None \<and> (\<exists>c. held_by s t = Some c \<and> Heal c \<in> set evs)))"
proof -
  obtain c where c: "held_by s t = Some c" using assms(4) by (cases "held_by s t") auto
  let ?s = "s\<lparr>ps_stmt := (ps_stmt s)(c := Some sql)\<rparr>"
  obtain s1 where s1: "session_run cfg evs ?s = Some s1" "session_step cfg (SendBind t) s1 = Some s'"
    using assms(4) c by (auto simp: run_steps_append bind_eq_Some_conv)
  have "held_by s1 t = Some c \<and> (ps_stmt s1 c = Some sql \<or> (ps_stmt s1 c = None \<and> Heal c \<in> set evs))"
    using pinned_keeps [OF s1(1) _ assms(2) _ assms(3), of c] assms(1) c by (simp add: held_by_def)
  then show ?thesis using s1(2) c by auto
qed

theorem pinned_query_own_witness:
  "\<exists>s s'. session_run demo_cfg [PoolEv (Acquire 0)] (session_start demo_cfg 2) = Some s \<and>
     session_run demo_cfg (SendParse 0 ''SELECT a'' #
       [PoolEv (Acquire 1), PoolEv (Spawned 1 True), SendParse 1 ''DELETE b''] @ [SendBind 0]) s = Some s' \<and>
     last (ps_log s') = (0, Some ''SELECT a'')"
proof -
  let ?evs = "[PoolEv (Acquire 1), PoolEv (Spawned 1 True), SendParse 1 ''DELETE b'']"
  obtain s s' where s: "session_run demo_cfg [PoolEv (Acquire 0)] (session_start demo_cfg 2) = Some s"
      "session_run demo_cfg (SendParse 0 ''SELECT a'' # ?evs @ [SendBind 0]) s = Some s'"
    by (simp add: session_start_def held_by_def pool_eval)
  have "pool_reach demo_cfg (ps_pool s)"
    using session_reach [OF s(1)] by (simp add: session_start_def pool_reach.init)
  then have "\<exists>x. last (ps_log s') = (0, x) \<and> (x = Some ''SELECT a'' \<or> (x = None \<and> (\<exists>c. held_by s 0 = Some c \<and> Heal c \<in> set ?evs)))"
    using pinned_query_own [OF _ _ _ s(2)] by (simp add: pinned_between_def demo_cfg_def)
  then show ?thesis using s by auto
qed

section \<open>One engine in a process\<close>

text \<open>
  \<open>open_inner\<close>: the flags \<open>OPEN\<close> and \<open>BOOTED\<close>, the engines spawned, and where each caller is. A caller that has swapped
  \<open>BOOTED\<close> and found it set has still to clear \<open>OPEN\<close>.
\<close>

datatype opener = NotOpen | GotOpen | Refused | BootWait | HasDb | ClosedDb | Ended "error option"

record process =
  pr_open :: bool
  pr_booted :: bool
  pr_spawned :: nat
  pr_opener :: "nat \<Rightarrow> opener"

definition becomes :: "nat \<Rightarrow> opener \<Rightarrow> process \<Rightarrow> process" where
  "becomes t o' s = s\<lparr>pr_opener := (pr_opener s)(t := o')\<rparr>"

text \<open>
  The steps: the two swaps, the store after a refusal, the result of the boot channel (\<open>None\<close>: the thread died),
  \<open>close\<close>, and the drop of the last handle.
\<close>

inductive open_step :: "process \<Rightarrow> process \<Rightarrow> bool" where
  swap_taken: "pr_opener s t = NotOpen \<Longrightarrow> pr_open s \<Longrightarrow>
     open_step s (becomes t (Ended (Some AlreadyOpen)) s)"
| swap_open: "pr_opener s t = NotOpen \<Longrightarrow> \<not> pr_open s \<Longrightarrow>
     open_step s (becomes t GotOpen (s\<lparr>pr_open := True\<rparr>))"
| swap_booted: "pr_opener s t = GotOpen \<Longrightarrow> pr_booted s \<Longrightarrow> open_step s (becomes t Refused s)"
| clear: "pr_opener s t = Refused \<Longrightarrow>
     open_step s (becomes t (Ended (Some ReopenUnsupported)) (s\<lparr>pr_open := False\<rparr>))"
| spawn: "pr_opener s t = GotOpen \<Longrightarrow> \<not> pr_booted s \<Longrightarrow>
     open_step s (becomes t BootWait (s\<lparr>pr_booted := True, pr_spawned := pr_spawned s + 1\<rparr>))"
| boot_ok: "pr_opener s t = BootWait \<Longrightarrow> open_step s (becomes t HasDb s)"
| boot_failed: "pr_opener s t = BootWait \<Longrightarrow>
     open_step s (becomes t (Ended (Some (case e of Some e \<Rightarrow> e | None \<Rightarrow> Boot ''engine thread died during boot'')))
       (s\<lparr>pr_open := False\<rparr>))"
| close_db: "pr_opener s t = HasDb \<Longrightarrow> open_step s (becomes t ClosedDb (s\<lparr>pr_open := False\<rparr>))"
| drop_db: "pr_opener s t = HasDb \<or> pr_opener s t = ClosedDb \<Longrightarrow>
     open_step s (becomes t (Ended None) (s\<lparr>pr_open := False\<rparr>))"

inductive open_reach :: "process \<Rightarrow> bool" where
  init: "open_reach \<lparr>pr_open = False, pr_booted = False, pr_spawned = 0, pr_opener = (\<lambda>_. NotOpen)\<rparr>"
| step: "open_reach s \<Longrightarrow> open_step s s' \<Longrightarrow> open_reach s'"

definition has_engine :: "opener \<Rightarrow> bool" where
  "has_engine o' \<longleftrightarrow> o' \<in> {BootWait, HasDb, ClosedDb}"

definition process_ok :: "process \<Rightarrow> bool" where
  "process_ok s \<longleftrightarrow>
     pr_spawned s = (if pr_booted s then 1 else 0) \<and>
     (\<forall>t. has_engine (pr_opener s t) \<or> pr_opener s t = Refused \<longrightarrow> pr_booted s) \<and>
     (\<forall>t u. has_engine (pr_opener s t) \<and> has_engine (pr_opener s u) \<longrightarrow> t = u)"

lemma open_step_ok: "open_step s s' \<Longrightarrow> process_ok s \<Longrightarrow> process_ok s'"
proof (induction rule: open_step.induct)
  case (spawn s t)
  then have "\<not> has_engine (pr_opener s u)" for u by (auto simp: process_ok_def)
  then show ?case using spawn by (auto simp: process_ok_def becomes_def has_engine_def)
next
  case (boot_ok s t)
  then have "has_engine (pr_opener s u) \<Longrightarrow> u = t" for u by (auto simp: process_ok_def has_engine_def)
  then show ?case using boot_ok by (auto simp: process_ok_def becomes_def has_engine_def)
next
  case (close_db s t)
  then have "has_engine (pr_opener s u) \<Longrightarrow> u = t" for u by (auto simp: process_ok_def has_engine_def)
  then show ?case using close_db by (auto simp: process_ok_def becomes_def has_engine_def)
qed (auto simp: process_ok_def becomes_def has_engine_def)

text \<open>
  However calls of \<open>open\<close>, closes and drops of several threads interleave, a process starts at most one engine, and at
  most one caller ever has it; before the first engine was started nobody is refused as a reopening.
\<close>

theorem engine_once:
  assumes "open_reach s"
  shows "pr_spawned s \<le> 1 \<and>
    (\<forall>t u. has_engine (pr_opener s t) \<longrightarrow> has_engine (pr_opener s u) \<longrightarrow> t = u) \<and>
    (\<forall>t. has_engine (pr_opener s t) \<or> pr_opener s t = Refused \<longrightarrow> pr_spawned s = 1)"
proof -
  from assms have "process_ok s"
  proof induction
    case (step s s')
    then show ?case using open_step_ok by blast
  qed (simp add: process_ok_def has_engine_def)
  then show ?thesis by (auto simp: process_ok_def)
qed

theorem engine_once_witness:
  "\<exists>s. open_reach s \<and> pr_opener s 0 = HasDb \<and> pr_opener s 1 = Ended (Some AlreadyOpen) \<and> pr_spawned s = 1"
proof -
  let ?s0 = "\<lparr>pr_open = False, pr_booted = False, pr_spawned = 0, pr_opener = (\<lambda>_. NotOpen)\<rparr>"
  let ?s1 = "becomes 0 GotOpen (?s0\<lparr>pr_open := True\<rparr>)"
  let ?s2 = "becomes 0 BootWait (?s1\<lparr>pr_booted := True, pr_spawned := pr_spawned ?s1 + 1\<rparr>)"
  let ?s3 = "becomes 0 HasDb ?s2"
  let ?s4 = "becomes 1 (Ended (Some AlreadyOpen)) ?s3"
  have r1: "open_reach ?s1" by (rule open_reach.step [OF open_reach.init swap_open]) simp_all
  have r2: "open_reach ?s2" by (rule open_reach.step [OF r1 spawn]) (simp_all add: becomes_def)
  have r3: "open_reach ?s3" by (rule open_reach.step [OF r2 boot_ok]) (simp add: becomes_def)
  have r4: "open_reach ?s4" by (rule open_reach.step [OF r3 swap_taken]) (simp_all add: becomes_def)
  have h: "pr_opener ?s4 0 = HasDb" "pr_opener ?s4 1 = Ended (Some AlreadyOpen)" by (simp_all add: becomes_def)
  have "pr_spawned ?s4 = 1" using engine_once [OF r4] h(1) by (simp add: has_engine_def)
  then show ?thesis using r4 h by blast
qed

end
