(* ===== verification/Gateway.thy ===== *)
theory Gateway
  imports Db
begin

text \<open>
  \<^verbatim>\<open>socket/mod.rs\<close>: the socket gateway, which serves wire clients from the one backend. What a client sends is
  a list of arrivals: bytes, and times without one at which a read with a timeout gives up; such a time carries the value of
  the \<open>stop\<close> flag then. The list ends when the client closes.
\<close>

section \<open>Reading\<close>

datatype arrival = Got u8 | Quiet bool

definition would_block :: error where
  "would_block = Io WouldBlock ''Resource temporarily unavailable (os error 11)''"

text \<open>\<open>read_exact\<close>, with the read timeout set or not yet.\<close>

fun read_arrivals :: "bool \<Rightarrow> nat \<Rightarrow> arrival list \<Rightarrow> bytes res \<times> arrival list" where
  "read_arrivals timeout 0 inp = (Inr [], inp)"
| "read_arrivals timeout (Suc n) [] = (Inl eof, [])"
| "read_arrivals timeout (Suc n) (Got b # inp) =
     (case read_arrivals timeout n inp of (r, inp) \<Rightarrow> (mapR (Cons b) r, inp))"
| "read_arrivals timeout (Suc n) (Quiet stop # inp) =
     (if timeout then (Inl would_block, inp) else read_arrivals timeout (Suc n) inp)"

section \<open>Startup\<close>

text \<open>The result, what was written, and the rest.\<close>

function read_startup :: "arrival list \<Rightarrow> bytes \<Rightarrow> (unit res \<times> bytes) \<times> arrival list" where
  "read_startup inp out =
     (case read_arrivals False 4 inp of
        (Inl e, inp) \<Rightarrow> ((Inl e, out), inp)
      | (Inr len_buf, inp') \<Rightarrow>
          let len = unat (from_be32 len_buf) in
          if \<not> (8 \<le> len \<and> len \<le> 10000)
          then ((Inl (Protocol (''invalid startup length '' @ show_nat len)), out), inp')
          else (case read_arrivals False (len - 4) inp' of
             (Inl e, inp) \<Rightarrow> ((Inl e, out), inp)
           | (Inr body, inp'') \<Rightarrow>
               let code = from_be32 (take 4 body) in
               if code = 80877103 \<or> code = 80877104 then read_startup inp'' (out @ [bch CHR ''N''])
               else if code = 196608 then ((Inr (), out), inp'')
               else ((Inl (Protocol (''unsupported startup code '' @ show_u32 code)), out), inp'')))"
  by pat_completeness auto

lemma read_arrivals_length: "length (snd (read_arrivals timeout n inp)) \<le> length inp"
  by (induction timeout n inp rule: read_arrivals.induct) (auto split: prod.splits)

lemma read_arrivals_Inr:
  "read_arrivals timeout n inp = (Inr bs, rest) \<Longrightarrow> length bs = n \<and> length rest + n \<le> length inp"
proof (induction timeout n inp arbitrary: bs rule: read_arrivals.induct)
  case (3 timeout n b inp)
  then show ?case by (fastforce split: prod.splits)
qed (auto split: if_splits)

termination read_startup
  by (relation "measure (\<lambda>(inp, out). length inp)") (auto dest!: read_arrivals_Inr [OF sym])

declare read_startup.simps [simp del]

definition startup_parameters :: "string \<Rightarrow> (string \<times> string) list" where
  "startup_parameters server_version =
     [(''server_version'', server_version), (''server_encoding'', ''UTF8''), (''client_encoding'', ''UTF8''),
      (''standard_conforming_strings'', ''on''), (''integer_datetimes'', ''on''), (''DateStyle'', ''ISO, MDY''),
      (''TimeZone'', ''UTC''), (''is_superuser'', ''on'')]"

definition parameter_status :: "string \<times> string \<Rightarrow> bytes" where
  "parameter_status = (\<lambda>(key, value).
     [bch CHR ''S''] @ be32 (of_nat (4 + length key + 1 + length value + 1)) @ bytes_of key @ [0] @ bytes_of value @ [0])"

definition synth_startup_reply :: "string \<Rightarrow> bytes" where
  "synth_startup_reply server_version =
     [bch CHR ''R''] @ be32 8 @ be32 0 @
     concat (map parameter_status (startup_parameters server_version)) @
     [bch CHR ''K''] @ be32 12 @ be32 1 @ be32 0 @
     [bch CHR ''Z''] @ be32 5 @ [bch CHR ''I'']"

section \<open>Responses\<close>

function filter_loop :: "bytes \<Rightarrow> u8 \<Rightarrow> bytes \<Rightarrow> bytes" where
  "filter_loop resp last_kept out =
     (if 5 \<le> length resp
      then let tag = hd resp;
               len = unat (from_be32 (take 4 (drop 1 resp)));
               end_pos = min (1 + max len 4) (length resp)
           in if \<not> (tag = bch CHR ''A'' \<or> (tag = bch CHR ''Z'' \<and> last_kept = bch CHR ''Z''))
              then filter_loop (drop end_pos resp) tag (out @ take end_pos resp)
              else filter_loop (drop end_pos resp) last_kept out
      else out)"
  by pat_completeness auto
termination
  by (relation "measure (\<lambda>(resp, last, out). length resp)") auto

declare filter_loop.simps [simp del]

definition filter_response :: "bytes \<Rightarrow> bytes" where
  "filter_response resp = filter_loop resp 0 []"

section \<open>Serving a client\<close>

text \<open>One turn of the loop up to the next frame: a quiet time, the ways to end, or a whole frame.\<close>

datatype client_event = Waited | Done | Broken error | Frame u8 bytes bytes

definition next_frame :: "arrival list \<Rightarrow> client_event \<times> arrival list" where
  "next_frame inp =
     (case inp of
        [] \<Rightarrow> (Done, [])
      | Quiet stop # inp \<Rightarrow> (if stop then Done else Waited, inp)
      | Got tag # inp \<Rightarrow>
          if tag = bch CHR ''X'' then (Done, inp)
          else (case read_arrivals True 4 inp of
             (Inl e, inp) \<Rightarrow> (Broken e, inp)
           | (Inr len_buf, inp) \<Rightarrow>
               (case read_arrivals True (unat (from_be32 len_buf) - 4) inp of
                  (Inl e, inp) \<Rightarrow> (Broken e, inp)
                | (Inr body, inp) \<Rightarrow> (Frame tag len_buf body, inp))))"

definition ends_batch :: "u8 \<Rightarrow> bool" where
  "ends_batch tag \<longleftrightarrow> tag \<in> bch ` {CHR ''Q'', CHR ''F'', CHR ''S'', CHR ''c'', CHR ''f''}"

text \<open>
  The gateway and its client: the backend with its listeners, what was written, and the results of the writes to come (none
  left: they succeed).
\<close>

record ('b, 'k) gateway =
  gw_db :: "('b, 'k) db"
  gw_out :: bytes
  gw_writes :: "unit res list"

definition write_client :: "bytes \<Rightarrow> (('b, 'k) gateway, unit) act" where
  "write_client bs s =
     (case gw_writes s of
        Inl e # ws \<Rightarrow> (Inl e, s\<lparr>gw_writes := ws\<rparr>)
      | Inr _ # ws \<Rightarrow> (Inr (), s\<lparr>gw_out := gw_out s @ bs, gw_writes := ws\<rparr>)
      | [] \<Rightarrow> (Inr (), s\<lparr>gw_out := gw_out s @ bs\<rparr>))"

text \<open>A batch: the round trip under the lock, the notifications, the filtered response to the client.\<close>

definition serve_batch :: "'b db_env \<Rightarrow> bytes \<Rightarrow> (('b, 'k) gateway, unit) act" where
  "serve_batch env batch s =
     (case db_roundtrip env batch (gw_db s) of
        (Inl e, db) \<Rightarrow> (Inl e, s\<lparr>gw_db := db\<rparr>)
      | (Inr response, db) \<Rightarrow>
          write_client (filter_response response) (s\<lparr>gw_db := dispatch_notifications_to env response db\<rparr>))"

lemma next_frame_length:
  assumes "next_frame inp = (ev, rest)" and "inp \<noteq> []"
  shows "length rest < length inp"
proof (cases inp)
  case (Cons a inp')
  show ?thesis
  proof (cases a)
    case (Got tag)
    obtain r1 i1 where r1: "read_arrivals True 4 inp' = (r1, i1)" by fastforce
    obtain r2 i2 where r2: "read_arrivals True (unat (from_be32 (projr r1)) - 4) i1 = (r2, i2)" by fastforce
    have "length i1 \<le> length inp'" "length i2 \<le> length i1"
      using read_arrivals_length [of True 4 inp'] read_arrivals_length [of True "unat (from_be32 (projr r1)) - 4" i1]
      by (simp_all add: r1 r2)
    then show ?thesis
      using assms(1) r1 r2 by (cases r1; cases r2) (auto simp: next_frame_def Cons Got split: if_splits)
  qed (use assms Cons in \<open>auto simp: next_frame_def\<close>)
qed (use assms(2) in simp)

lemma next_frame_Nil [simp]: "next_frame [] = (Done, [])"
  by (simp add: next_frame_def)

function client_loop :: "'b db_env \<Rightarrow> arrival list \<Rightarrow> bytes \<Rightarrow> (('b, 'k) gateway, unit) act" where
  "client_loop env inp pending s =
     (case next_frame inp of
        (Waited, inp) \<Rightarrow> client_loop env inp pending s
      | (Done, inp) \<Rightarrow> (Inr (), s)
      | (Broken e, inp) \<Rightarrow> (Inl e, s)
      | (Frame tag len_buf body, inp) \<Rightarrow>
          let pending = pending @ tag # len_buf @ body in
          if \<not> ends_batch tag then client_loop env inp pending s
          else (case serve_batch env pending s of
                  (Inl e, s) \<Rightarrow> (Inl e, s)
                | (Inr _, s) \<Rightarrow> client_loop env inp [] s))"
  by pat_completeness auto
termination
proof (relation "measure (\<lambda>(env, inp, pending, s). length inp)", goal_cases)
  case (2 env inp pending s ev rest)
  then show ?case using next_frame_length [of inp ev rest] by (cases inp) auto
next
  case (3 env inp pending s ev rest)
  then show ?case using next_frame_length [of inp ev rest] by (cases inp) auto
next
  case (4 env inp pending s ev rest)
  then show ?case using next_frame_length [of inp ev rest] by (cases inp) auto
qed simp

declare client_loop.simps [simp del]

definition serve_client :: "'b db_env \<Rightarrow> string \<Rightarrow> arrival list \<Rightarrow> (('b, 'k) gateway, unit) act" where
  "serve_client env server_version inp s =
     (case read_startup inp [] of
        ((r, out), inp) \<Rightarrow>
          let s = s\<lparr>gw_out := gw_out s @ out\<rparr> in
          bindA (liftA r) (\<lambda>_.
          bindA (write_client (synth_startup_reply server_version)) (\<lambda>_.
            client_loop env inp [])) s)"

text \<open>
  The doorman serves one client after another: for each the \<open>stop\<close> flag in front of \<open>accept\<close>, the client (or none, when \<open>accept\<close>
  failed), and the flag after it.
\<close>

fun doorman_loop ::
  "'b db_env \<Rightarrow> string \<Rightarrow> (bool \<times> arrival list option \<times> bool) list \<Rightarrow> ('b, 'k) gateway \<Rightarrow> ('b, 'k) gateway" where
  "doorman_loop env version [] s = s"
| "doorman_loop env version ((stop, client, stop') # visits) s =
     (if stop then s
      else case client of
        None \<Rightarrow> s
      | Some inp \<Rightarrow> if stop' then s else doorman_loop env version visits (snd (serve_client env version inp s)))"

section \<open>Filtering\<close>

text \<open>On frames: no notification, and of ReadyForQuery that follow each other only the first.\<close>

fun filter_frames :: "u8 \<Rightarrow> (u8 \<times> bytes) list \<Rightarrow> (u8 \<times> bytes) list" where
  "filter_frames prev [] = []"
| "filter_frames prev ((t, b) # fs) =
     (if t = bch CHR ''A'' \<or> (t = bch CHR ''Z'' \<and> prev = bch CHR ''Z'') then filter_frames prev fs
      else (t, b) # filter_frames t fs)"

definition frames_ok :: "(u8 \<times> bytes) list \<Rightarrow> bool" where
  "frames_ok fs \<longleftrightarrow> list_all (\<lambda>(t, b). body_ok b) fs"

lemma filter_loop_frame:
  assumes "body_ok b"
  shows "filter_loop (frame t b @ rest) prev out =
     (if t = bch CHR ''A'' \<or> (t = bch CHR ''Z'' \<and> prev = bch CHR ''Z'') then filter_loop rest prev out
      else filter_loop rest t (out @ frame t b))"
proof -
  have n: "unat (from_be32 (be32 (of_nat (4 + length b)))) = 4 + length b"
    using assms unfolding from_be_be body_ok_def by (simp only: unat_of_nat) simp
  have h: "hd (frame t b @ rest) = t" "take 4 (drop 1 (frame t b @ rest)) = be32 (of_nat (4 + length b))"
    by (simp_all add: frame_def frame_header_def)
  have "min (1 + max (4 + length b) 4) (length (frame t b @ rest)) = length (frame t b)" by simp
  then show ?thesis
    by (subst filter_loop.simps) (simp only: h n Let_def, simp)
qed

lemma filter_loop_frames: "frames_ok fs \<Longrightarrow> filter_loop (frames fs) prev out = out @ frames (filter_frames prev fs)"
proof (induction fs arbitrary: prev out)
  case Nil
  then show ?case by (simp add: filter_loop.simps [of "[]"])
next
  case (Cons f fs)
  obtain t b where f: "f = (t, b)" by fastforce
  have "body_ok b" "frames_ok fs" using Cons.prems by (simp_all add: f frames_ok_def)
  then show ?case using Cons.IH filter_loop_frame [of b t "frames fs" prev out] by (simp add: f)
qed

lemma filter_response_frames: "frames_ok fs \<Longrightarrow> filter_response (frames fs) = frames (filter_frames 0 fs)"
  by (simp add: filter_response_def filter_loop_frames)

lemma filter_frames_kept:
  "filter (\<lambda>(t, b). t \<noteq> bch CHR ''A'' \<and> t \<noteq> bch CHR ''Z'') (filter_frames prev fs) =
     filter (\<lambda>(t, b). t \<noteq> bch CHR ''A'' \<and> t \<noteq> bch CHR ''Z'') fs"
proof (induction fs arbitrary: prev)
  case (Cons f fs)
  then show ?case by (cases f) simp
qed simp

lemma filter_frames_no_A: "list_all (\<lambda>(t, b). t \<noteq> bch CHR ''A'') (filter_frames prev fs)"
  by (induction prev fs rule: filter_frames.induct) auto

definition apart :: "u8 \<times> bytes \<Rightarrow> u8 \<times> bytes \<Rightarrow> bool" where
  "apart f g \<longleftrightarrow> \<not> (fst f = bch CHR ''Z'' \<and> fst g = bch CHR ''Z'')"

lemma filter_frames_apart: "successively apart ((prev, b0) # filter_frames prev fs)"
proof (induction prev fs arbitrary: b0 rule: filter_frames.induct)
  case (2 prev t b fs)
  show ?case
  proof (cases "t = bch CHR ''A'' \<or> (t = bch CHR ''Z'' \<and> prev = bch CHR ''Z'')")
    case False
    then show ?thesis using 2(2) [OF False, of b] by (auto simp: apart_def)
  qed (use 2(1) in simp)
qed simp

text \<open>
  The filter of the gateway, on a response of whole frames: the notifications are gone, of ReadyForQuery messages
  with nothing but notifications between them one is left, and every other message is kept, unchanged and in order.
\<close>

theorem filter_response_spec:
  assumes "frames_ok fs"
  shows "\<exists>gs. filter_response (frames fs) = frames gs \<and>
    filter (\<lambda>(t, b). t \<noteq> bch CHR ''A'' \<and> t \<noteq> bch CHR ''Z'') gs =
      filter (\<lambda>(t, b). t \<noteq> bch CHR ''A'' \<and> t \<noteq> bch CHR ''Z'') fs \<and>
    list_all (\<lambda>(t, b). t \<noteq> bch CHR ''A'') gs \<and> successively apart gs \<and>
    (bch CHR ''Z'' \<in> fst ` set fs \<longrightarrow> bch CHR ''Z'' \<in> fst ` set gs)"
proof (intro exI conjI)
  have z: "bch CHR ''Z'' \<in> fst ` set fs \<longrightarrow> prev = bch CHR ''Z'' \<or> bch CHR ''Z'' \<in> fst ` set (filter_frames prev fs)" for prev
    by (induction prev fs rule: filter_frames.induct) auto
  show "bch CHR ''Z'' \<in> fst ` set fs \<longrightarrow> bch CHR ''Z'' \<in> fst ` set (filter_frames 0 fs)" using z [of 0] by auto
  show "successively apart (filter_frames 0 fs)" using filter_frames_apart [of 0 "[]" fs] by (cases "filter_frames 0 fs") auto
qed (rule filter_response_frames [OF assms] filter_frames_kept filter_frames_no_A)+

theorem filter_response_spec_witness:
  "\<exists>gs. filter_response (frames [(bch CHR ''C'', [1]), (bch CHR ''Z'', [73]), (bch CHR ''A'', [7]), (bch CHR ''Z'', [73])]) = frames gs \<and>
     successively apart gs \<and> list_all (\<lambda>(t, b). t \<noteq> bch CHR ''A'') gs"
  using filter_response_spec [of "[(bch CHR ''C'', [1]), (bch CHR ''Z'', [73]), (bch CHR ''A'', [7]), (bch CHR ''Z'', [73])]"]
  by (fastforce simp: frames_ok_def body_ok_def)

section \<open>What a client gets\<close>

text \<open>A client that pauses between its messages, and what it sends.\<close>

datatype client_item = Pause | Msg u8 bytes

fun arrivals_of :: "client_item \<Rightarrow> arrival list" where
  "arrivals_of Pause = [Quiet False]"
| "arrivals_of (Msg t b) = map Got (frame t b)"

definition script :: "client_item list \<Rightarrow> arrival list" where
  "script items = concat (map arrivals_of items)"

definition items_ok :: "client_item list \<Rightarrow> bool" where
  "items_ok items \<longleftrightarrow> list_all (\<lambda>i. case i of Pause \<Rightarrow> True | Msg t b \<Rightarrow> t \<noteq> bch CHR ''X'' \<and> body_ok b) items"

text \<open>The batches: everything up to a message that asks for an answer.\<close>

fun batches :: "bytes \<Rightarrow> client_item list \<Rightarrow> bytes list" where
  "batches pending [] = []"
| "batches pending (Pause # items) = batches pending items"
| "batches pending (Msg t b # items) =
     (if ends_batch t then (pending @ frame t b) # batches [] items else batches (pending @ frame t b) items)"

text \<open>The backend asked directly: its responses until one fails.\<close>

fun answers :: "(bytes \<Rightarrow> 'b \<Rightarrow> bytes res \<times> 'b) \<Rightarrow> bytes list \<Rightarrow> 'b \<Rightarrow> bytes list \<times> unit res \<times> 'b" where
  "answers rt [] b = ([], Inr (), b)"
| "answers rt (w # ws) b =
     (case rt w b of
        (Inl e, b) \<Rightarrow> ([], Inl e, b)
      | (Inr resp, b) \<Rightarrow> (case answers rt ws b of (rs, r, b) \<Rightarrow> (resp # rs, r, b)))"

lemma script_simps [simp]:
  "script [] = []" "script (Pause # items) = Quiet False # script items"
  "script (Msg t b # items) = map Got (frame t b) @ script items"
  by (simp_all add: script_def)

lemma read_got: "read_arrivals timeout (length bs) (map Got bs @ rest) = (Inr bs, rest)"
  by (induction bs) simp_all

lemma read_got_n: "length bs = n \<Longrightarrow> read_arrivals timeout n (map Got bs @ rest) = (Inr bs, rest)"
  using read_got by blast

lemma next_frame_msg:
  assumes "t \<noteq> bch CHR ''X''" and "body_ok b"
  shows "next_frame (map Got (frame t b) @ rest) = (Frame t (be32 (of_nat (4 + length b))) b, rest)"
proof -
  have n: "unat (from_be32 (be32 (of_nat (4 + length b)))) - 4 = length b"
    using assms(2) unfolding from_be_be body_ok_def by (simp only: unat_of_nat) simp
  have split: "map Got (frame t b) @ rest = Got t # map Got (be32 (of_nat (4 + length b))) @ map Got b @ rest"
    by (simp add: frame_def frame_header_def)
  have r1: "read_arrivals True 4 (map Got (be32 (of_nat (4 + length b))) @ map Got b @ rest) =
      (Inr (be32 (of_nat (4 + length b))), map Got b @ rest)"
    by (rule read_got_n) simp
  show ?thesis
    unfolding split next_frame_def by (simp only: list.case arrival.case if_not_P [OF assms(1)] r1 prod.case sum.case n read_got)
qed

lemma next_frame_end: "ending = [] \<or> ending = map Got (frame (bch CHR ''X'') []) \<Longrightarrow> \<exists>rest. next_frame ending = (Done, rest)"
  by (auto simp: next_frame_def frame_def frame_header_def)

lemma serve_batch_spec:
  assumes "gw_writes s = []"
  shows "serve_batch env batch s =
    (case de_roundtrip env batch (db_backend (gw_db s)) of
       (Inl e, b) \<Rightarrow> (Inl e, s\<lparr>gw_db := (gw_db s)\<lparr>db_backend := b\<rparr>\<rparr>)
     | (Inr resp, b) \<Rightarrow> (Inr (), s\<lparr>gw_out := gw_out s @ filter_response resp,
          gw_db := dispatch_notifications_to env resp ((gw_db s)\<lparr>db_backend := b\<rparr>)\<rparr>))"
  using assms
  by (simp add: serve_batch_def db_roundtrip_def write_client_def split: prod.split sum.split)

lemma dispatch_backend: "db_backend (dispatch_notifications_to env resp db) = db_backend db"
  by (simp add: dispatch_notifications_to_def dispatch_msgs_spec)

lemma client_loop_spec:
  assumes "items_ok items" and "gw_writes s = []"
    and "ending = [] \<or> ending = map Got (frame (bch CHR ''X'') [])"
    and "answers (de_roundtrip env) (batches pending items) (db_backend (gw_db s)) = (rs, r, b)"
  shows "\<exists>s'. client_loop env (script items @ ending) pending s = (r, s') \<and> gw_writes s' = [] \<and>
    db_backend (gw_db s') = b \<and> gw_out s' = gw_out s @ concat (map filter_response rs)"
  using assms(1,2,4)
proof (induction items arbitrary: pending s rs)
  case Nil
  obtain rest where "next_frame ending = (Done, rest)" using next_frame_end [OF assms(3)] by blast
  then show ?case using Nil by (simp add: client_loop.simps [of env ending])
next
  case (Cons i items)
  have ok: "items_ok items" using Cons.prems(1) by (simp add: items_ok_def)
  show ?case
  proof (cases i)
    case Pause
    have "next_frame (script (i # items) @ ending) = (Waited, script items @ ending)"
      by (simp add: Pause next_frame_def)
    then show ?thesis
      using Cons.IH [OF ok Cons.prems(2), of pending rs] Cons.prems(3)
      by (simp add: Pause client_loop.simps [of env "Quiet False # script items @ ending"])
  next
    case (Msg t bd)
    have t: "t \<noteq> bch CHR ''X''" "body_ok bd" using Cons.prems(1) by (simp_all add: Msg items_ok_def)
    let ?inp = "map Got (frame t bd) @ script items @ ending" and ?p = "pending @ frame t bd"
    have nf: "next_frame ?inp = (Frame t (be32 (of_nat (4 + length bd))) bd, script items @ ending)"
      by (rule next_frame_msg [OF t])
    have p: "pending @ t # be32 (of_nat (4 + length bd)) @ bd = ?p" by (simp add: frame_def frame_header_def)
    have inp: "script (i # items) @ ending = ?inp" by (simp add: Msg)
    have loop: "client_loop env ?inp pending s =
        (if \<not> ends_batch t then client_loop env (script items @ ending) ?p s
         else (case serve_batch env ?p s of
                 (Inl e, s) \<Rightarrow> (Inl e, s)
               | (Inr _, s) \<Rightarrow> client_loop env (script items @ ending) [] s))"
      unfolding client_loop.simps [of env ?inp pending s] nf by (simp only: prod.case client_event.case Let_def p)
    show ?thesis
    proof (cases "ends_batch t")
      case False
      then show ?thesis
        using Cons.IH [OF ok Cons.prems(2), of ?p rs] Cons.prems(3) unfolding inp loop by (simp add: Msg)
    next
      case True
      obtain q b1 where q: "de_roundtrip env ?p (db_backend (gw_db s)) = (q, b1)" by fastforce
      show ?thesis
      proof (cases q)
        case (Inl e)
        then show ?thesis
          using Cons.prems(2,3) True q unfolding inp loop
          by (auto simp: Msg serve_batch_spec)
      next
        case (Inr resp)
        let ?s = "s\<lparr>gw_out := gw_out s @ filter_response resp,
          gw_db := dispatch_notifications_to env resp ((gw_db s)\<lparr>db_backend := b1\<rparr>)\<rparr>"
        obtain rs1 where rs1: "answers (de_roundtrip env) (batches [] items) b1 = (rs1, r, b)" "rs = resp # rs1"
          using Cons.prems(3) True q Inr by (auto simp: Msg split: prod.splits)
        have "serve_batch env ?p s = (Inr (), ?s)"
          using q Inr by (simp add: serve_batch_spec [OF Cons.prems(2)])
        then have step: "client_loop env (script (i # items) @ ending) pending s = client_loop env (script items @ ending) [] ?s"
          unfolding inp loop using True by simp
        have "answers (de_roundtrip env) (batches [] items) (db_backend (gw_db ?s)) = (rs1, r, b)"
          using rs1(1) by (simp add: dispatch_backend)
        then show ?thesis
          unfolding step using Cons.IH [OF ok, of ?s "[]" rs1] Cons.prems(2) rs1(2) by simp
      qed
    qed
  qed
qed

text \<open>The requests for encryption a client may send first, and its startup packet.\<close>

definition negotiation :: "u32 \<Rightarrow> bytes" where
  "negotiation code = be32 8 @ be32 code"

lemma read_startup_negotiation:
  assumes "code = 80877103 \<or> code = 80877104"
  shows "read_startup (map Got (negotiation code) @ rest) out = read_startup rest (out @ [bch CHR ''N''])"
proof -
  have e: "map Got (negotiation code) @ rest = map Got (be32 8) @ map Got (be32 code) @ rest"
    by (simp add: negotiation_def)
  have r1: "read_arrivals False 4 (map Got (negotiation code) @ rest) = (Inr (be32 8), map Got (be32 code) @ rest)"
    unfolding e by (rule read_got_n) simp
  have r2: "read_arrivals False 4 (map Got (be32 code) @ rest) = (Inr (be32 code), rest)"
    by (rule read_got_n) simp
  have u: "unat (from_be32 (be32 8)) = 8" by simp
  have t: "take 4 (be32 code) = be32 code" by simp
  show ?thesis
    unfolding read_startup.simps [of "map Got (negotiation code) @ rest" out] r1
    by (simp only: prod.case sum.case Let_def u) (use assms in \<open>simp add: r2 t\<close>)
qed

lemma read_startup_packet:
  assumes "length (build_startup_packet user database) \<le> 10000"
  shows "read_startup (map Got (build_startup_packet user database) @ rest) out = ((Inr (), out), rest)"
proof -
  obtain params where p: "build_startup_packet user database = be32 (of_nat (4 + 4 + length params)) @ be32 196608 @ params"
    by (simp add: build_startup_packet_def Let_def)
  let ?len = "4 + 4 + length params"
  have le: "?len \<le> 10000" using assms by (simp add: p)
  have u: "unat (of_nat ?len :: u32) = ?len"
    using le by (simp only: unat_of_nat) simp
  have e: "map Got (build_startup_packet user database) @ rest =
      map Got (be32 (of_nat ?len)) @ map Got (be32 196608 @ params) @ rest"
    by (simp add: p)
  have r1: "read_arrivals False 4 (map Got (build_startup_packet user database) @ rest) =
      (Inr (be32 (of_nat ?len)), map Got (be32 196608 @ params) @ rest)"
    unfolding e by (rule read_got_n) simp
  have r2: "read_arrivals False (?len - 4) (map Got (be32 196608 @ params) @ rest) = (Inr (be32 196608 @ params), rest)"
    by (rule read_got_n) simp
  have t: "take 4 (be32 196608 @ params) = be32 196608" by simp
  have ge: "8 \<le> ?len" by simp
  show ?thesis
    unfolding read_startup.simps [of "map Got (build_startup_packet user database) @ rest" out] r1 prod.case sum.case Let_def from_be_be u r2 t
    using le ge by simp
qed

lemma read_startup_client:
  assumes "list_all (\<lambda>c. c = 80877103 \<or> c = 80877104) codes" and "length (build_startup_packet user database) \<le> 10000"
  shows "read_startup (map Got (concat (map negotiation codes) @ build_startup_packet user database) @ rest) out =
    ((Inr (), out @ replicate (length codes) (bch CHR ''N'')), rest)"
  using assms(1)
proof (induction codes arbitrary: out)
  case Nil
  then show ?case using read_startup_packet [OF assms(2)] by simp
next
  case (Cons c codes)
  have e: "map Got (concat (map negotiation (c # codes)) @ build_startup_packet user database) @ rest =
      map Got (negotiation c) @ map Got (concat (map negotiation codes) @ build_startup_packet user database) @ rest"
    by simp
  have c: "c = 80877103 \<or> c = 80877104" "list_all (\<lambda>c. c = 80877103 \<or> c = 80877104) codes"
    using Cons.prems by simp_all
  show ?case
    unfolding e read_startup_negotiation [OF c(1)] Cons.IH [OF c(2)] by simp
qed

text \<open>
  C15. The gateway relays: a client that asks for encryption any number of times, sends a startup packet and then messages, with any
  pauses between them, and ends or closes, gets one \<^verbatim>\<open>N\<close> for each request, the startup reply and the filtered response of
  every batch, in order; the backend gets exactly the batches, each once, and what it fails with ends the connection.
\<close>

theorem gateway_relays:
  assumes "list_all (\<lambda>c. c = 80877103 \<or> c = 80877104) codes" and "length (build_startup_packet user database) \<le> 10000"
    and "items_ok items" and "ending = [] \<or> ending = map Got (frame (bch CHR ''X'') [])" and "gw_writes s = []"
    and "answers (de_roundtrip env) (batches [] items) (db_backend (gw_db s)) = (rs, r, b)"
  shows "\<exists>s'. serve_client env version
        (map Got (concat (map negotiation codes) @ build_startup_packet user database) @ script items @ ending) s = (r, s') \<and>
      db_backend (gw_db s') = b \<and>
      gw_out s' = gw_out s @ replicate (length codes) (bch CHR ''N'') @ synth_startup_reply version @
        concat (map filter_response rs)"
proof -
  let ?s = "s\<lparr>gw_out := gw_out s @ replicate (length codes) (bch CHR ''N'') @ synth_startup_reply version\<rparr>"
  have a: "answers (de_roundtrip env) (batches [] items) (db_backend (gw_db ?s)) = (rs, r, b)" using assms(6) by simp
  have w: "gw_writes ?s = []" using assms(5) by simp
  obtain s' where l: "client_loop env (script items @ ending) [] ?s = (r, s')" "db_backend (gw_db s') = b"
      "gw_out s' = gw_out ?s @ concat (map filter_response rs)"
    using client_loop_spec [OF assms(3) w assms(4) a] by blast
  have "serve_client env version
        (map Got (concat (map negotiation codes) @ build_startup_packet user database) @ script items @ ending) s =
      client_loop env (script items @ ending) [] ?s"
    unfolding serve_client_def read_startup_client [OF assms(1,2)]
    using assms(5) by (simp add: bindA_apply write_client_def)
  then show ?thesis using l by simp
qed

text \<open>A backend that answers every request with a notification and two ReadyForQuery.\<close>

definition bell_env :: "nat db_env" where
  "bell_env = \<lparr>de_parse = (\<lambda>_. Inr None), de_lower = (\<lambda>ch. ch),
     de_roundtrip = (\<lambda>w b. (Inr (frames [(bch CHR ''A'', [1]), (bch CHR ''Z'', [73]), (bch CHR ''Z'', [73])]), Suc b)),
     de_notify = None\<rparr>"

theorem gateway_relays_witness:
  "\<exists>s'. serve_client bell_env ''18'' (map Got (concat (map negotiation [80877103]) @ build_startup_packet ''u'' ''d'') @
        script [Msg (bch CHR ''P'') [0, 0], Pause, Msg (bch CHR ''S'') [], Msg (bch CHR ''Q'') [65, 0]] @ [])
      \<lparr>gw_db = (fresh_db 0 :: (nat, nat) db), gw_out = [], gw_writes = []\<rparr> = (Inr (), s') \<and>
    db_backend (gw_db s') = 2 \<and>
    gw_out s' = [bch CHR ''N''] @ synth_startup_reply ''18'' @ frame (bch CHR ''Z'') [73] @ frame (bch CHR ''Z'') [73]"
proof -
  let ?items = "[Msg (bch CHR ''P'') [0, 0], Pause, Msg (bch CHR ''S'') [], Msg (bch CHR ''Q'') [65, 0]]"
  let ?s = "\<lparr>gw_db = (fresh_db 0 :: (nat, nat) db), gw_out = [], gw_writes = []\<rparr>"
  let ?resp = "frames [(bch CHR ''A'', [1]), (bch CHR ''Z'', [73]), (bch CHR ''Z'', [73])]"
  have f: "filter_response ?resp = frame (bch CHR ''Z'') [73]"
    by (subst filter_response_frames) (simp_all add: frames_ok_def body_ok_def)
  have a: "answers (de_roundtrip bell_env) (batches [] ?items) (db_backend (gw_db ?s)) = ([?resp, ?resp], Inr (), 2)"
    by (simp add: bell_env_def fresh_db_def ends_batch_def)
  have len: "length (build_startup_packet ''u'' ''d'') \<le> 10000" by (simp add: build_startup_packet_def packet_params_def Let_def)
  show ?thesis
    using gateway_relays [OF _ len _ _ _ a, of "[80877103]" "[]" "''18''"] f
    by (simp add: items_ok_def body_ok_def)
qed

end
