(* ===== verification/Live.thy ===== *)
theory Live
  imports Db
begin

text \<open>
  \<^verbatim>\<open>live/mod.rs\<close> and \<^verbatim>\<open>live/tables.rs\<close>: live queries. The state is the count of live queries for each watched
  table and the statements that took effect in the database, in order; what each awaited call returns is a parameter. A
  watched table is the pair of the identifiers of its schema and of the table.
\<close>

section \<open>Texts\<close>

type_synonym table_id = "u32 \<times> u32"

record watched =
  wt_id :: table_id
  wt_schema :: string
  wt_table :: string

definition id_suffix :: "table_id \<Rightarrow> string" where
  "id_suffix t = show_u32 (fst t) @ ''_'' @ show_u32 (snd t)"

definition channel_name :: "table_id \<Rightarrow> string" where
  "channel_name t = ''table_change__'' @ show_u32 (fst t) @ ''__'' @ show_u32 (snd t)"

definition newline :: string where
  "newline = [CHR 0x0A]"

text \<open>Names go between double quotes as they are.\<close>

definition quoted :: "string \<Rightarrow> string" where
  "quoted s = [dq] @ s @ [dq]"

definition trigger_ddl :: "watched \<Rightarrow> string" where
  "trigger_ddl w =
     ''CREATE OR REPLACE FUNCTION '' @ quoted (''_notify_'' @ id_suffix (wt_id w)) @ ''() RETURNS TRIGGER AS $$'' @ newline @
     ''BEGIN'' @ newline @
     ''  PERFORM pg_notify('' @ [sq] @ channel_name (wt_id w) @ [sq] @ '', '' @ [sq, sq] @ '');'' @ newline @
     ''  RETURN NULL;'' @ newline @
     ''END;'' @ newline @
     ''$$ LANGUAGE plpgsql;'' @ newline @
     ''CREATE OR REPLACE TRIGGER '' @ quoted (''_notify_trigger_'' @ id_suffix (wt_id w)) @ newline @
     ''AFTER INSERT OR UPDATE OR DELETE ON '' @ quoted (wt_schema w) @ ''.'' @ quoted (wt_table w) @ newline @
     ''FOR EACH STATEMENT EXECUTE FUNCTION '' @ quoted (''_notify_'' @ id_suffix (wt_id w)) @ ''();''"

definition teardown_sql :: "watched \<Rightarrow> string" where
  "teardown_sql w =
     ''DROP TRIGGER IF EXISTS '' @ quoted (''_notify_trigger_'' @ id_suffix (wt_id w)) @ '' ON '' @
       quoted (wt_schema w) @ ''.'' @ quoted (wt_table w) @ '';'' @ newline @
     ''DROP FUNCTION IF EXISTS '' @ quoted (''_notify_'' @ id_suffix (wt_id w)) @ ''()''"

definition create_view_sql :: "string \<Rightarrow> string \<Rightarrow> string" where
  "create_view_sql view formatted = ''CREATE VIEW '' @ quoted view @ '' AS '' @ formatted"

definition drop_view_sql :: "string \<Rightarrow> string" where
  "drop_view_sql view = ''DROP VIEW IF EXISTS '' @ quoted view"

section \<open>State\<close>

datatype live_action =
    CreateView string string
  | CreateTrigger watched
  | DropTrigger watched
  | DropView string

fun action_sql :: "live_action \<Rightarrow> string" where
  "action_sql (CreateView view formatted) = create_view_sql view formatted"
| "action_sql (CreateTrigger w) = trigger_ddl w"
| "action_sql (DropTrigger w) = teardown_sql w"
| "action_sql (DropView view) = drop_view_sql view"

type_synonym counts = "table_id \<Rightarrow> nat option"

record live =
  lv_counts :: counts
  lv_log :: "live_action list"

record live_handle =
  lq_view :: string
  lq_watched :: "watched list"
  lq_tokens :: "(string \<times> u64) list"

section \<open>Subscribing\<close>

text \<open>Counting a table, and whether it is the first.\<close>

definition add_watch :: "table_id \<Rightarrow> counts \<Rightarrow> counts \<times> bool" where
  "add_watch t m = (let c = (case m t of None \<Rightarrow> 0 | Some c \<Rightarrow> c) + 1 in (m(t \<mapsto> c), c = 1))"

text \<open>The loop over the watched tables: the trigger of a table that is new to the map is created.\<close>

fun watch_loop ::
  "(watched \<Rightarrow> unit res) \<Rightarrow> watched list \<Rightarrow> counts \<Rightarrow> watched list \<Rightarrow> unit res \<times> counts \<times> watched list" where
  "watch_loop ddl [] m fresh = (Inr (), m, fresh)"
| "watch_loop ddl (w # ws) m fresh =
     (case add_watch (wt_id w) m of
        (m, True) \<Rightarrow>
          (case ddl w of
             Inl e \<Rightarrow> (Inl e, m, fresh)
           | Inr _ \<Rightarrow> watch_loop ddl ws m (fresh @ [w]))
      | (m, False) \<Rightarrow> watch_loop ddl ws m fresh)"

fun listen_loop :: "(string \<Rightarrow> u64 res) \<Rightarrow> watched list \<Rightarrow> (string \<times> u64) list \<Rightarrow> (string \<times> u64) list res" where
  "listen_loop lst [] tokens = Inr tokens"
| "listen_loop lst (w # ws) tokens =
     bindR (lst (channel_name (wt_id w)))
       (\<lambda>token. listen_loop lst ws (tokens @ [(channel_name (wt_id w), token)]))"

text \<open>
  What the calls return: everything up to the list of watched tables (the literals, BEGIN, the view, the query), the
  statement for a trigger, COMMIT, \<open>listen\<close>, and the first read of the view.
\<close>

record live_calls =
  lc_tables :: "watched list res"
  lc_ddl :: "watched \<Rightarrow> unit res"
  lc_commit :: "unit res"
  lc_listen :: "string \<Rightarrow> u64 res"
  lc_rows :: "unit res"

text \<open>
  \<open>live_query\<close>. The view and the triggers are made in one transaction, which an error on the way rolls back; the counts
  are not part of it.
\<close>

definition live_query :: "live_calls \<Rightarrow> string \<Rightarrow> string \<Rightarrow> (live, live_handle) act" where
  "live_query calls view formatted s =
     (case lc_tables calls of
        Inl e \<Rightarrow> (Inl e, s)
      | Inr ws \<Rightarrow>
          (case watch_loop (lc_ddl calls) ws (lv_counts s) [] of
             (r, m, fresh) \<Rightarrow>
               let s = s\<lparr>lv_counts := m\<rparr> in
               (case bindR r (\<lambda>_. lc_commit calls) of
                  Inl e \<Rightarrow> (Inl e, s)
                | Inr _ \<Rightarrow>
                    let s = s\<lparr>lv_log := lv_log s @ CreateView view formatted # map CreateTrigger fresh\<rparr> in
                    (bindR (listen_loop (lc_listen calls) ws []) (\<lambda>tokens.
                     bindR (lc_rows calls) (\<lambda>_.
                       Inr \<lparr>lq_view = view, lq_watched = ws, lq_tokens = tokens\<rparr>)), s))))"

section \<open>Unsubscribing\<close>

text \<open>Counting a table down, and whether its trigger has to go.\<close>

definition drop_watch :: "table_id \<Rightarrow> counts \<Rightarrow> counts \<times> bool" where
  "drop_watch t m =
     (case m t of
        None \<Rightarrow> (m, False)
      | Some c \<Rightarrow> if c > 1 then (m(t \<mapsto> c - 1), False) else (m(t := None), True))"

definition unsub_count :: "watched \<Rightarrow> live \<Rightarrow> bool \<times> live" where
  "unsub_count w s = (case drop_watch (wt_id w) (lv_counts s) of (m, teardown) \<Rightarrow> (teardown, s\<lparr>lv_counts := m\<rparr>))"

definition run_action :: "(live_action \<Rightarrow> unit res) \<Rightarrow> live_action \<Rightarrow> (live, unit) act" where
  "run_action exec a s =
     (case exec a of Inl e \<Rightarrow> (Inl e, s) | Inr _ \<Rightarrow> (Inr (), s\<lparr>lv_log := lv_log s @ [a]\<rparr>))"

definition unsub_table :: "(live_action \<Rightarrow> unit res) \<Rightarrow> watched \<Rightarrow> (live, unit) act" where
  "unsub_table exec w s =
     (case unsub_count w s of
        (True, s) \<Rightarrow> run_action exec (DropTrigger w) s
      | (False, s) \<Rightarrow> (Inr (), s))"

definition unsubscribe ::
  "(string \<times> u64 \<Rightarrow> unit res) \<Rightarrow> (live_action \<Rightarrow> unit res) \<Rightarrow> live_handle \<Rightarrow> (live, unit) act" where
  "unsubscribe unlist exec q =
     bindA (forA (lq_tokens q) (\<lambda>t. liftA (unlist t))) (\<lambda>_.
     bindA (forA (lq_watched q) (unsub_table exec)) (\<lambda>_.
       run_action exec (DropView (lq_view q))))"

text \<open>\<open>sweep_live_views\<close>: the views an earlier process left are dropped when the database is opened.\<close>

definition sweep_live_views :: "(live_action \<Rightarrow> unit res) \<Rightarrow> string list res \<Rightarrow> (live, unit) act" where
  "sweep_live_views exec names =
     bindA (liftA names) (\<lambda>names. forA names (\<lambda>name. run_action exec (DropView name)))"

section \<open>What the database holds\<close>

text \<open>The tables whose trigger the statements have created and not dropped, and the views.\<close>

fun trigger_step :: "table_id set \<Rightarrow> live_action \<Rightarrow> table_id set" where
  "trigger_step ts (CreateTrigger w) = insert (wt_id w) ts"
| "trigger_step ts (DropTrigger w) = ts - {wt_id w}"
| "trigger_step ts _ = ts"

definition triggers :: "live_action list \<Rightarrow> table_id set" where
  "triggers log = foldl trigger_step {} log"

fun view_step :: "string set \<Rightarrow> live_action \<Rightarrow> string set" where
  "view_step vs (CreateView view f) = insert view vs"
| "view_step vs (DropView view) = vs - {view}"
| "view_step vs _ = vs"

definition views :: "live_action list \<Rightarrow> string set" where
  "views log = foldl view_step {} log"

section \<open>Lemmas\<close>

definition ids :: "watched list \<Rightarrow> table_id set" where
  "ids ws = wt_id ` set ws"

lemma ids_simps [simp]: "ids [] = {}" "ids (w # ws) = insert (wt_id w) (ids ws)"
  by (simp_all add: ids_def)

lemma triggers_simps [simp]:
  "triggers [] = {}" "triggers (log @ [a]) = trigger_step (triggers log) a"
  by (simp_all add: triggers_def)

lemma views_simps [simp]: "views [] = {}" "views (log @ [a]) = view_step (views log) a"
  by (simp_all add: views_def)

lemma triggers_create: "triggers (log @ map CreateTrigger ws) = triggers log \<union> ids ws"
  by (induction ws rule: rev_induct) (auto simp: append_assoc [symmetric] ids_def simp del: append_assoc)

lemma views_create: "views (log @ map CreateTrigger ws) = views log"
  by (induction ws rule: rev_induct) (auto simp: append_assoc [symmetric] simp del: append_assoc)

text \<open>Counting up with no failure: a table is new when it has no count.\<close>

lemma watch_loop_ok:
  assumes "distinct (map wt_id ws)" and "\<forall>w \<in> set ws. is_ok (ddl w)" and "\<forall>t. m t \<noteq> Some 0"
  shows "watch_loop ddl ws m fresh =
    (Inr (), \<lambda>t. if t \<in> ids ws then Some (Suc (case m t of None \<Rightarrow> 0 | Some c \<Rightarrow> c)) else m t,
     fresh @ filter (\<lambda>w. m (wt_id w) = None) ws)"
  using assms
proof (induction ws arbitrary: m fresh)
  case (Cons w ws)
  let ?m = "m(wt_id w \<mapsto> Suc (case m (wt_id w) of None \<Rightarrow> 0 | Some c \<Rightarrow> c))"
  have notin: "wt_id w \<notin> ids ws" using Cons.prems(1) by (simp add: ids_def)
  have new: "add_watch (wt_id w) m = (?m, m (wt_id w) = None)"
  proof (cases "m (wt_id w)")
    case (Some c)
    then have "c \<noteq> 0" using spec [OF Cons.prems(3), of "wt_id w"] by auto
    then show ?thesis using Some by (simp add: add_watch_def Let_def)
  qed (simp add: add_watch_def Let_def)
  have d: "distinct (map wt_id ws)" "\<forall>w \<in> set ws. is_ok (ddl w)" using Cons.prems(1,2) by simp_all
  have pos: "\<forall>t. ?m t \<noteq> Some 0" using Cons.prems(3) by simp
  have ih: "watch_loop ddl ws ?m fr =
    (Inr (), \<lambda>t. if t \<in> ids ws then Some (Suc (case ?m t of None \<Rightarrow> 0 | Some c \<Rightarrow> c)) else ?m t,
     fr @ filter (\<lambda>w. ?m (wt_id w) = None) ws)" for fr
    by (rule Cons.IH [OF d pos])
  have ne: "wt_id w' \<noteq> wt_id w" if "w' \<in> set ws" for w' using notin that by (metis ids_def imageI)
  have f: "filter (\<lambda>w'. ?m (wt_id w') = None) ws = filter (\<lambda>w'. m (wt_id w') = None) ws"
    by (intro filter_cong) (simp_all add: ne)
  have t: "(\<lambda>t. if t \<in> ids ws then Some (Suc (case ?m t of None \<Rightarrow> 0 | Some c \<Rightarrow> c)) else ?m t) =
      (\<lambda>t. if t \<in> ids (w # ws) then Some (Suc (case m t of None \<Rightarrow> 0 | Some c \<Rightarrow> c)) else m t)"
    using notin by auto
  obtain u where u: "ddl w = Inr u" using Cons.prems(2) by (auto simp: is_ok_iff)
  show ?case
  proof (cases "m (wt_id w) = None")
    case True
    then have step: "watch_loop ddl (w # ws) m fresh = watch_loop ddl ws ?m (fresh @ [w])"
      by (simp add: new u del: fun_upd_apply)
    show ?thesis unfolding step ih t f using True by simp
  next
    case False
    then have "(m (wt_id w) = None) = False" by simp
    then have step: "watch_loop ddl (w # ws) m fresh = watch_loop ddl ws ?m fresh"
      by (simp only: watch_loop.simps new prod.case bool.case)
    show ?thesis unfolding step ih t f using False by simp
  qed
qed simp

lemma drop_watch_eq:
  assumes "\<forall>t. m t \<noteq> Some 0"
  shows "drop_watch t m = (m(t := (case m t of Some (Suc (Suc c)) \<Rightarrow> Some (Suc c) | _ \<Rightarrow> None)), m t = Some 1)"
proof (cases "m t")
  case None
  then have "m(t := None) = m" by auto
  then show ?thesis using None by (simp add: drop_watch_def)
next
  case (Some c)
  then obtain c' where "c = Suc c'" using assms by (cases c) auto
  then show ?thesis using Some by (cases c') (simp_all add: drop_watch_def)
qed

text \<open>Counting down with no failure: the triggers that go are those of count one.\<close>

lemma unsub_loop_ok:
  assumes "distinct (map wt_id ws)" and "\<forall>a. is_ok (exec a)" and "\<forall>t. lv_counts s t \<noteq> Some 0"
  shows "forA ws (unsub_table exec) s =
    (Inr (), s\<lparr>lv_counts := (\<lambda>t. if t \<in> ids ws then (case lv_counts s t of Some (Suc (Suc c)) \<Rightarrow> Some (Suc c) | _ \<Rightarrow> None)
                                else lv_counts s t),
               lv_log := lv_log s @ map DropTrigger (filter (\<lambda>w. lv_counts s (wt_id w) = Some 1) ws)\<rparr>)"
  using assms
proof (induction ws arbitrary: s)
  case (Cons w ws)
  let ?dec = "\<lambda>m t. case m t of Some (Suc (Suc c)) \<Rightarrow> Some (Suc c) | _ \<Rightarrow> None"
  let ?m = "(lv_counts s)(wt_id w := ?dec (lv_counts s) (wt_id w))"
  let ?s = "s\<lparr>lv_counts := ?m, lv_log := lv_log s @ (if lv_counts s (wt_id w) = Some 1 then [DropTrigger w] else [])\<rparr>"
  obtain u where u: "exec (DropTrigger w) = Inr u" using Cons.prems(2) by (auto simp: is_ok_iff)
  have one: "unsub_table exec w s = (Inr (), ?s)"
    using drop_watch_eq [OF Cons.prems(3), of "wt_id w"] u
    by (cases "lv_counts s (wt_id w) = Some 1") (simp_all add: unsub_table_def unsub_count_def run_action_def)
  have notin: "wt_id w \<notin> ids ws" using Cons.prems(1) by (simp add: ids_def)
  have d: "distinct (map wt_id ws)" using Cons.prems(1) by simp
  have pos: "\<forall>t. lv_counts ?s t \<noteq> Some 0"
  proof
    fix t
    show "lv_counts ?s t \<noteq> Some 0"
      using spec [OF Cons.prems(3), of t] by (cases "t = wt_id w") (simp_all split: option.splits nat.splits)
  qed
  have ih: "forA ws (unsub_table exec) ?s =
    (Inr (), ?s\<lparr>lv_counts := (\<lambda>t. if t \<in> ids ws then ?dec (lv_counts ?s) t else lv_counts ?s t),
               lv_log := lv_log ?s @ map DropTrigger (filter (\<lambda>w. lv_counts ?s (wt_id w) = Some 1) ws)\<rparr>)"
    by (rule Cons.IH [OF d Cons.prems(2) pos])
  have ne: "wt_id w' \<noteq> wt_id w" if "w' \<in> set ws" for w' using notin that by (metis ids_def imageI)
  have f: "filter (\<lambda>w'. ?m (wt_id w') = Some 1) ws = filter (\<lambda>w'. lv_counts s (wt_id w') = Some 1) ws"
    by (intro filter_cong) (simp_all add: ne)
  have t: "(\<lambda>t. if t \<in> ids ws then ?dec ?m t else ?m t) =
      (\<lambda>t. if t \<in> ids (w # ws) then ?dec (lv_counts s) t else lv_counts s t)"
    using notin by auto
  have step: "forA (w # ws) (unsub_table exec) s = forA ws (unsub_table exec) ?s"
    using one by (simp add: bindA_apply)
  have e: "lv_counts ?s = ?m" by simp
  show ?case unfolding step ih e f t by simp
qed simp

section \<open>Live queries one after another\<close>

text \<open>Calls that all succeed; the listeners' tokens are those of the database.\<close>

definition all_ok :: "watched list \<Rightarrow> (string \<Rightarrow> u64) \<Rightarrow> live_calls" where
  "all_ok ws tok = \<lparr>lc_tables = Inr ws, lc_ddl = (\<lambda>_. Inr ()), lc_commit = Inr (), lc_listen = (\<lambda>ch. Inr (tok ch)),
     lc_rows = Inr ()\<rparr>"

datatype live_event = Subscribe string string "watched list" "string \<Rightarrow> u64" | Unsubscribe nat

text \<open>
  The live queries of a process, with those that are active. A view of a name that is taken cannot be created; a query
  lists a table once. \<open>Unsubscribe i\<close> ends the active query at \<open>i\<close>.
\<close>

definition drop_nth :: "nat \<Rightarrow> 'a list \<Rightarrow> 'a list" where
  "drop_nth i xs = take i xs @ drop (Suc i) xs"

fun live_step :: "live_event \<Rightarrow> live \<times> live_handle list \<Rightarrow> (live \<times> live_handle list) option" where
  "live_step (Subscribe view formatted ws tok) (s, qs) =
     (if view \<in> set (map lq_view qs) \<or> \<not> distinct (map wt_id ws) then None
      else case live_query (all_ok ws tok) view formatted s of
             (Inl e, s) \<Rightarrow> None
           | (Inr q, s) \<Rightarrow> Some (s, qs @ [q]))"
| "live_step (Unsubscribe i) (s, qs) =
     (if i < length qs
      then (case unsubscribe (\<lambda>_. Inr ()) (\<lambda>_. Inr ()) (qs ! i) s of
              (Inl e, s) \<Rightarrow> None
            | (Inr _, s) \<Rightarrow> Some (s, drop_nth i qs))
      else None)"

abbreviation live_run :: "live_event list \<Rightarrow> live \<times> live_handle list \<Rightarrow> (live \<times> live_handle list) option" where
  "live_run \<equiv> run_steps live_step"

definition live_start :: live where
  "live_start = \<lparr>lv_counts = (\<lambda>_. None), lv_log = []\<rparr>"

definition watchers :: "table_id \<Rightarrow> live_handle list \<Rightarrow> nat" where
  "watchers t qs = length (filter (\<lambda>q. t \<in> ids (lq_watched q)) qs)"

definition live_ok :: "live \<times> live_handle list \<Rightarrow> bool" where
  "live_ok x \<longleftrightarrow>
     (\<forall>t. lv_counts (fst x) t = (if watchers t (snd x) = 0 then None else Some (watchers t (snd x)))) \<and>
     triggers (lv_log (fst x)) = {t. watchers t (snd x) \<noteq> 0} \<and>
     views (lv_log (fst x)) = lq_view ` set (snd x) \<and> distinct (map lq_view (snd x)) \<and>
     (\<forall>q \<in> set (snd x). distinct (map wt_id (lq_watched q)))"

lemma watchers_append: "watchers t (as @ bs) = watchers t as + watchers t bs"
  by (simp add: watchers_def)

lemma watchers_single: "watchers t [q] = (if t \<in> ids (lq_watched q) then 1 else 0)"
  by (simp add: watchers_def)

lemma drop_nth_split:
  "i < length qs \<Longrightarrow> \<exists>as bs. qs = as @ qs ! i # bs \<and> drop_nth i qs = as @ bs"
  by (intro exI [of _ "take i qs"] exI [of _ "drop (Suc i) qs"]) (simp add: drop_nth_def id_take_nth_drop [symmetric])

lemma triggers_drop: "triggers (log @ map DropTrigger ws) = triggers log - ids ws"
  by (induction ws rule: rev_induct) (auto simp: append_assoc [symmetric] ids_def simp del: append_assoc)

lemma views_drop: "views (log @ map DropTrigger ws) = views log"
  by (induction ws rule: rev_induct) (auto simp: append_assoc [symmetric] simp del: append_assoc)

lemma ids_filter: "ids (filter (\<lambda>w. P (wt_id w)) ws) = {t \<in> ids ws. P t}"
  by (auto simp: ids_def)

lemma listen_loop_ok: "\<exists>ts. listen_loop (\<lambda>ch. Inr (tok ch)) ws tokens = Inr ts"
  by (induction ws arbitrary: tokens) auto

lemma subscribe_ok:
  assumes "live_ok (s, qs)" and "live_step (Subscribe view formatted ws tok) (s, qs) = Some x"
  shows "live_ok x"
proof -
  have ws: "view \<notin> set (map lq_view qs)" "distinct (map wt_id ws)" using assms(2) by (auto split: if_splits)
  note ok = assms(1) [unfolded live_ok_def fst_conv snd_conv]
  have pos: "\<forall>t. lv_counts s t \<noteq> Some 0" using ok by simp
  let ?m = "\<lambda>t. if t \<in> ids ws then Some (Suc (case lv_counts s t of None \<Rightarrow> 0 | Some c \<Rightarrow> c)) else lv_counts s t"
  let ?fresh = "filter (\<lambda>w. lv_counts s (wt_id w) = None) ws"
  have loop: "watch_loop (\<lambda>_. Inr ()) ws (lv_counts s) [] = (Inr (), ?m, ?fresh)"
    using watch_loop_ok [OF ws(2) _ pos, of "\<lambda>_. Inr ()" "[]"] by simp
  obtain ts where ts: "listen_loop (\<lambda>ch. Inr (tok ch)) ws [] = Inr ts" using listen_loop_ok by blast
  let ?q = "\<lparr>lq_view = view, lq_watched = ws, lq_tokens = ts\<rparr>"
  let ?s = "s\<lparr>lv_counts := ?m, lv_log := lv_log s @ CreateView view formatted # map CreateTrigger ?fresh\<rparr>"
  have x: "x = (?s, qs @ [?q])"
    using assms(2) ws unfolding live_step.simps live_query_def all_ok_def
    by (simp add: loop ts)
  have log: "lv_log ?s = (lv_log s @ [CreateView view formatted]) @ map CreateTrigger ?fresh" by simp
  have tr: "triggers (lv_log ?s) = triggers (lv_log s) \<union> {t \<in> ids ws. lv_counts s t = None}"
    unfolding log triggers_create using ids_filter [of "\<lambda>t. lv_counts s t = None" ws] by simp
  have vw: "views (lv_log ?s) = insert view (views (lv_log s))"
    unfolding log views_create by simp
  have n: "watchers t (qs @ [?q]) = watchers t qs + (if t \<in> ids ws then 1 else 0)" for t
    by (simp add: watchers_append watchers_single)
  show ?thesis
    unfolding live_ok_def x fst_conv snd_conv n tr vw
  proof (intro conjI allI ballI)
    fix t
    have "lv_counts s t = (if watchers t qs = 0 then None else Some (watchers t qs))" using ok by blast
    then show "lv_counts ?s t = (if watchers t qs + (if t \<in> ids ws then 1 else 0) = 0 then None
        else Some (watchers t qs + (if t \<in> ids ws then 1 else 0)))"
      by simp
  next
    show "triggers (lv_log s) \<union> {t \<in> ids ws. lv_counts s t = None} =
        {t. watchers t qs + (if t \<in> ids ws then 1 else 0) \<noteq> 0}" using ok by auto
  next
    fix q assume "q \<in> set (qs @ [?q])"
    then show "distinct (map wt_id (lq_watched q))" using ok ws(2) by auto
  qed (use ok ws in auto)
qed

lemma unsubscribe_ok:
  assumes "live_ok (s, qs)" and "live_step (Unsubscribe i) (s, qs) = Some x"
  shows "live_ok x"
proof -
  have i: "i < length qs" using assms(2) by (auto split: if_splits)
  obtain as bs where q: "qs = as @ qs ! i # bs" "drop_nth i qs = as @ bs" using drop_nth_split [OF i] by blast
  let ?q = "qs ! i"
  let ?ws = "lq_watched ?q"
  note ok = assms(1) [unfolded live_ok_def fst_conv snd_conv]
  have d: "distinct (map wt_id ?ws)" using ok i by simp
  have pos: "\<forall>t. lv_counts s t \<noteq> Some 0" using ok by simp
  let ?m = "\<lambda>t. if t \<in> ids ?ws then (case lv_counts s t of Some (Suc (Suc c)) \<Rightarrow> Some (Suc c) | _ \<Rightarrow> None) else lv_counts s t"
  let ?gone = "filter (\<lambda>w. lv_counts s (wt_id w) = Some 1) ?ws"
  have loop: "forA ?ws (unsub_table (\<lambda>_. Inr ())) s = (Inr (), s\<lparr>lv_counts := ?m, lv_log := lv_log s @ map DropTrigger ?gone\<rparr>)"
    by (rule unsub_loop_ok [OF d _ pos]) simp
  have toks: "forA ts (\<lambda>t. liftA (Inr ())) s = (Inr (), s)" for ts :: "(string \<times> u64) list" and s :: live
    by (induction ts) (simp_all add: bindA_apply)
  let ?s = "s\<lparr>lv_counts := ?m, lv_log := (lv_log s @ map DropTrigger ?gone) @ [DropView (lq_view ?q)]\<rparr>"
  have x: "x = (?s, as @ bs)"
    using assms(2) i unfolding live_step.simps unsubscribe_def
    by (simp add: bindA_apply toks loop run_action_def q(2))
  have log: "lv_log ?s = (lv_log s @ map DropTrigger ?gone) @ [DropView (lq_view ?q)]" by simp
  have tr: "triggers (lv_log ?s) = triggers (lv_log s) - {t \<in> ids ?ws. lv_counts s t = Some 1}"
    unfolding log triggers_simps triggers_drop trigger_step.simps using ids_filter [of "\<lambda>t. lv_counts s t = Some 1" ?ws] by simp
  have vw: "views (lv_log ?s) = views (lv_log s) - {lq_view ?q}"
    unfolding log views_simps views_drop view_step.simps ..
  have n: "watchers t qs = watchers t (as @ bs) + (if t \<in> ids ?ws then 1 else 0)" for t
  proof -
    have "watchers t qs = watchers t (as @ [?q] @ bs)" using q(1) by simp
    then show ?thesis by (simp only: watchers_append watchers_single)
  qed
  have dv: "distinct (map lq_view (as @ ?q # bs))" using ok q(1) by simp
  show ?thesis
    unfolding live_ok_def x fst_conv snd_conv tr vw
  proof (intro conjI allI ballI)
    fix t
    have "lv_counts s t = (if watchers t qs = 0 then None else Some (watchers t qs))" using ok by blast
    then show "lv_counts ?s t = (if watchers t (as @ bs) = 0 then None else Some (watchers t (as @ bs)))"
      by (simp add: n split: nat.split)
  next
    show "triggers (lv_log s) - {t \<in> ids ?ws. lv_counts s t = Some 1} = {t. watchers t (as @ bs) \<noteq> 0}"
      using ok n by auto
  next
    show "views (lv_log s) - {lq_view ?q} = lq_view ` set (as @ bs)"
    proof -
      have "views (lv_log s) = lq_view ` set (as @ ?q # bs)" using ok q(1) by simp
      moreover have "lq_view ?q \<notin> lq_view ` set (as @ bs)" using dv by auto
      ultimately show ?thesis by auto
    qed
  next
    show "distinct (map lq_view (as @ bs))" using dv by auto
  next
    fix p assume "p \<in> set (as @ bs)"
    then have "p \<in> set qs" using q(1) by (metis UnCI UnE insertCI list.simps(15) set_append)
    then show "distinct (map wt_id (lq_watched p))" using ok by blast
  qed
qed

interpretation serial: machine live_step "\<lambda>_. True" live_ok
proof
  fix x ev y
  assume ok: "live_ok x" and step: "live_step ev x = Some y"
  obtain s qs where x: "x = (s, qs)" by fastforce
  show "live_ok y" using subscribe_ok unsubscribe_ok ok step unfolding x by (cases ev) blast+
qed

lemma live_start_ok: "live_ok (live_start, [])"
  by (simp add: live_ok_def live_start_def watchers_def)


definition demo_table :: "u32 \<Rightarrow> watched" where
  "demo_table n = \<lparr>wt_id = (1, n), wt_schema = ''public'', wt_table = ''t''\<rparr>"


text \<open>
  Two ways to lose the trigger of a watched table. The count outlives a rolled-back transaction: after a failed COMMIT the
  next live query on the table counts two, creates no trigger and reports success. And the count and the DROP TRIGGER of
  \<open>unsubscribe\<close> are two steps: a live query that starts between them makes a trigger that the DROP then removes.
\<close>

theorem live_trigger_lost:
  "(let w = demo_table 1;
        s1 = snd (live_query ((all_ok [w] (\<lambda>_. 0))\<lparr>lc_commit := Inl Closed\<rparr>) ''v1'' ''SELECT 1'' live_start);
        (r2, s2) = live_query (all_ok [w] (\<lambda>_. 0)) ''v2'' ''SELECT 1'' s1
    in is_ok r2 \<and> lv_counts s2 (wt_id w) = Some 2 \<and> wt_id w \<notin> triggers (lv_log s2)) \<and>
   (let w = demo_table 1;
        s1 = snd (live_query (all_ok [w] (\<lambda>_. 0)) ''v1'' ''SELECT 1'' live_start);
        (teardown, s2) = unsub_count w s1;
        (r3, s3) = live_query (all_ok [w] (\<lambda>_. 0)) ''v2'' ''SELECT 1'' s2;
        s4 = snd (run_action (\<lambda>_. Inr ()) (DropTrigger w) s3)
    in teardown \<and> is_ok r3 \<and> lv_counts s4 (wt_id w) = Some 1 \<and> wt_id w \<notin> triggers (lv_log s4))"
  by (simp add: live_query_def all_ok_def add_watch_def live_start_def demo_table_def Let_def unsub_count_def
      drop_watch_def run_action_def triggers_def)

end
