(* ===== verification/Refresh.thy ===== *)
theory Refresh
  imports Live
begin

text \<open>
  The refresh thread of \<^verbatim>\<open>live/mod.rs\<close>. A live query has a channel of wake-ups, which the listeners of its tables,
  \<open>refresh\<close> and \<open>unsubscribe\<close> write to, and a thread that drains the channel, reads the view again and calls the
  callback. The rows the view would give at a moment are part of the state, so that a call can be compared with them.
\<close>

section \<open>State and events\<close>

text \<open>
  Where the thread is: in \<open>recv\<close>, about to read the view, about to call the callback with rows, or ended. The first read
  and call are made by \<open>live_query\<close> itself, before it starts the thread, and are the same two steps.
\<close>

datatype 'r phase = Waiting | Reading | Calling 'r | Ended

record 'r refresher =
  rf_phase :: "'r phase"
  rf_due :: nat
  rf_wakes :: nat
  rf_done :: bool
  rf_open :: bool
  rf_rows :: 'r
  rf_calls :: "'r list"

datatype 'r refresh_event =
    Changed 'r
  | Notified
  | Refresh
  | Unsubscribed
  | SendersGone
  | Taken
  | Hangup
  | Read
  | ReadFailed
  | Called

text \<open>
  \<open>Changed\<close>: the view has other rows and a notification is due. \<open>Notified\<close>: it arrives and the listener is called, which
  sends a wake-up unless the query is done.
  \<open>SendersGone\<close>: the handle and the listeners are dropped, after which \<open>recv\<close> fails once the channel is empty (\<open>Hangup\<close>).
  \<open>Taken\<close>: \<open>recv\<close> succeeds, the channel is drained, and the thread ends if the query is done. A wake-up
  sent after the thread has ended is lost.
\<close>

definition woken :: "'r refresher \<Rightarrow> 'r refresher" where
  "woken s = s\<lparr>rf_wakes := rf_wakes s + 1\<rparr>"

fun refresh_step :: "'r refresh_event \<Rightarrow> 'r refresher \<Rightarrow> 'r refresher option" where
  "refresh_step (Changed rows) s =
     Some (s\<lparr>rf_rows := rows, rf_due := rf_due s + 1\<rparr>)"
| "refresh_step Notified s =
     (if 0 < rf_due s
      then let s = s\<lparr>rf_due := rf_due s - 1\<rparr> in Some (if rf_open s \<and> \<not> rf_done s then woken s else s)
      else None)"
| "refresh_step Refresh s = (if rf_open s then Some (woken s) else None)"
| "refresh_step Unsubscribed s = (if rf_open s then Some (woken (s\<lparr>rf_done := True\<rparr>)) else None)"
| "refresh_step SendersGone s = Some (s\<lparr>rf_open := False\<rparr>)"
| "refresh_step Taken s =
     (if rf_phase s = Waiting \<and> 0 < rf_wakes s
      then Some (s\<lparr>rf_wakes := 0, rf_phase := (if rf_done s then Ended else Reading)\<rparr>)
      else None)"
| "refresh_step Hangup s =
     (if rf_phase s = Waiting \<and> rf_wakes s = 0 \<and> \<not> rf_open s then Some (s\<lparr>rf_phase := Ended\<rparr>) else None)"
| "refresh_step Read s = (if rf_phase s = Reading then Some (s\<lparr>rf_phase := Calling (rf_rows s)\<rparr>) else None)"
| "refresh_step ReadFailed s = (if rf_phase s = Reading then Some (s\<lparr>rf_phase := Ended\<rparr>) else None)"
| "refresh_step Called s =
     (case rf_phase s of
        Calling rows \<Rightarrow> Some (s\<lparr>rf_calls := rf_calls s @ [rows], rf_phase := Waiting\<rparr>)
      | _ \<Rightarrow> None)"

abbreviation refresh_run :: "'r refresh_event list \<Rightarrow> 'r refresher \<Rightarrow> 'r refresher option" where
  "refresh_run \<equiv> run_steps refresh_step"

definition refresh_start :: "'r \<Rightarrow> 'r refresher" where
  "refresh_start rows =
     \<lparr>rf_phase = Reading, rf_due = 0, rf_wakes = 0, rf_done = False, rf_open = True, rf_rows = rows, rf_calls = []\<rparr>"

section \<open>No change is missed\<close>

text \<open>While the query is watched, no notification is due and no wake-up is in the channel, the rows read or shown last are the current ones.\<close>

definition watching :: "'r refresher \<Rightarrow> bool" where
  "watching s \<longleftrightarrow> rf_open s \<and> \<not> rf_done s"

definition refresh_ok :: "'r refresher \<Rightarrow> bool" where
  "refresh_ok s \<longleftrightarrow> (watching s \<and> rf_due s = 0 \<and> rf_wakes s = 0 \<longrightarrow>
     (case rf_phase s of
        Waiting \<Rightarrow> rf_calls s \<noteq> [] \<and> last (rf_calls s) = rf_rows s
      | Calling rows \<Rightarrow> rows = rf_rows s
      | _ \<Rightarrow> True))"

text \<open>The callback calls that are still to come once the query is done: the one under way.\<close>

fun under_way :: "'r phase \<Rightarrow> nat" where
  "under_way Reading = 1"
| "under_way (Calling _) = 1"
| "under_way _ = 0"

lemmas refresh_unfold = refresh_ok_def watching_def woken_def Let_def

interpretation kept: machine refresh_step "\<lambda>_. True" refresh_ok
proof
  fix s s' :: "'r refresher" and ev
  assume "refresh_ok s" "refresh_step ev s = Some s'"
  then show "refresh_ok s'"
    by (cases ev) (auto simp: refresh_unfold split: if_splits phase.splits)
qed

interpretation stopping: machine refresh_step "\<lambda>_. True"
  "\<lambda>s. rf_done s \<and> length (rf_calls s) + under_way (rf_phase s) \<le> n" for n
proof
  fix s s' :: "'r refresher" and ev
  assume "rf_done s \<and> length (rf_calls s) + under_way (rf_phase s) \<le> n" "refresh_step ev s = Some s'"
  then show "rf_done s' \<and> length (rf_calls s') + under_way (rf_phase s') \<le> n"
    by (cases ev) (auto simp: woken_def Let_def split: if_splits phase.splits)
qed

lemma refresh_start_ok: "refresh_ok (refresh_start rows)"
  by (simp add: refresh_ok_def refresh_start_def)

lemma refresh_kept: "refresh_run evs (refresh_start rows) = Some s \<Longrightarrow> refresh_ok s"
  by (rule kept.run_inv [OF _ _ refresh_start_ok]) (simp_all add: list_all_iff)

text \<open>What the thread does alone, from each of its phases: a round, or the rest of one and another.\<close>

fun rounds :: "'r refresher \<Rightarrow> 'r refresh_event list" where
  "rounds s =
     (let again = (if rf_wakes s = 0 then [] else [Taken, Read, Called]) in
      case rf_phase s of
        Waiting \<Rightarrow> again
      | Reading \<Rightarrow> [Read, Called] @ again
      | Calling _ \<Rightarrow> Called # again
      | Ended \<Rightarrow> [])"

lemma rounds_catch_up:
  assumes "refresh_ok s" "watching s" "rf_due s = 0" "rf_phase s \<noteq> Ended"
  shows "\<exists>s'. refresh_run (rounds s) s = Some s' \<and> rf_phase s' = Waiting \<and> rf_wakes s' = 0 \<and>
    rf_rows s' = rf_rows s \<and> rf_calls s' \<noteq> [] \<and> last (rf_calls s') = rf_rows s"
  using assms by (cases "rf_phase s") (auto simp: refresh_ok_def watching_def)



text \<open>
  Once \<open>unsubscribe\<close> has marked the query as done, the callback is called at most once more, for a read that was under way.
  And one failed read ends the thread for good: later changes reach nobody.
\<close>

theorem refresh_stops:
  assumes "refresh_step Unsubscribed s = Some s1" "refresh_run evs s1 = Some s2"
  shows "length (rf_calls s2) \<le> length (rf_calls s) + under_way (rf_phase s)"
proof -
  have "s1 = woken (s\<lparr>rf_done := True\<rparr>)" using assms(1) by (simp split: if_splits)
  then show ?thesis
    using stopping.run_inv [OF assms(2), of "length (rf_calls s) + under_way (rf_phase s)"]
    by (simp add: woken_def list_all_iff)
qed

theorem refresh_stops_witness:
  "\<exists>s1 s2. refresh_step Unsubscribed (refresh_start (1::nat)) = Some s1 \<and>
     refresh_run [Read, Called, Changed 2, Notified, Taken] s1 = Some s2 \<and> length (rf_calls s2) \<le> 1 \<and> rf_phase s2 = Ended"
proof -
  obtain s1 s2 where s: "refresh_step Unsubscribed (refresh_start (1::nat)) = Some s1"
      "refresh_run [Read, Called, Changed 2, Notified, Taken] s1 = Some s2" "rf_phase s2 = Ended"
    by (simp add: refresh_start_def woken_def Let_def)
  show ?thesis using refresh_stops [OF s(1,2)] s by (auto simp: refresh_start_def)
qed

end
