(* ===== verification/Postmaster.thy ===== *)
theory Postmaster
  imports Pool Conn
begin

text \<open>
  \<^verbatim>\<open>multiple_process/mod.rs\<close>: the child postmaster. Its arguments, the wait until it answers, the ways it is stopped,
  and the pool that is opened on it. The child process, the clock and the file system are parameters: what each look at
  them returns.
\<close>

section \<open>Options\<close>

record mp_options =
  mp_username :: string
  mp_database :: string
  mp_min_connections :: nat
  mp_max_connections :: nat
  mp_extra_connections :: nat
  mp_idle_ttl :: nat
  mp_relaxed_durability :: bool
  mp_start_params :: "string list"
  mp_locale_provider :: locale_provider
  mp_listen_addresses :: "string option"
  mp_port :: "u16 option"

definition default_mp_options :: mp_options where
  "default_mp_options =
     \<lparr>mp_username = ''postgres'', mp_database = ''postgres'', mp_min_connections = 0, mp_max_connections = 5,
      mp_extra_connections = 4, mp_idle_ttl = 300, mp_relaxed_durability = False, mp_start_params = [],
      mp_locale_provider = Libc, mp_listen_addresses = None, mp_port = None\<rparr>"

definition pool_size :: "mp_options \<Rightarrow> nat" where
  "pool_size o' = max (mp_max_connections o') 1"

definition pool_config_of :: "mp_options \<Rightarrow> pool_config" where
  "pool_config_of o' =
     \<lparr>pc_min = min (mp_min_connections o') (pool_size o'), pc_max = pool_size o', pc_idle_ttl = mp_idle_ttl o'\<rparr>"

definition mp_port_of :: "mp_options \<Rightarrow> nat" where
  "mp_port_of o' = (case mp_port o' of None \<Rightarrow> 5432 | Some p \<Rightarrow> unat p)"

definition server_max_connections :: "mp_options \<Rightarrow> nat" where
  "server_max_connections o' = pool_size o' + 2 + mp_extra_connections o'"

text \<open>The arguments of the child.\<close>

definition postmaster_args :: "mp_options \<Rightarrow> string \<Rightarrow> string \<Rightarrow> string list" where
  "postmaster_args o' data_dir sock_dir =
     [''-D'', data_dir, ''-k'', sock_dir,
      ''-c'', ''listen_addresses='' @ (case mp_listen_addresses o' of None \<Rightarrow> [] | Some a \<Rightarrow> a),
      ''-c'', ''port='' @ show_nat (mp_port_of o'),
      ''-c'', ''max_connections='' @ show_nat (server_max_connections o')] @
     (if mp_relaxed_durability o' then [''-c'', ''fsync=off''] else []) @
     concat (map (\<lambda>param. [''-c'', param]) (mp_start_params o'))"

definition sock_path_of :: "mp_options \<Rightarrow> string \<Rightarrow> string" where
  "sock_path_of o' sock_dir = sock_dir @ ''/.s.PGSQL.'' @ show_nat (mp_port_of o')"

definition connection_uri :: "string \<Rightarrow> string \<Rightarrow> string \<Rightarrow> string" where
  "connection_uri user database sock_dir =
     ''postgresql://'' @ user @ ''@localhost/'' @ database @ ''?host='' @ sock_dir"

section \<open>Starting\<close>

text \<open>
  One turn of the wait: the handshake, then what the clock and the child say. The effects are the signals and sleeps.
\<close>

record probe =
  pb_handshake :: "unit res"
  pb_now :: nat
  pb_exit :: "string option"

datatype effect = Sleep nat | Signal string | Reap | RemoveDir

text \<open>\<open>terminate\<close>: the process group gets SIGTERM, then the child is killed and waited for.\<close>

definition terminate :: "effect list" where
  "terminate = [Signal ''SIGTERM'', Sleep 200, Signal ''SIGKILL'', Reap]"

fun wait_ready :: "nat \<Rightarrow> probe list \<Rightarrow> effect list \<Rightarrow> (unit res \<times> effect list) option" where
  "wait_ready deadline [] done = None"
| "wait_ready deadline (p # ps) done =
     (case pb_handshake p of
        Inr _ \<Rightarrow> Some (Inr (), done)
      | Inl e \<Rightarrow>
          if pb_now p < deadline then
            (case pb_exit p of
               Some status \<Rightarrow> Some (Inl (PostmasterStart (''postmaster exited during startup: '' @ status)), done)
             | None \<Rightarrow> wait_ready deadline ps (done @ [Sleep 50]))
          else Some (Inl (PostmasterStart (''postmaster never became ready: '' @ error_to_string e)), done @ terminate))"

text \<open>
  \<open>Server::spawn\<close>: \<open>files\<close> is the result of the directory, its permissions and the log file, \<open>child\<close> of starting the
  process; \<open>began\<close> the clock when the wait begins.
\<close>

definition server_spawn ::
  "mp_options \<Rightarrow> string \<Rightarrow> unit res \<Rightarrow> (string list \<Rightarrow> string + unit) \<Rightarrow> string \<Rightarrow> nat \<Rightarrow> probe list \<Rightarrow>
     (unit res \<times> effect list) option" where
  "server_spawn o' sock_dir files child data_dir began probes =
     (if 96 < length (sock_path_of o' sock_dir)
      then Some (Inl (PostmasterStart (''socket path too long: '' @ sock_path_of o' sock_dir)), [])
      else case files of
        Inl e \<Rightarrow> Some (Inl e, [])
      | Inr _ \<Rightarrow>
          (case child (postmaster_args o' data_dir sock_dir) of
             Inl e \<Rightarrow> Some (Inl (PostmasterStart e), [])
           | Inr _ \<Rightarrow> wait_ready (began + 15000) probes []))"

section \<open>Stopping\<close>

text \<open>
  \<open>shutdown\<close>: SIGINT, then looks at the child until it has exited or ten seconds are over. A look is \<open>Inl\<close> when it fails, or whether the
  child has exited, with the clock.
\<close>

fun shutdown_loop :: "nat \<Rightarrow> ((string + bool) \<times> nat) list \<Rightarrow> effect list \<Rightarrow> effect list option" where
  "shutdown_loop deadline [] done = None"
| "shutdown_loop deadline ((look, now) # looks) done =
     (case look of
        Inr True \<Rightarrow> Some (done @ [RemoveDir])
      | Inr False \<Rightarrow>
          if now < deadline then shutdown_loop deadline looks (done @ [Sleep 50])
          else Some (done @ terminate @ [RemoveDir])
      | Inl _ \<Rightarrow> Some (done @ terminate @ [RemoveDir]))"

definition shutdown :: "nat \<Rightarrow> ((string + bool) \<times> nat) list \<Rightarrow> effect list option" where
  "shutdown began looks = shutdown_loop (began + 10000) looks [Signal ''SIGINT'']"

text \<open>The \<open>Drop\<close> of the server; a look that fails counts as still running.\<close>

definition drop_server :: "string + bool \<Rightarrow> effect list" where
  "drop_server look = (if look = Inr True then [] else terminate) @ [RemoveDir]"

section \<open>Lemmas\<close>

text \<open>The clock between two turns advances by the sleep at least.\<close>

definition clock_ticks :: "nat \<Rightarrow> nat list \<Rightarrow> bool" where
  "clock_ticks began ts \<longleftrightarrow> (\<forall>i < length ts. began + 50 * i \<le> ts ! i)"

lemma clock_ticks_Cons: "clock_ticks began (t # ts) \<Longrightarrow> clock_ticks (began + 50) ts"
  unfolding clock_ticks_def
proof (intro allI impI)
  fix i assume "\<forall>i < length (t # ts). began + 50 * i \<le> (t # ts) ! i" and "i < length ts"
  then show "began + 50 + 50 * i \<le> ts ! i" by (auto dest!: spec [of _ "Suc i"])
qed

lemma wait_ready_ends:
  assumes "clock_ticks began (map pb_now ps)" and "ps \<noteq> []" and "deadline \<le> began + 50 * (length ps - 1)"
  shows "\<exists>r k eff. wait_ready deadline ps done = Some (r, done @ replicate k (Sleep 50) @ eff) \<and> k < length ps \<and>
    (is_ok r \<longleftrightarrow> is_ok (pb_handshake (ps ! k))) \<and> (\<forall>j < k. \<not> is_ok (pb_handshake (ps ! j))) \<and>
    (eff = [] \<or> (eff = terminate \<and> \<not> is_ok r)) \<and> (eff = [] \<and> \<not> is_ok r \<longrightarrow> pb_exit (ps ! k) \<noteq> None)"
  using assms
proof (induction ps arbitrary: began "done")
  case (Cons p ps)
  show ?case
  proof (cases "pb_handshake p")
    case (Inr u)
    then show ?thesis by (intro exI [of _ "Inr ()"] exI [of _ 0] exI [of _ "[]"]) simp
  next
    case (Inl e)
    show ?thesis
    proof (cases "pb_now p < deadline")
      case False
      then show ?thesis
        using Inl
        by (intro exI [of _ "Inl (PostmasterStart (''postmaster never became ready: '' @ error_to_string e))"]
            exI [of _ 0] exI [of _ terminate]) (simp add: terminate_def)
    next
      case True
      show ?thesis
      proof (cases "pb_exit p")
        case (Some status)
        then show ?thesis
          using Inl True
          by (intro exI [of _ "Inl (PostmasterStart (''postmaster exited during startup: '' @ status))"]
              exI [of _ 0] exI [of _ "[]"]) simp
      next
        case None
        have "clock_ticks (began + 50) (map pb_now ps)" using clock_ticks_Cons Cons.prems(1) by simp
        moreover have "ps \<noteq> []"
        proof
          assume "ps = []"
          then show False using Cons.prems True by (simp add: clock_ticks_def)
        qed
        moreover from this have "deadline \<le> began + 50 + 50 * (length ps - 1)"
          using Cons.prems(3) by (cases ps) simp_all
        ultimately obtain r k eff where ih: "wait_ready deadline ps (done @ [Sleep 50]) = Some (r, (done @ [Sleep 50]) @ replicate k (Sleep 50) @ eff)"
            "k < length ps" "is_ok r \<longleftrightarrow> is_ok (pb_handshake (ps ! k))" "\<forall>j < k. \<not> is_ok (pb_handshake (ps ! j))"
            "eff = [] \<or> (eff = terminate \<and> \<not> is_ok r)" "eff = [] \<and> \<not> is_ok r \<longrightarrow> pb_exit (ps ! k) \<noteq> None"
          using Cons.IH [of "began + 50" "done @ [Sleep 50]"] by blast
        have "\<forall>j < Suc k. \<not> is_ok (pb_handshake ((p # ps) ! j))"
          using ih(4) Inl by (auto simp: less_Suc_eq_0_disj)
        then show ?thesis
          using ih Inl True None by (intro exI [of _ r] exI [of _ "Suc k"] exI [of _ eff]) simp
      qed
    qed
  qed
qed simp

text \<open>
  C34. Starting the postmaster ends: with a clock that advances by the sleeps, after at most 301 turns the wait has a result. It
  succeeds with the first handshake that succeeds; when it gives up on a child that still runs, the child has been terminated.
\<close>

theorem postmaster_start_ends:
  assumes "clock_ticks began (map pb_now probes)" and "length probes = 301"
    and "length (sock_path_of o' sock_dir) \<le> 96" and "files = Inr ()" and "child (postmaster_args o' data_dir sock_dir) = Inr ()"
  shows "\<exists>r k eff. server_spawn o' sock_dir files child data_dir began probes = Some (r, replicate k (Sleep 50) @ eff) \<and>
    k < 301 \<and> (is_ok r \<longleftrightarrow> is_ok (pb_handshake (probes ! k))) \<and> (\<forall>j < k. \<not> is_ok (pb_handshake (probes ! j))) \<and>
    (\<not> is_ok r \<longrightarrow> eff = terminate \<or> pb_exit (probes ! k) \<noteq> None)"
proof -
  have "probes \<noteq> []" "began + 15000 \<le> began + 50 * (length probes - 1)" using assms(2) by auto
  then obtain r k eff where w: "wait_ready (began + 15000) probes [] = Some (r, [] @ replicate k (Sleep 50) @ eff)"
      "k < length probes" "is_ok r \<longleftrightarrow> is_ok (pb_handshake (probes ! k))" "\<forall>j < k. \<not> is_ok (pb_handshake (probes ! j))"
      "eff = [] \<or> (eff = terminate \<and> \<not> is_ok r)" "eff = [] \<and> \<not> is_ok r \<longrightarrow> pb_exit (probes ! k) \<noteq> None"
    using wait_ready_ends [OF assms(1), of "began + 15000" "[]"] by blast
  then show ?thesis
    using assms(2-5) by (intro exI [of _ r] exI [of _ k] exI [of _ eff]) (auto simp: server_spawn_def)
qed

theorem postmaster_start_ends_witness:
  "\<exists>r k eff. server_spawn default_mp_options ''/dev/shm/pgl-1-0'' (Inr ()) (\<lambda>_. Inr ()) ''data'' 7
      (map (\<lambda>i. \<lparr>pb_handshake = Inl Closed, pb_now = 7 + 60 * i, pb_exit = None\<rparr>) [0..<301]) =
        Some (r, replicate k (Sleep 50) @ eff) \<and> k < 301 \<and> \<not> is_ok r \<and> eff = terminate"
proof -
  let ?probes = "map (\<lambda>i. \<lparr>pb_handshake = Inl Closed, pb_now = 7 + 60 * i, pb_exit = None\<rparr>) [0..<301]"
  have sp: "length (sock_path_of default_mp_options ''/dev/shm/pgl-1-0'') \<le> 96"
    by (simp add: sock_path_of_def default_mp_options_def mp_port_of_def to_radix.simps)
  obtain r k eff where "server_spawn default_mp_options ''/dev/shm/pgl-1-0'' (Inr ()) (\<lambda>_. Inr ()) ''data'' 7 ?probes =
        Some (r, replicate k (Sleep 50) @ eff)" "k < 301" "is_ok r \<longleftrightarrow> is_ok (pb_handshake (?probes ! k))"
      "\<not> is_ok r \<longrightarrow> eff = terminate \<or> pb_exit (?probes ! k) \<noteq> None"
    using postmaster_start_ends [of 7 ?probes default_mp_options "''/dev/shm/pgl-1-0''" "Inr ()" "\<lambda>_. Inr ()" "''data''"]
    by (auto simp: clock_ticks_def sp)
  then show ?thesis by (intro exI [of _ r] exI [of _ k] exI [of _ eff]) simp
qed

text \<open>
  The pool fits the server: with any options the pool's bounds are in order and it may hold a connection, and in every state
  it reaches its connections, the notification connection and the one connection of a probe stay within the server's
  limit, with the extra connections to spare.
\<close>

theorem pool_fits_server:
  assumes "pool_reach (pool_config_of o') s"
  shows "pc_min (pool_config_of o') \<le> pc_max (pool_config_of o') \<and> 1 \<le> pc_max (pool_config_of o') \<and>
    length (pl_idle s) + length (concat (map conns_of (pl_tasks s))) + spawning s + 2 + mp_extra_connections o' \<le>
      server_max_connections o'"
proof -
  have c: "pc_min (pool_config_of o') \<le> pc_max (pool_config_of o')" "1 \<le> pc_max (pool_config_of o')"
    by (simp_all add: pool_config_of_def pool_size_def)
  have "pool_ok (pool_config_of o') s" by (rule reach_ok [OF assms c(1)])
  then have "length (pl_idle s) + length (concat (map conns_of (pl_tasks s))) + spawning s \<le> pc_max (pool_config_of o')"
    by (simp add: pool_ok_def owned_def)
  then show ?thesis using c by (simp add: server_max_connections_def pool_config_of_def)
qed

theorem pool_fits_server_witness:
  "\<exists>s. pool_run (pool_config_of default_mp_options) [Acquire 0, Spawned 0 True, Acquire 1] (pool_start (pool_config_of default_mp_options) 3) = Some s \<and>
     length (concat (map conns_of (pl_tasks s))) + spawning s + 6 \<le> server_max_connections default_mp_options"
proof -
  obtain s where s: "pool_run (pool_config_of default_mp_options) [Acquire 0, Spawned 0 True, Acquire 1]
      (pool_start (pool_config_of default_mp_options) 3) = Some s"
    by (simp add: pool_eval pool_config_of_def default_mp_options_def pool_size_def)
  have "pool_reach (pool_config_of default_mp_options) s" using run_reach [OF pool_reach.init s] .
  then show ?thesis using pool_fits_server [of default_mp_options s] s by (simp add: default_mp_options_def)
qed

end
