(* ===== verification/Lifecycle.thy ===== *)
theory Lifecycle
  imports Session Gateway Refresh Postmaster
begin

text \<open>
  How the parts come and go: the start and the stop of the socket gateway (\<^verbatim>\<open>socket/mod.rs\<close>) and the slot that
  \<open>unix_uri\<close> and \<open>shutdown\<close> share (\<^verbatim>\<open>db.rs\<close>), the archive of the data directory, and the composition of
  \<open>open_multi_process\<close> (\<^verbatim>\<open>multiple_process/mod.rs\<close>). Files, threads, processes and clocks are parameters.
\<close>

section \<open>Starting and stopping the gateway\<close>

record gateway_handle =
  gh_dir :: string
  gh_path :: string
  gh_uri :: string
  gh_reply :: bytes

definition gateway_query :: string where
  "gateway_query = ''SELECT current_setting('' @ [sq] @ ''server_version'' @ [sq] @ ''), current_user, current_database()''"

text \<open>The texts of the first row; \<open>rows[0]\<close> panics, which is \<open>None\<close>, when there is none.\<close>

definition gateway_texts ::
  "('ty \<Rightarrow> string option \<Rightarrow> string + string) \<Rightarrow> 'ty db_row list \<Rightarrow> (string \<times> string \<times> string) option res" where
  "gateway_texts as_str rows =
     (case rows of
        [] \<Rightarrow> Inr None
      | row # _ \<Rightarrow>
          bindR (row_get as_str row 0) (\<lambda>version.
          bindR (row_get as_str row 1) (\<lambda>user.
          bindR (row_get as_str row 2) (\<lambda>database. Inr (Some (version, user, database))))))"

text \<open>
  \<open>start_gateway\<close>: \<open>dir\<close> is the fresh directory, \<open>files\<close> the result of making it, its permissions and binding the
  socket, \<open>thread\<close> of starting the doorman.
\<close>

definition start_gateway ::
  "'b db_env \<Rightarrow> ('ty, 'v) frontend \<Rightarrow> ('ty \<Rightarrow> string option \<Rightarrow> string + string) \<Rightarrow> string \<Rightarrow> unit res \<Rightarrow> unit res \<Rightarrow>
     (('b, 'k) db, gateway_handle option) act" where
  "start_gateway env fe as_str dir files thread =
     bindA (query_unlocked env fe gateway_query []) (\<lambda>rows.
     bindA (liftA (gateway_texts as_str rows)) (\<lambda>texts.
       case texts of
         None \<Rightarrow> retA None
       | Some (version, user, database) \<Rightarrow>
           let path = dir @ ''/.s.PGSQL.5432'' in
           if 96 < length path then failA (Protocol (''socket path too long: '' @ path))
           else bindA (liftA files) (\<lambda>_. bindA (liftA thread) (\<lambda>_.
             retA (Some \<lparr>gh_dir = dir, gh_path = path, gh_uri = connection_uri user database dir,
                         gh_reply = synth_startup_reply version\<rparr>)))))"

text \<open>
  \<open>stop_doorman\<close>: the flag, a connection that wakes the doorman, then looks at the thread, each with the clock, until it
  has finished or two seconds are over. The result is the number of sleeps of ten milliseconds and whether the
  thread is joined.
\<close>

fun stop_loop :: "nat \<Rightarrow> (bool \<times> nat) list \<Rightarrow> nat \<Rightarrow> (nat \<times> bool) option" where
  "stop_loop deadline [] n = None"
| "stop_loop deadline ((finished, now) # looks) n =
     (if \<not> finished \<and> now < deadline then stop_loop deadline looks (n + 1) else Some (n, finished))"

definition stop_doorman :: "nat \<Rightarrow> (bool \<times> nat) list \<Rightarrow> (nat \<times> bool) option" where
  "stop_doorman began looks = stop_loop (began + 2000) looks 0"

lemma stop_loop_ends:
  assumes "looks \<noteq> []" and "\<forall>i < length looks. began + 10 * i \<le> snd (looks ! i)" and "deadline \<le> began + 10 * (length looks - 1)"
  shows "\<exists>k joined. stop_loop deadline looks n = Some (n + k, joined) \<and> k < length looks"
  using assms
proof (induction looks arbitrary: began n)
  case (Cons look looks)
  obtain fin now where l: "look = (fin, now)" by fastforce
  show ?case
  proof (cases "\<not> fin \<and> now < deadline")
    case True
    have now: "began \<le> now" using Cons.prems(2) l by (auto dest: spec [of _ 0])
    have "looks \<noteq> []" using Cons.prems(3) True now by auto
    moreover have "\<forall>i < length looks. began + 10 + 10 * i \<le> snd (looks ! i)"
      using Cons.prems(2) by (auto dest: spec [of _ "Suc i" for i])
    moreover have "deadline \<le> began + 10 + 10 * (length looks - 1)" using Cons.prems(3) \<open>looks \<noteq> []\<close> by (cases looks) simp_all
    ultimately obtain k joined where "stop_loop deadline looks (n + 1) = Some (n + 1 + k, joined)" "k < length looks"
      using Cons.IH [of "began + 10" "n + 1"] by blast
    then show ?thesis using True l by (intro exI [of _ "Suc k"] exI [of _ joined]) simp
  qed (use l in auto)
qed simp

text \<open>With a clock that advances by the sleeps, stopping the doorman sleeps at most 200 times.\<close>

theorem stop_doorman_ends:
  assumes "length looks = 201" and "\<forall>i < 201. began + 10 * i \<le> snd (looks ! i)"
  shows "\<exists>k joined. stop_doorman began looks = Some (k, joined) \<and> k \<le> 200"
proof -
  have "looks \<noteq> []" "began + 2000 \<le> began + 10 * (length looks - 1)" using assms(1) by auto
  then show ?thesis
    using stop_loop_ends [of looks began "began + 2000" 0] assms unfolding stop_doorman_def by fastforce
qed

theorem stop_doorman_ends_witness:
  "\<exists>k joined. stop_doorman 5 (map (\<lambda>i. (i = 3, 5 + 11 * i)) [0..<201]) = Some (k, joined) \<and> k \<le> 200"
  by (rule stop_doorman_ends) auto

section \<open>The slot of the gateway\<close>

text \<open>
  Tasks that ask for the address. A gateway is named by the counter that also names its directory. \<open>Look\<close>: the slot is
  read, and the address returned when there is a gateway. Otherwise the task starts one (\<open>Started\<close>, or a failure), and
  \<open>Put\<close> stores it unless the slot was filled in the meantime: then the task answers with the address in the slot and
  its own gateway is dropped. \<open>Shut\<close> is the first step of \<open>shutdown\<close>: the gateway in the slot is dropped.
\<close>

datatype asker = Idle | Starting | Fresh nat | Answered nat | NoAnswer

record slot =
  sl_slot :: "nat option"
  sl_askers :: "nat \<Rightarrow> asker"
  sl_running :: "nat set"
  sl_next :: nat

datatype slot_event = Look nat | Started nat bool | Put nat | Shut

definition asks :: "nat \<Rightarrow> asker \<Rightarrow> slot \<Rightarrow> slot" where
  "asks t a s = s\<lparr>sl_askers := (sl_askers s)(t := a)\<rparr>"

fun slot_step :: "slot_event \<Rightarrow> slot \<Rightarrow> slot option" where
  "slot_step (Look t) s =
     (if sl_askers s t = Idle
      then Some (asks t (case sl_slot s of Some g \<Rightarrow> Answered g | None \<Rightarrow> Starting) s)
      else None)"
| "slot_step (Started t ok) s =
     (if sl_askers s t = Starting
      then let g = sl_next s; s = s\<lparr>sl_next := g + 1\<rparr> in
           Some (if ok then asks t (Fresh g) (s\<lparr>sl_running := insert g (sl_running s)\<rparr>) else asks t NoAnswer s)
      else None)"
| "slot_step (Put t) s =
     (case sl_askers s t of
        Fresh g \<Rightarrow>
          (case sl_slot s of
             None \<Rightarrow> Some (asks t (Answered g) (s\<lparr>sl_slot := Some g\<rparr>))
           | Some h \<Rightarrow> Some (asks t (Answered h) (s\<lparr>sl_running := sl_running s - {g}\<rparr>)))
      | _ \<Rightarrow> None)"
| "slot_step Shut s =
     Some (s\<lparr>sl_running := sl_running s - set_option (sl_slot s), sl_slot := None\<rparr>)"

definition slot_start :: slot where
  "slot_start = \<lparr>sl_slot = None, sl_askers = (\<lambda>_. Idle), sl_running = {}, sl_next = 0\<rparr>"

abbreviation slot_run :: "slot_event list \<Rightarrow> slot \<Rightarrow> slot option" where
  "slot_run \<equiv> run_steps slot_step"

text \<open>What runs is in the slot or on its way there, and every gateway on its way has a number of its own.\<close>

definition fresh_gateways :: "slot \<Rightarrow> nat set" where
  "fresh_gateways s = {g. \<exists>t. sl_askers s t = Fresh g}"

definition slot_ok :: "slot \<Rightarrow> bool" where
  "slot_ok s \<longleftrightarrow>
     sl_running s = set_option (sl_slot s) \<union> fresh_gateways s \<and>
     set_option (sl_slot s) \<inter> fresh_gateways s = {} \<and>
     (\<forall>g \<in> sl_running s. g < sl_next s) \<and>
     (\<forall>t u g. sl_askers s t = Fresh g \<and> sl_askers s u = Fresh g \<longrightarrow> t = u)"

definition answers_agree :: "slot \<Rightarrow> bool" where
  "answers_agree s \<longleftrightarrow> (\<forall>t g. sl_askers s t = Answered g \<longrightarrow> sl_slot s = Some g)"

lemma fresh_asks:
  "fresh_gateways (asks t a s) = {g. a = Fresh g} \<union> {g. \<exists>u. u \<noteq> t \<and> sl_askers s u = Fresh g}"
  by (auto simp: fresh_gateways_def asks_def)

text \<open>A task moves on: the gateways on their way are those of the others, and its own.\<close>

lemma fresh_others:
  assumes "slot_ok s" "sl_askers s t = Fresh g"
  shows "{h. \<exists>u. u \<noteq> t \<and> sl_askers s u = Fresh h} = fresh_gateways s - {g}"
  using assms unfolding slot_ok_def fresh_gateways_def by (auto, metis asker.inject(1))

lemma fresh_not:
  assumes "\<forall>g. sl_askers s t \<noteq> Fresh g"
  shows "{h. \<exists>u. u \<noteq> t \<and> sl_askers s u = Fresh h} = fresh_gateways s"
  using assms unfolding fresh_gateways_def by metis

lemma started_ok:
  assumes "slot_ok s" "slot_step (Started t good) s = Some s'"
  shows "slot_ok s'"
proof -
  note ok = assms(1) [unfolded slot_ok_def]
  have idle: "sl_askers s t = Starting" using assms(2) by (simp split: if_splits)
  have new: "sl_next s \<notin> sl_running s" using ok by blast
  show ?thesis
  proof (cases good)
    case True
    let ?s = "s\<lparr>sl_next := sl_next s + 1, sl_running := insert (sl_next s) (sl_running s)\<rparr>"
    have s': "s' = asks t (Fresh (sl_next s)) ?s" using assms(2) True idle by (simp add: Let_def)
    have "fresh_gateways s' = insert (sl_next s) (fresh_gateways s)"
      unfolding s' fresh_asks using fresh_not [of s t] idle by auto
    moreover have "sl_askers s u \<noteq> Fresh (sl_next s)" for u using new ok by (auto simp: fresh_gateways_def)
    ultimately show ?thesis using ok new unfolding slot_ok_def s' by (auto simp: asks_def less_Suc_eq)
  next
    case False
    have s': "s' = asks t NoAnswer (s\<lparr>sl_next := sl_next s + 1\<rparr>)" using assms(2) False idle by (simp add: Let_def)
    have "fresh_gateways s' = fresh_gateways s"
      unfolding s' fresh_asks using fresh_not [of s t] idle by auto
    then show ?thesis using ok unfolding slot_ok_def s' by (auto simp: asks_def less_Suc_eq)
  qed
qed

lemma put_ok:
  assumes "slot_ok s" "slot_step (Put t) s = Some s'"
  shows "slot_ok s'"
proof -
  note ok = assms(1) [unfolded slot_ok_def]
  obtain g where g: "sl_askers s t = Fresh g" using assms(2) by (auto split: asker.splits)
  show ?thesis
  proof (cases "sl_slot s")
    case None
    then have s': "s' = asks t (Answered g) (s\<lparr>sl_slot := Some g\<rparr>)" using assms(2) g by simp
    have "fresh_gateways s' = fresh_gateways s - {g}" unfolding s' fresh_asks using fresh_others [OF assms(1) g] by simp
    moreover have "g \<in> fresh_gateways s" using g by (auto simp: fresh_gateways_def)
    ultimately show ?thesis using ok None unfolding slot_ok_def s' by (auto simp: asks_def)
  next
    case (Some h)
    then have s': "s' = asks t (Answered h) (s\<lparr>sl_running := sl_running s - {g}\<rparr>)" using assms(2) g by simp
    have "fresh_gateways s' = fresh_gateways s - {g}" unfolding s' fresh_asks using fresh_others [OF assms(1) g] by simp
    moreover have "g \<in> fresh_gateways s" using g by (auto simp: fresh_gateways_def)
    ultimately show ?thesis using ok Some unfolding slot_ok_def s' by (auto simp: asks_def)
  qed
qed

lemma slot_keeps_ok:
  assumes "slot_ok s" "slot_step ev s = Some s'"
  shows "slot_ok s'"
proof -
  note ok = assms(1) [unfolded slot_ok_def]
  show ?thesis
  proof (cases ev)
    case (Look t)
    then have idle: "sl_askers s t = Idle" and s': "s' = asks t (case sl_slot s of Some g \<Rightarrow> Answered g | None \<Rightarrow> Starting) s"
      using assms(2) by (simp_all split: if_splits)
    have "fresh_gateways s' = fresh_gateways s"
      unfolding s' fresh_asks using fresh_not [of s t] idle by (auto split: option.splits)
    then show ?thesis using ok unfolding slot_ok_def s' by (simp add: asks_def split: option.splits)
  next
    case (Started t good)
    then show ?thesis using started_ok assms by blast
  next
    case (Put t)
    then show ?thesis using put_ok assms by blast
  next
    case Shut
    then have s': "s' = s\<lparr>sl_running := sl_running s - set_option (sl_slot s), sl_slot := None\<rparr>" using assms(2) by simp
    have "fresh_gateways s' = fresh_gateways s" by (simp add: s' fresh_gateways_def)
    then show ?thesis using ok unfolding slot_ok_def s' by auto
  qed
qed

interpretation slots: machine slot_step "\<lambda>_. True" slot_ok
  by unfold_locales (rule slot_keeps_ok)

interpretation opened: machine slot_step "\<lambda>ev. ev \<noteq> Shut" answers_agree
proof
  fix s s' ev
  assume "answers_agree s" "slot_step ev s = Some s'" "ev \<noteq> Shut"
  then show "answers_agree s'"
    by (cases ev) (auto simp: answers_agree_def asks_def Let_def split: if_splits option.splits asker.splits)
qed

text \<open>
  Until the database is shut down, all tasks that ask for the address get the same one, that of the gateway that runs;
  the only other gateways are those that tasks are starting. In any run, none is left without an owner.
\<close>

theorem gateway_shared:
  assumes "slot_run evs slot_start = Some s"
  shows "sl_running s = set_option (sl_slot s) \<union> fresh_gateways s \<and>
    (Shut \<notin> set evs \<longrightarrow> (\<forall>t g. sl_askers s t = Answered g \<longrightarrow> sl_slot s = Some g))"
proof -
  have "slot_ok slot_start" "answers_agree slot_start"
    by (simp_all add: slot_ok_def answers_agree_def slot_start_def fresh_gateways_def)
  then show ?thesis
    using slots.run_inv [OF assms] opened.run_inv [OF assms]
    by (auto simp: slot_ok_def answers_agree_def list_all_iff)
qed

theorem gateway_shared_witness:
  "\<exists>s. slot_run [Look 0, Look 1, Started 0 True, Started 1 True, Put 1, Put 0] slot_start = Some s \<and>
     sl_askers s 0 = Answered 1 \<and> sl_slot s = Some 1 \<and> sl_running s = {1}"
proof -
  obtain s where s: "slot_run [Look 0, Look 1, Started 0 True, Started 1 True, Put 1, Put 0] slot_start = Some s"
      "sl_askers s 0 = Answered 1" "fresh_gateways s = {}"
    by (simp add: slot_start_def asks_def fresh_gateways_def Let_def)
  then show ?thesis using gateway_shared [OF s(1)] by auto
qed

text \<open>A task that started its gateway before the shutdown puts it into the slot of the closed database, where it stays.\<close>

theorem gateway_after_shutdown:
  "\<exists>s. slot_run [Look 0, Started 0 True, Shut, Put 0] slot_start = Some s \<and> sl_running s = {0}"
  by (simp add: slot_start_def asks_def Let_def)

section \<open>The archive of the data directory\<close>

text \<open>
  A directory is a map from paths to contents. \<open>tar\<close> and \<open>untar\<close> are the archive crate: the bytes of an archive, and
  its entries in order, each written over what is there.
\<close>

type_synonym tree = "string \<Rightarrow> bytes option"

definition dump_data_dir ::
  "'b db_env \<Rightarrow> unit res \<Rightarrow> (tree \<Rightarrow> bytes res) \<Rightarrow> ('b \<Rightarrow> tree) \<Rightarrow> (('b, 'k) db, bytes) act" where
  "dump_data_dir env create tar files =
     bindA (exec_unlocked env ''CHECKPOINT'') (\<lambda>_.
     bindA (liftA create) (\<lambda>_. \<lambda>s. (tar (files (db_backend s)), s)))"

definition unpack :: "(string \<times> bytes) list \<Rightarrow> tree \<Rightarrow> tree" where
  "unpack entries d = foldl (\<lambda>d (path, content). d(path \<mapsto> content)) d entries"

definition restore_data_dir :: "(bytes \<Rightarrow> (string \<times> bytes) list res) \<Rightarrow> unit res \<Rightarrow> bytes \<Rightarrow> tree \<Rightarrow> tree res" where
  "restore_data_dir untar create archive d =
     bindR create (\<lambda>_. bindR (untar archive) (\<lambda>entries. Inr ((unpack entries d)(''postmaster.pid'' := None))))"

lemma unpack_eq: "unpack entries d = d ++ map_of (rev entries)"
  by (induction entries rule: rev_induct) (auto simp: unpack_def fun_eq_iff map_add_def)

text \<open>
  Restoring a dump into an empty directory gives the files of the data directory at the end of the checkpoint, without the
  lock file of the server. Into another directory it gives a mixture: files that the archive does not have stay.
\<close>

theorem restore_round_trip:
  assumes "dump_data_dir env create tar files s = (Inr archive, s')"
    and "\<And>d a. tar d = Inr a \<Longrightarrow> \<exists>entries. untar a = Inr entries \<and> distinct (map fst entries) \<and> map_of entries = d"
  shows "restore_data_dir untar (Inr ()) archive d =
    Inr ((d ++ files (db_backend s'))(''postmaster.pid'' := None))"
proof -
  have "tar (files (db_backend s')) = Inr archive"
    using assms(1) by (auto simp: dump_data_dir_def bindA_apply liftA_apply split: sum.splits prod.splits)
  then obtain entries where e: "untar archive = Inr entries" "distinct (map fst entries)"
      "map_of entries = files (db_backend s')"
    using assms(2) by blast
  have "map_of (rev entries) k = Some v \<longleftrightarrow> map_of entries k = Some v" for k v
    using e(2) by (simp add: map_of_eq_Some_iff flip: rev_map)
  then have "map_of (rev entries) = map_of entries" by (metis ext not_Some_eq)
  then show ?thesis using e by (simp add: restore_data_dir_def unpack_eq)
qed

section \<open>Opening a database on its own postmaster\<close>

text \<open>\<open>Pool::start\<close>: the connections that are kept, one after another, then the reaper's thread.\<close>

fun connect_all :: "(nat \<Rightarrow> unit res) \<Rightarrow> nat list \<Rightarrow> unit res" where
  "connect_all connect [] = Inr ()"
| "connect_all connect (i # is) = bindR (connect i) (\<lambda>_. connect_all connect is)"

definition pool_open :: "(nat \<Rightarrow> unit res) \<Rightarrow> unit res \<Rightarrow> pool_config \<Rightarrow> pool res" where
  "pool_open connect reaper cfg =
     bindR (connect_all connect [0..<pc_min cfg]) (\<lambda>_. bindR reaper (\<lambda>_. Inr (pool_start cfg 0)))"

record mp_env =
  me_runtime :: extract_env
  me_fs :: runtime_fs
  me_has_version :: bool
  me_initdb :: "string list \<Rightarrow> error + (bool \<times> string)"
  me_dir :: string
  me_files :: "unit res"
  me_child :: "string list \<Rightarrow> string + unit"
  me_began :: nat
  me_probes :: "probe list"
  me_connect :: "nat \<Rightarrow> unit res"
  me_reaper :: "unit res"
  me_views :: "string list res"
  me_exec :: "live_action \<Rightarrow> unit res"
  me_look :: "string + bool"

text \<open>
  \<open>open_multi_process\<close>, with the effects on the child: an error behind \<open>Server::spawn\<close> drops the server, the last owner of
  which is the pool or the caller; \<open>me_look\<close> is what that drop sees of the child.
\<close>

definition open_multi_process :: "mp_env \<Rightarrow> mp_options \<Rightarrow> string \<Rightarrow> (pool res \<times> effect list) option" where
  "open_multi_process me o' data_dir =
     (case bindR (fst (extract_runtime_to (me_runtime me) (me_fs me))) (\<lambda>_.
           run_initdb_at (me_initdb me) (me_has_version me) data_dir (mp_username o') (mp_locale_provider o')) of
        Inl e \<Rightarrow> Some (Inl e, [])
      | Inr _ \<Rightarrow>
          (case server_spawn o' (me_dir me) (me_files me) (me_child me) data_dir (me_began me) (me_probes me) of
             None \<Rightarrow> None
           | Some (Inl e, eff) \<Rightarrow> Some (Inl e, eff)
           | Some (Inr _, eff) \<Rightarrow>
               (case bindR (pool_open (me_connect me) (me_reaper me) (pool_config_of o')) (\<lambda>pool.
                     bindR (fst (sweep_live_views (me_exec me) (me_views me) live_start)) (\<lambda>_. Inr pool)) of
                  Inl e \<Rightarrow> Some (Inl e, eff @ drop_server (me_look me))
                | Inr pool \<Rightarrow> Some (Inr pool, eff))))"

lemma wait_ready_result:
  "wait_ready deadline ps done = Some (r, eff) \<Longrightarrow>
     \<exists>k e. eff = done @ replicate k (Sleep 50) @ e \<and> (is_ok r \<longrightarrow> e = []) \<and>
       (\<not> is_ok r \<longrightarrow> e = terminate \<or> (e = [] \<and> (\<exists>p \<in> set ps. pb_exit p \<noteq> None)))"
proof (induction deadline ps "done" rule: wait_ready.induct)
  case (2 deadline p ps "done")
  show ?case
  proof (cases "\<exists>e. pb_handshake p = Inl e \<and> pb_now p < deadline \<and> pb_exit p = None")
    case True
    then obtain x where p: "pb_handshake p = Inl x" "pb_now p < deadline" "pb_exit p = None" by blast
    then have "wait_ready deadline ps (done @ [Sleep 50]) = Some (r, eff)" using 2(2) by simp
    from 2(1) [OF p this] obtain k e where "eff = (done @ [Sleep 50]) @ replicate k (Sleep 50) @ e" "is_ok r \<longrightarrow> e = []"
        "\<not> is_ok r \<longrightarrow> e = terminate \<or> (e = [] \<and> (\<exists>p \<in> set ps. pb_exit p \<noteq> None))"
      by blast
    then show ?thesis by (intro exI [of _ "Suc k"] exI [of _ e]) auto
  next
    case False
    show ?thesis
    proof (cases "pb_handshake p")
      case (Inr u)
      then have "r = Inr ()" "eff = done" using 2(2) by simp_all
      then show ?thesis by (intro exI [of _ 0] exI [of _ "[]"]) simp
    next
      case (Inl x)
      then show ?thesis using 2(2) False by (intro exI [of _ 0]) (auto split: if_splits option.splits)
    qed
  qed
qed simp

text \<open>
  A database that could not be opened leaves no server behind: when the child was started, then it has been terminated, or it
  was seen to have exited. A database that was opened has a pool in its starting state, and its server was sent nothing.
\<close>

theorem open_multi_process_clean:
  assumes "open_multi_process me o' data_dir = Some (r, eff)"
  shows "case r of
      Inl _ \<Rightarrow> eff = [] \<or> (\<exists>k. eff = replicate k (Sleep 50) @ terminate \<or> eff = replicate k (Sleep 50) @ terminate @ [RemoveDir]) \<or>
        me_look me = Inr True \<or> (\<exists>p \<in> set (me_probes me). pb_exit p \<noteq> None)
    | Inr pool \<Rightarrow> pool_reach (pool_config_of o') pool \<and> (\<exists>k. eff = replicate k (Sleep 50))"
proof (cases "\<exists>e. bindR (fst (extract_runtime_to (me_runtime me) (me_fs me))) (\<lambda>_.
           run_initdb_at (me_initdb me) (me_has_version me) data_dir (mp_username o') (mp_locale_provider o')) = Inl e")
  case True
  then show ?thesis using assms by (auto simp: open_multi_process_def)
next
  case started: False
  then obtain r1 eff1 where spawn: "server_spawn o' (me_dir me) (me_files me) (me_child me) data_dir (me_began me) (me_probes me) =
      Some (r1, eff1)"
    using assms by (auto simp: open_multi_process_def split: sum.splits option.splits)
  have eff1: "(eff1 = [] \<and> \<not> is_ok r1) \<or> (\<exists>k e. eff1 = replicate k (Sleep 50) @ e \<and> (is_ok r1 \<longrightarrow> e = []) \<and>
       (\<not> is_ok r1 \<longrightarrow> e = terminate \<or> (e = [] \<and> (\<exists>p \<in> set (me_probes me). pb_exit p \<noteq> None))))"
    using spawn wait_ready_result [of _ "me_probes me" "[]" r1 eff1]
    by (auto simp: server_spawn_def split: if_splits sum.splits)
  show ?thesis
  proof (cases "is_ok r1")
    case True
    then obtain k u where k: "eff1 = replicate k (Sleep 50)" "r1 = Inr u" using eff1 by (auto simp: is_ok_iff)
    show ?thesis
      using assms started k spawn
      by (auto simp: open_multi_process_def drop_server_def pool_open_def bindR_eq_Inr intro: pool_reach.init
          split: sum.splits if_splits)
  next
    case False
    then obtain e1 where e1: "r1 = Inl e1" by (cases r1) auto
    then have "r = Inl e1" "eff = eff1"
      using assms spawn started by (auto simp: open_multi_process_def split: sum.splits)
    then show ?thesis using eff1 e1 by auto
  qed
qed

end
