(* ===== verification/Facade.thy ===== *)
theory Facade
  imports Lifecycle
begin

text \<open>
  The rest of \<^verbatim>\<open>db.rs\<close>, \<^verbatim>\<open>engine.rs\<close> and \<^verbatim>\<open>pool.rs\<close>: the backend that the handle talks to and how it closes, queries under another
  role (\<^verbatim>\<open>replica/mod.rs\<close>), the directories, and what is left when a pool or a temporary directory is dropped.
\<close>

section \<open>The backend in the same process\<close>

text \<open>
  The engine thread with its C side, or gone. A round trip sends a command and waits; it fails when the channel or the
  reply is gone. \<open>close\<close> comes with the new value of \<open>OPEN\<close>, when it stores one.
\<close>

datatype 'c engine_thread = Running 'c engine_io | Gone

fun backend_roundtrip :: "'c engine_c \<Rightarrow> nat \<Rightarrow> bytes \<Rightarrow> 'c engine_thread \<Rightarrow> (bytes res \<times> 'c engine_thread) option" where
  "backend_roundtrip ops fuel wire (Running c io) =
     map_option (\<lambda>(out, c, io). (Inr out, Running c io)) (exec_protocol ops fuel wire c io)"
| "backend_roundtrip ops fuel wire Gone = Some (Inl Closed, Gone)"

definition backend_fire_and_forget :: "'c engine_c \<Rightarrow> nat \<Rightarrow> bytes \<Rightarrow> 'c engine_thread \<Rightarrow> 'c engine_thread option" where
  "backend_fire_and_forget ops fuel wire e = map_option snd (backend_roundtrip ops fuel wire e)"

fun backend_close ::
  "'c engine_c \<Rightarrow> nat \<Rightarrow> 'c engine_thread \<Rightarrow> ((unit res \<times> bool option) \<times> 'c engine_thread) option" where
  "backend_close ops fuel (Running c io) =
     map_option (\<lambda>_. ((Inr (), Some False), Gone)) (exec_protocol ops fuel [bch CHR ''X'', 0, 0, 0, 4] c io)"
| "backend_close ops fuel Gone = Some ((Inl Closed, None), Gone)"

text \<open>\<open>CloseOnDrop\<close>: a close whose failure is ignored, then \<open>OPEN\<close> is false in any case.\<close>

definition close_on_drop :: "'c engine_c \<Rightarrow> nat \<Rightarrow> 'c engine_thread \<Rightarrow> bool option" where
  "close_on_drop ops fuel e = map_option (\<lambda>_. False) (backend_close ops fuel e)"

text \<open>What the callers of the commands get, one after another.\<close>

fun backend_run :: "'c engine_c \<Rightarrow> nat \<Rightarrow> engine_command list \<Rightarrow> 'c engine_thread \<Rightarrow> bytes res list option" where
  "backend_run ops fuel [] e = Some []"
| "backend_run ops fuel (Exec wire # cmds) e =
     Option.bind (backend_roundtrip ops fuel wire e) (\<lambda>(r, e). map_option (Cons r) (backend_run ops fuel cmds e))"
| "backend_run ops fuel (Close # cmds) e =
     Option.bind (backend_close ops fuel e) (\<lambda>((r, _), e).
       map_option (Cons (mapR (\<lambda>_. []) r)) (backend_run ops fuel cmds e))"

fun reply_of :: "engine_reply \<Rightarrow> bytes res" where
  "reply_of (Answer out) = Inr out"
| "reply_of CloseDone = Inr []"
| "reply_of Dropped = Inl Closed"

lemma backend_gone: "backend_run ops fuel cmds Gone = Some (map (\<lambda>_. Inl Closed) cmds)"
proof (induction cmds)
  case (Cons cmd cmds)
  then show ?case by (cases cmd) (simp_all add: mapR_def)
qed simp

text \<open>
  Commands that wait for their replies one after another get what the same commands get when they are queued at once:
  the engine's queue is a sequential object, and behind a close everybody is told that the database is closed.
\<close>

theorem backend_is_queue:
  "backend_run ops fuel cmds (Running c io) = map_option (map reply_of) (engine_run ops fuel cmds c io)"
proof (induction cmds arbitrary: c io)
  case (Cons cmd cmds)
  show ?case
  proof (cases cmd)
    case (Exec wire)
    have later: "map_option (Cons (Inr out)) (backend_run ops fuel cmds (Running d jo)) =
        map_option (map reply_of) (Option.bind (engine_run ops fuel cmds d jo) (\<lambda>rs. Some (Answer out # rs)))" for out d jo
      using Cons [of d jo] by (cases "engine_run ops fuel cmds d jo") auto
    show ?thesis using Exec later by (cases "exec_protocol ops fuel wire c io") (auto split: prod.splits)
  next
    case Close
    then show ?thesis
      by (cases "exec_protocol ops fuel [bch CHR ''X'', 0, 0, 0, 4] c io") (auto simp: backend_gone mapR_def)
  qed
qed simp

section \<open>Queries under another role\<close>

text \<open>
  What \<open>query_as\<close> uses of a transaction: its begin, its queries, its rollback, and the rollback that dropping it sends.
\<close>

record ('w, 'v, 'r) tx_ops =
  ta_begin :: "('w, unit) act"
  ta_query :: "string \<Rightarrow> 'v list \<Rightarrow> ('w, 'r) act"
  ta_rollback :: "('w, unit) act"
  ta_abandon :: "'w \<Rightarrow> 'w"

definition claims_sql :: "string \<Rightarrow> string" where
  "claims_sql claims = ''SET LOCAL request.jwt.claims = '' @ lit claims"

definition role_sql :: "string \<Rightarrow> string" where
  "role_sql role = ''SET LOCAL ROLE '' @ ident role"

definition query_as ::
  "('w, 'v, 'r) tx_ops \<Rightarrow> string \<Rightarrow> string option \<Rightarrow> string \<Rightarrow> 'v list \<Rightarrow> ('w, 'r) act" where
  "query_as ops role claims sql params w =
     (case ta_begin ops w of
        (Inl e, w) \<Rightarrow> (Inl e, w)
      | (Inr _, w) \<Rightarrow>
          (case bindA (case claims of
                         None \<Rightarrow> retA ()
                       | Some c \<Rightarrow> bindA (ta_query ops (claims_sql c) []) (\<lambda>_. retA ())) (\<lambda>_.
                bindA (ta_query ops (role_sql role) []) (\<lambda>_. ta_query ops sql params)) w of
             (Inl e, w) \<Rightarrow> (Inl e, ta_abandon ops w)
           | (Inr rows, w) \<Rightarrow> (case ta_rollback ops w of (r, w) \<Rightarrow> (bindR r (\<lambda>_. Inr rows), w))))"

text \<open>The transaction of the one backend.\<close>

definition rollback_wire :: "bytes option" where
  "rollback_wire = (case frontend_query ''ROLLBACK'' of Inl _ \<Rightarrow> None | Inr wire \<Rightarrow> Some wire)"

definition serial_tx :: "'b db_env \<Rightarrow> ('ty, 'v) frontend \<Rightarrow> (('b, 'k) db, 'v, 'ty db_row list) tx_ops" where
  "serial_tx env fe =
     \<lparr>ta_begin = exec_unlocked env ''BEGIN'', ta_query = query_unlocked env fe, ta_rollback = exec_unlocked env ''ROLLBACK'',
      ta_abandon = (\<lambda>s. case rollback_wire of None \<Rightarrow> s | Some wire \<Rightarrow> snd (db_roundtrip env wire s))\<rparr>"

text \<open>
  A session with a role: \<open>role\<close> is the current one, \<open>saved\<close> the one that the end of the transaction brings back. A statement
  whose tokens are \<^verbatim>\<open>SET LOCAL ROLE\<close> and a quoted name changes the role until then; the name \<^verbatim>\<open>none\<close>, quoted or not, stands for
  the user of the session. No statement changes \<open>saved\<close>.
\<close>

definition set_role_tokens :: "string \<Rightarrow> token list" where
  "set_role_tokens x = [TWord ''SET'', TWord ''LOCAL'', TWord ''ROLE'', TQuoted x]"

lemma lex_role_sql: "lex (role_sql x) = Some (set_role_tokens x)"
proof -
  have "lexes_any ''SET LOCAL ROLE '' [TWord ''SET'', TWord ''LOCAL'', TWord ''ROLE'']" by (simp add: lex_eval)
  then show ?thesis
    using lexes_lex [OF lexes_any_to [OF _ lexes_ident]] by (fastforce simp: role_sql_def set_role_tokens_def)
qed

definition role_session :: "('w, 'v, 'r) tx_ops \<Rightarrow> ('w \<Rightarrow> string) \<Rightarrow> ('w \<Rightarrow> string) \<Rightarrow> bool" where
  "role_session ops role saved \<longleftrightarrow>
     (\<forall>w r w'. ta_begin ops w = (r, w') \<longrightarrow> role w' = role w \<and> (is_ok r \<longrightarrow> saved w' = role w)) \<and>
     (\<forall>q ps w r w'. ta_query ops q ps w = (r, w') \<longrightarrow> saved w' = saved w) \<and>
     (\<forall>q x w r w'. ta_query ops q [] w = (Inr r, w') \<and> lex q = Some (set_role_tokens x) \<and> x \<noteq> ''none'' \<longrightarrow> role w' = x) \<and>
     (\<forall>w r w'. ta_rollback ops w = (Inr r, w') \<longrightarrow> role w' = saved w) \<and>
     (\<forall>w. role (ta_abandon ops w) = saved w)"

text \<open>
  A query under another role runs under that role, and the session has its old role back afterwards, whether it succeeds or
  fails, unless the final ROLLBACK itself fails.
\<close>

theorem query_as_role:
  assumes "role_session ops role saved" and "x \<noteq> ''none''" and "query_as ops x claims sql params w = (r, w')"
    and "\<And>v. is_ok (fst (ta_rollback ops v))"
  shows "role w' = role w \<and>
    (\<forall>rows. r = Inr rows \<longrightarrow> (\<exists>v v'. role v = x \<and> saved v = role w \<and> ta_query ops sql params v = (Inr rows, v')))"
proof -
  note s = assms(1) [unfolded role_session_def]
  obtain r0 w0 where b: "ta_begin ops w = (r0, w0)" by fastforce
  show ?thesis
  proof (cases r0)
    case (Inl e)
    then show ?thesis using assms(3) b s by (auto simp: query_as_def)
  next
    case (Inr u)
    then have w0: "saved w0 = role w" using s b by auto
    let ?claims = "case claims of None \<Rightarrow> retA () | Some c \<Rightarrow> bindA (ta_query ops (claims_sql c) []) (\<lambda>_. retA ())"
    obtain r1 w1 where c: "?claims w0 = (r1, w1)" by fastforce
    have w1: "saved w1 = role w"
      using c w0 s by (auto simp: bindA_apply retA_apply split: option.splits prod.splits sum.splits)
    obtain r2 w2 where q: "ta_query ops (role_sql x) [] w1 = (r2, w2)" by fastforce
    have w2: "saved w2 = role w" "\<And>z. r2 = Inr z \<Longrightarrow> role w2 = x" using q w1 s lex_role_sql [of x] assms(2) by auto
    obtain r3 w3 where u: "ta_query ops sql params w2 = (r3, w3)" by fastforce
    have w3: "saved w3 = role w" using u w2 s by auto
    have restored: "role (snd (ta_rollback ops w3)) = role w"
      using assms(4) [of w3] s w3 by (cases "ta_rollback ops w3") (auto simp: is_ok_iff)
    show ?thesis
      using assms(3) b Inr c q u w1 w2 w3 restored s
      by (auto simp: query_as_def bindA_apply bindR_eq_Inr split: sum.splits prod.splits)
  qed
qed

definition toy_tx :: "(string \<times> string, unit, string) tx_ops" where
  "toy_tx =
     \<lparr>ta_begin = (\<lambda>(r, _). (Inr (), (r, r))),
      ta_query = (\<lambda>q ps (r, s).
        case lex q of
          Some [TWord a, TWord b, TWord c, TQuoted x] \<Rightarrow>
            if [TWord a, TWord b, TWord c, TQuoted x] = set_role_tokens x then (Inr [], (x, s)) else (Inr r, (r, s))
        | _ \<Rightarrow> (Inr r, (r, s))),
      ta_rollback = (\<lambda>(_, s). (Inr (), (s, s))), ta_abandon = (\<lambda>(_, s). (s, s))\<rparr>"

theorem query_as_role_witness:
  "\<exists>w'. query_as toy_tx ''app'' None ''SELECT current_user'' [] (''admin'', []) = (Inr ''app'', w') \<and> fst w' = ''admin''"
proof -
  have session: "role_session toy_tx fst snd"
    unfolding role_session_def toy_tx_def by (auto simp: set_role_tokens_def split: option.splits list.splits token.splits if_splits)
  have sel: "lex ''SELECT current_user'' = Some [TWord ''SELECT'', TWord ''current_user'']" by (simp add: lex_eval)
  obtain r w' where q: "query_as toy_tx ''app'' None ''SELECT current_user'' [] (''admin'', []) = (r, w')" "r = Inr ''app''"
    by (simp add: query_as_def toy_tx_def bindA_apply retA_apply lex_role_sql set_role_tokens_def sel)
  have "fst w' = fst (''admin'', [] :: string)"
    using query_as_role [OF session _ q(1)] by (simp add: toy_tx_def split: prod.split)
  then show ?thesis using q by simp
qed

section \<open>Directories\<close>

text \<open>\<open>runtime_dir\<close> and \<open>ram_backed_dir\<close>; \<open>fp\<close> is the fingerprint of the runtime.\<close>

definition hex_lower :: "u64 \<Rightarrow> string" where
  "hex_lower w = map (\<lambda>c. if 65 \<le> (of_char c :: nat) then char_of (of_char c + 32 :: nat) else c) (to_radix 16 (unat w))"

definition runtime_dir :: "string option \<Rightarrow> string \<Rightarrow> string \<Rightarrow> u64 \<Rightarrow> string" where
  "runtime_dir var temp version fp =
     (case var of
        Some d \<Rightarrow> d
      | None \<Rightarrow> temp @ ''/pglite-rs-runtime-'' @ version @ ''-'' @ hex_lower fp)"

definition ram_backed_dir :: "bool \<Rightarrow> bool \<Rightarrow> bool option \<Rightarrow> string \<Rightarrow> string" where
  "ram_backed_dir linux is_dir readonly temp =
     (if linux \<and> is_dir \<and> readonly = Some False then ''/dev/shm'' else temp)"

text \<open>The drop of a temporary directory: at most twenty tries, each with whether the removal succeeded and the directory exists.\<close>

fun remove_tries :: "nat \<Rightarrow> (bool \<times> bool) list \<Rightarrow> nat" where
  "remove_tries 0 tries = 0"
| "remove_tries (Suc n) [] = 0"
| "remove_tries (Suc n) ((removed, exists) # tries) = (if removed \<or> \<not> exists then 0 else 1 + remove_tries n tries)"

definition drop_temp_dir :: "(bool \<times> bool) list \<Rightarrow> nat" where
  "drop_temp_dir tries = 50 * remove_tries 20 tries"

lemma drop_temp_dir_bound: "drop_temp_dir tries \<le> 1000"
proof -
  have "remove_tries n ts \<le> n" for n ts by (induction n ts rule: remove_tries.induct) auto
  then show ?thesis by (simp add: drop_temp_dir_def)
qed

section \<open>The pool at its end\<close>

text \<open>\<open>notify_conn\<close>: the connection in the slot, dead or alive, else a new one.\<close>

definition notify_conn :: "'n res \<Rightarrow> 'n option \<Rightarrow> 'n res \<times> 'n option" where
  "notify_conn fresh slot =
     (case slot of
        Some conn \<Rightarrow> (Inr conn, slot)
      | None \<Rightarrow> (case fresh of Inl e \<Rightarrow> (Inl e, None) | Inr conn \<Rightarrow> (Inr conn, Some conn)))"

text \<open>The drop of a pool: the reaper is joined, the notification connection shut, the idle connections closed.\<close>

datatype 'n pool_end = JoinReaper | ShutNotify 'n | CloseConn nat

definition drop_pool :: "'n option \<Rightarrow> pool \<Rightarrow> 'n pool_end list \<times> pool" where
  "drop_pool slot s =
     ([JoinReaper] @ (case slot of None \<Rightarrow> [] | Some n \<Rightarrow> [ShutNotify n]) @ map CloseConn (pl_idle s),
      s\<lparr>pl_idle := []\<rparr>)"

end
