(* ===== verification/Handle.thy ===== *)
theory Handle
  imports Facade
begin

text \<open>
  A handle over one session (\<^verbatim>\<open>db.rs\<close>, \<^verbatim>\<open>transaction.rs\<close>, \<^verbatim>\<open>pool.rs\<close>): what \<open>PGlite\<close> and \<open>Transaction\<close> need of the place where
  their requests go, as the locale \<open>session_backend\<close>, and the two places, the engine thread and a connection of the pool. On
  both a handle behaves as on the bare session.
\<close>

section \<open>Simulation of actions\<close>

text \<open>
  An action on one state is simulated by an action on another: the same results, and the relation of the states is kept. The
  collection \<open>simulated\<close> holds the rules, which follow the structure of the definitions.
\<close>

definition simulates :: "('s \<Rightarrow> 't \<Rightarrow> bool) \<Rightarrow> ('s, 'a) act \<Rightarrow> ('t, 'a) act \<Rightarrow> bool" where
  "simulates R a b \<longleftrightarrow> (\<forall>s t. R s t \<longrightarrow> fst (a s) = fst (b t) \<and> R (snd (a s)) (snd (b t)))"

named_theorems simulated \<open>rules for actions with the same results on related states\<close>

lemma simulatesD: "simulates R a b \<Longrightarrow> R s t \<Longrightarrow> a s = (r, s') \<Longrightarrow> \<exists>t'. b t = (r, t') \<and> R s' t'"
  unfolding simulates_def by (cases "b t") fastforce

lemma simulates_apply: "simulates R a b \<Longrightarrow> R s t \<Longrightarrow> fst (a s) = fst (b t) \<and> R (snd (a s)) (snd (b t))"
  by (simp add: simulates_def)

lemma simulates_const [simulated]:
  "simulates R (retA x) (retA x)" "simulates R (failA e) (failA e)" "simulates R (liftA r) (liftA r)"
  by (simp_all add: simulates_def)

lemma simulates_bind [simulated]:
  assumes "simulates R a b" and "\<And>x. simulates R (f x) (g x)"
  shows "simulates R (bindA a f) (bindA b g)"
  unfolding simulates_def
proof (intro allI impI)
  fix s t assume st: "R s t"
  obtain r s' where a: "a s = (r, s')" by fastforce
  obtain t' where "b t = (r, t')" "R s' t'" using simulatesD [OF assms(1) st a] by blast
  then show "fst (bindA a f s) = fst (bindA b g t) \<and> R (snd (bindA a f s)) (snd (bindA b g t))"
    using assms(2) by (cases r) (simp_all add: bindA_apply a simulates_def)
qed

lemma simulates_bind_lift:
  "(\<And>x. r = Inr x \<Longrightarrow> simulates R (f x) (g x)) \<Longrightarrow> simulates R (bindA (liftA r) f) (bindA (liftA r) g)"
  by (cases r) (auto simp: simulates_def bindA_apply)

lemma simulates_if [simulated]:
  "(c \<Longrightarrow> simulates R a b) \<Longrightarrow> (\<not> c \<Longrightarrow> simulates R a' b') \<Longrightarrow> simulates R (if c then a else a') (if c then b else b')"
  by simp

lemma simulates_prod [simulated]:
  "(\<And>x y. simulates R (f x y) (g x y)) \<Longrightarrow> simulates R (case p of (x, y) \<Rightarrow> f x y) (case p of (x, y) \<Rightarrow> g x y)"
  by (cases p) simp

section \<open>Handles over related backends\<close>

text \<open>Two handles that differ in their backends only.\<close>

definition same_db :: "('b \<Rightarrow> 'c \<Rightarrow> bool) \<Rightarrow> ('b, 'k) db \<Rightarrow> ('c, 'k) db \<Rightarrow> bool" where
  "same_db H s t \<longleftrightarrow>
     H (db_backend s) (db_backend t) \<and> db_listeners s = db_listeners t \<and> db_next s = db_next t \<and> db_calls s = db_calls t"

text \<open>
  The environment of a handle whose requests go to \<open>rt\<close>, and the one of a bare session that answers with \<open>respond\<close>. A round
  trip that never returns (\<open>None\<close>) is not followed further.
\<close>

definition backend_env ::
  "(bytes \<Rightarrow> string + (backend_msg \<times> bytes) option) \<Rightarrow> (string \<Rightarrow> string) \<Rightarrow> (bytes \<Rightarrow> 'b \<Rightarrow> (bytes res \<times> 'b) option) \<Rightarrow> 'b db_env" where
  "backend_env parse lower rt =
     \<lparr>de_parse = parse, de_lower = lower,
      de_roundtrip = (\<lambda>wire s. case rt wire s of None \<Rightarrow> (Inl Closed, s) | Some out \<Rightarrow> out), de_notify = None\<rparr>"

definition session_env ::
  "(bytes \<Rightarrow> string + (backend_msg \<times> bytes) option) \<Rightarrow> (string \<Rightarrow> string) \<Rightarrow> (bytes \<Rightarrow> 'k \<Rightarrow> bytes \<times> 'k) \<Rightarrow> 'k db_env" where
  "session_env parse lower respond =
     \<lparr>de_parse = parse, de_lower = lower, de_roundtrip = (\<lambda>wire k. map_prod Inr id (respond wire k)), de_notify = None\<rparr>"

text \<open>The requests that the operations of a handle send.\<close>

inductive request :: "('ty, 'v) frontend \<Rightarrow> bytes \<Rightarrow> bool" for fe where
  simple: "frontend_query sql = Inr wire \<Longrightarrow> request fe wire"
| copy: "frontend_query sql = Inr wire \<Longrightarrow> request fe (copy_in_wire wire data)"
| describe: "fe_parse fe sql [] = Inr p \<Longrightarrow> fe_describe fe = Inr d \<Longrightarrow> request fe (p @ d @ fe_sync fe)"
| execute: "fe_bind fe args = Inr b \<Longrightarrow> fe_execute fe = Inr x \<Longrightarrow> request fe (b @ x @ fe_sync fe)"
| typed: "fe_parse fe sql oids = Inr p \<Longrightarrow> fe_describe fe = Inr d \<Longrightarrow> fe_bind fe args = Inr b \<Longrightarrow> fe_execute fe = Inr x \<Longrightarrow>
    request fe (p @ d @ b @ x @ fe_sync fe)"

text \<open>The operations of a handle and what they return.\<close>

datatype ('ty, 'v, 'k) handle_op =
  OpExec string
| OpQuery string "'v list"
| OpFormat "string \<Rightarrow> 'v" "'ty \<Rightarrow> string option \<Rightarrow> string + string" string "'v list"
| OpCopyIn string bytes
| OpCopyOut string
| OpListener "'k listen_op"

datatype 'ty outcome = Done | Rows "'ty db_row list" | Formatted "string option" | Copied bytes

definition thenA :: "('s, 'a) act \<Rightarrow> ('a \<Rightarrow> 'b) \<Rightarrow> ('s, 'b) act" where
  "thenA a f = bindA a (\<lambda>x. retA (f x))"

fun handle_step :: "'b db_env \<Rightarrow> ('ty, 'v) frontend \<Rightarrow> ('ty, 'v, 'k) handle_op \<Rightarrow> (('b, 'k) db, 'ty outcome) act" where
  "handle_step env fe (OpExec sql) = thenA (exec_unlocked env sql) (\<lambda>_. Done)"
| "handle_step env fe (OpQuery sql params) = thenA (query_unlocked env fe sql params) Rows"
| "handle_step env fe (OpFormat as_value as_str sql params) =
     thenA (format_literals env fe as_value as_str sql params) Formatted"
| "handle_step env fe (OpCopyIn sql data) = thenA (copy_in env sql data) (\<lambda>_. Done)"
| "handle_step env fe (OpCopyOut sql) = thenA (db_copy_out env sql) Copied"
| "handle_step env fe (OpListener op) = thenA (listen_step env op) (\<lambda>_. Done)"

fun handle_run ::
  "'b db_env \<Rightarrow> ('ty, 'v) frontend \<Rightarrow> ('ty, 'v, 'k) handle_op list \<Rightarrow> ('b, 'k) db \<Rightarrow> 'ty outcome res list \<times> ('b, 'k) db" where
  "handle_run env fe [] s = ([], s)"
| "handle_run env fe (op # ops) s =
     (case handle_step env fe op s of (r, s) \<Rightarrow> map_prod (Cons r) id (handle_run env fe ops s))"

text \<open>Two environments that read responses alike and whose round trips, for the requests of a handle, are related.\<close>

definition same_env :: "('b \<Rightarrow> 'c \<Rightarrow> bool) \<Rightarrow> ('ty, 'v) frontend \<Rightarrow> 'b db_env \<Rightarrow> 'c db_env \<Rightarrow> bool" where
  "same_env H fe d e \<longleftrightarrow>
     de_parse d = de_parse e \<and> de_lower d = de_lower e \<and> de_notify d = None \<and> de_notify e = None \<and>
     (\<forall>wire. request fe wire \<longrightarrow> simulates H (de_roundtrip d wire) (de_roundtrip e wire))"

lemma same_process_msgs:
  "simulates (same_db H :: ('b, 'k) db \<Rightarrow> ('c, 'k) db \<Rightarrow> bool) (process_msgs lower ms) (process_msgs lower ms)"
proof -
  have "fst (process_msgs lower ms s) = fst (process_msgs lower ms t) \<and>
      same_db H (snd (process_msgs lower ms s)) (snd (process_msgs lower ms t))"
    if "same_db H s t" for s :: "('b, 'k) db" and t :: "('c, 'k) db"
    using that
  proof (induction lower ms s arbitrary: t rule: process_msgs.induct)
    case (3 lower m ms s)
    have "db_listeners s = db_listeners t" "db_calls s = db_calls t" using "3.prems" by (simp_all add: same_db_def)
    moreover have "same_db H (s\<lparr>db_calls := c\<rparr>) (t\<lparr>db_calls := c\<rparr>)" for c using "3.prems" by (simp add: same_db_def)
    ultimately show ?case using 3 by (cases m) (simp_all split: sum.split)
  qed simp_all
  then show ?thesis by (simp add: simulates_def)
qed

lemma same_messages:
  assumes "same_env H fe d e"
  shows "response_msgs d = response_msgs e" "has_message d = has_message e" "parse_describe d = parse_describe e"
proof -
  have "de_parse d = de_parse e" using assms by (simp add: same_env_def)
  then show "response_msgs d = response_msgs e" "has_message d = has_message e" "parse_describe d = parse_describe e"
    unfolding response_msgs_def [abs_def] has_message_def [abs_def] parse_describe_def [abs_def] by simp_all
qed

lemma same_process [simulated]:
  assumes "same_env H fe d e"
  shows "simulates (same_db H) (process_response d response) (process_response e response)"
proof -
  have "de_lower d = de_lower e" using assms by (simp add: same_env_def)
  then show ?thesis unfolding process_response_def same_messages [OF assms] by (simp add: same_process_msgs)
qed

lemma same_roundtrip [simulated]:
  assumes "same_env H fe d e" and "request fe wire"
  shows "simulates (same_db H) (db_roundtrip d wire) (db_roundtrip e wire)"
  unfolding simulates_def
proof (intro allI impI)
  fix s :: "('a, 'e) db" and t :: "('b, 'e) db" assume st: "same_db H s t"
  have "simulates H (de_roundtrip d wire) (de_roundtrip e wire)" using assms by (simp add: same_env_def)
  then have "fst (de_roundtrip d wire (db_backend s)) = fst (de_roundtrip e wire (db_backend t)) \<and>
      H (snd (de_roundtrip d wire (db_backend s))) (snd (de_roundtrip e wire (db_backend t)))"
    using st by (simp add: simulates_def same_db_def)
  then show "fst (db_roundtrip d wire s) = fst (db_roundtrip e wire t) \<and>
      same_db H (snd (db_roundtrip d wire s)) (snd (db_roundtrip e wire t))"
    using st by (auto simp: db_roundtrip_def same_db_def split: prod.split)
qed

lemma encoded_Inr: "encoded r = Inr w \<longleftrightarrow> r = Inr w"
  by (simp add: encoded_def split: sum.split)

lemma same_exec [simulated]:
  "same_env H fe d e \<Longrightarrow> simulates (same_db H) (exec_unlocked d sql) (exec_unlocked e sql)"
  unfolding exec_unlocked_def by (intro simulates_bind_lift simulates_bind simulated request.simple)

lemma same_describe [simulated]:
  assumes "same_env H fe d e"
  shows "simulates (same_db H) (describe_statement d fe sql) (describe_statement e fe sql)"
  unfolding describe_statement_def same_messages [OF assms]
  by (intro simulates_bind_lift simulates_bind simulated same_roundtrip [OF assms] same_process [OF assms])
    (auto simp: encoded_Inr intro: request.describe)

lemma same_query [simulated]:
  assumes "same_env H fe d e"
  shows "simulates (same_db H) (query_unlocked d fe sql params) (query_unlocked e fe sql params)"
  unfolding query_unlocked_def same_messages [OF assms]
  by (intro simulates_bind_lift simulates_bind simulates_prod simulates_if simulates_const same_describe [OF assms]
      same_roundtrip [OF assms] same_process [OF assms])
    (auto simp: encoded_Inr intro: request.execute)

lemma same_typed [simulated]:
  assumes "same_env H fe d e"
  shows "simulates (same_db H) (query_with_types d fe sql params types) (query_with_types e fe sql params types)"
  unfolding query_with_types_def same_messages [OF assms]
  by (intro simulates_bind_lift simulates_bind simulates_prod simulates_const same_roundtrip [OF assms]
      same_process [OF assms])
    (auto simp: encoded_Inr intro: request.typed)

lemma same_format [simulated]:
  assumes "same_env H fe d e"
  shows "simulates (same_db H) (format_literals d fe as_value as_str sql params) (format_literals e fe as_value as_str sql params)"
proof -
  have rows: "simulates R (case rows of [] \<Rightarrow> a | row # rs \<Rightarrow> f row rs) (case rows of [] \<Rightarrow> b | row # rs \<Rightarrow> g row rs)"
    if "simulates R a b" "\<And>row rs. simulates R (f row rs) (g row rs)" for R a b f g and rows :: "'x list"
    using that by (cases rows) simp_all
  show ?thesis
    unfolding format_literals_def
    by (intro simulates_if simulates_const simulates_bind_lift simulates_bind simulates_prod rows same_describe [OF assms]
        same_typed [OF assms])
qed

lemma same_copy_in [simulated]:
  assumes "same_env H fe d e"
  shows "simulates (same_db H) (copy_in d sql data) (copy_in e sql data)"
  unfolding copy_in_def same_messages [OF assms]
  by (intro simulates_bind_lift simulates_bind simulates_if simulates_const same_roundtrip [OF assms]
      same_process [OF assms] request.copy)

lemma same_copy_out [simulated]:
  assumes "same_env H fe d e"
  shows "simulates (same_db H) (db_copy_out d sql) (db_copy_out e sql)"
  unfolding db_copy_out_def same_messages [OF assms]
  by (intro simulates_bind_lift simulates_bind simulates_if simulates_const same_roundtrip [OF assms]
      same_process [OF assms] request.simple)

text \<open>The listeners: what is done to the map before and after the command is the same on both sides.\<close>

lemma same_envD:
  assumes "same_env H fe d e"
  shows "de_lower d = de_lower e" "de_notify d = None" "de_notify e = None"
  using assms by (simp_all add: same_env_def)

lemma same_notify [simulated]:
  assumes "same_env H fe d e"
  shows "simulates (same_db H) (notify_command d sql) (notify_command e sql)"
  using same_exec [OF assms] by (simp add: simulates_def notify_command_def same_envD [OF assms])

lemma same_listen [simulated]:
  fixes d :: "'b db_env" and e :: "'c db_env" and k :: 'k
  assumes "same_env H fe d e"
  shows "simulates (same_db H) (listen d channel k) (listen e channel k)"
  unfolding simulates_def
proof (intro allI impI)
  fix s :: "('b, 'k) db" and t :: "('c, 'k) db" assume st: "same_db H s t"
  let ?l = "add_listener (db_listeners t) (de_lower e channel) (db_next t) k"
  have l: "same_db H (s\<lparr>db_next := db_next t + 1, db_listeners := ?l\<rparr>) (t\<lparr>db_next := db_next t + 1, db_listeners := ?l\<rparr>)"
    and "db_next s = db_next t" "db_listeners s = db_listeners t"
    using st by (simp_all add: same_db_def)
  with simulates_apply [OF simulates_bind [OF same_notify [OF assms] simulates_const(1)] l] show "fst (listen d channel k s) = fst (listen e channel k t) \<and>
      same_db H (snd (listen d channel k s)) (snd (listen e channel k t))"
    by (simp add: listen_def same_envD [OF assms])
qed

lemma same_unlisten_token [simulated]:
  fixes d :: "'b db_env" and e :: "'c db_env"
  assumes "same_env H fe d e"
  shows "simulates (same_db H :: ('b, 'k) db \<Rightarrow> ('c, 'k) db \<Rightarrow> bool)
    (unlisten_token d channel token) (unlisten_token e channel token)"
  unfolding simulates_def
proof (intro allI impI)
  fix s :: "('b, 'k) db" and t :: "('c, 'k) db" assume st: "same_db H s t"
  obtain m gone where m: "drop_token (db_listeners t) (de_lower e channel) token = (m, gone)" by fastforce
  have l: "same_db H (s\<lparr>db_listeners := m\<rparr>) (t\<lparr>db_listeners := m\<rparr>)" and "db_listeners s = db_listeners t"
    using st by (simp_all add: same_db_def)
  with simulates_apply [OF same_notify [OF assms] l] m show "fst (unlisten_token d channel token s) = fst (unlisten_token e channel token t) \<and>
      same_db H (snd (unlisten_token d channel token s)) (snd (unlisten_token e channel token t))"
    by (simp add: unlisten_token_def same_envD [OF assms])
qed

lemma same_unlisten [simulated]:
  assumes "same_env H fe d e"
  shows "simulates (same_db H) (unlisten d channel) (unlisten e channel)"
  unfolding unlisten_def same_envD [OF assms]
  by (rule simulates_bind [OF same_notify [OF assms]]) (simp add: simulates_def same_db_def)

lemma same_step:
  assumes "same_env H fe d e"
  shows "simulates (same_db H) (handle_step d fe op) (handle_step e fe op)"
proof (cases op)
  case (OpListener l)
  have "simulates (same_db H) (listen_step d l) (listen_step e l)"
    by (cases l) (simp_all add: listen_step_def simulates_bind simulates_const same_listen [OF assms]
        same_unlisten_token [OF assms] same_unlisten [OF assms])
  then show ?thesis by (simp add: OpListener thenA_def simulates_bind simulates_const)
qed (simp_all add: thenA_def simulates_bind simulates_const same_exec [OF assms] same_query [OF assms]
    same_format [OF assms] same_copy_in [OF assms] same_copy_out [OF assms])

lemma same_run:
  assumes "same_env H fe d e" and "same_db H s t"
  shows "fst (handle_run d fe ops s) = fst (handle_run e fe ops t) \<and>
    same_db H (snd (handle_run d fe ops s)) (snd (handle_run e fe ops t))"
  using assms(2)
proof (induction ops arbitrary: s t)
  case (Cons op ops)
  obtain r s' where a: "handle_step d fe op s = (r, s')" by fastforce
  obtain t' where "handle_step e fe op t = (r, t')" "same_db H s' t'"
    using simulatesD [OF same_step [OF assms(1)] Cons.prems a] by blast
  then show ?case using Cons.IH [of s' t'] by (simp add: a)
qed simp

text \<open>\<open>describe_param_types\<close>, with which \<open>format_literals\<close> learns the types of the parameters.\<close>

definition describe_param_types :: "'b db_env \<Rightarrow> ('ty, 'v) frontend \<Rightarrow> string \<Rightarrow> (('b, 'k) db, 'ty list) act" where
  "describe_param_types env fe sql = thenA (describe_statement env fe sql) fst"

lemma format_literals_types:
  assumes "params \<noteq> []"
  shows "format_literals env fe as_value as_str sql params =
    bindA (describe_param_types env fe sql) (\<lambda>types.
      if length types \<noteq> length params then failA (arity_error (length types) (length params))
      else bindA (query_with_types env fe (format_select (length params)) (as_value (sub_params sql) # params) (fe_text fe # types))
        (\<lambda>rows. case rows of [] \<Rightarrow> retA None | row # _ \<Rightarrow> bindA (liftA (row_get as_str row 0)) (\<lambda>s. retA (Some s))))"
  using assms by (simp add: format_literals_def describe_param_types_def thenA_def bindA_assoc case_prod_unfold)

section \<open>The interface\<close>

text \<open>
  What a handle needs of the place where its requests go: there is a session behind it (\<open>at\<close>), and a round trip with a request
  that fits returns what the session answers, and the session goes on from there.
\<close>

locale session_backend =
  fixes rt :: "bytes \<Rightarrow> 'b \<Rightarrow> (bytes res \<times> 'b) option"
    and respond :: "bytes \<Rightarrow> 's \<Rightarrow> bytes \<times> 's"
    and at :: "'b \<Rightarrow> 's \<Rightarrow> bool"
    and fits :: "bytes \<Rightarrow> bool"
  assumes answers: "at b s \<Longrightarrow> fits wire \<Longrightarrow>
    \<exists>b'. rt wire b = Some (Inr (fst (respond wire s)), b') \<and> at b' (snd (respond wire s))"
begin

lemma related_env:
  assumes "\<And>wire. request fe wire \<Longrightarrow> fits wire"
  shows "same_env at fe (backend_env parse lower rt) (session_env parse lower respond)"
proof -
  have "simulates at (de_roundtrip (backend_env parse lower rt) wire) (de_roundtrip (session_env parse lower respond) wire)"
    if "request fe wire" for wire
    unfolding simulates_def
  proof (intro allI impI)
    fix b s assume "at b s"
    from answers [OF this assms [OF that]] obtain b'
      where "rt wire b = Some (Inr (fst (respond wire s)), b')" "at b' (snd (respond wire s))" by blast
    then show "fst (de_roundtrip (backend_env parse lower rt) wire b) =
          fst (de_roundtrip (session_env parse lower respond) wire s) \<and>
        at (snd (de_roundtrip (backend_env parse lower rt) wire b)) (snd (de_roundtrip (session_env parse lower respond) wire s))"
      by (simp add: backend_env_def session_env_def)
  qed
  then show ?thesis by (simp add: same_env_def) (simp add: backend_env_def session_env_def)
qed

lemma handle_refines:
  assumes "\<And>wire. request fe wire \<Longrightarrow> fits wire" and "at (db_backend b) (db_backend s)"
    and "db_listeners b = db_listeners s" "db_next b = db_next s" "db_calls b = db_calls s"
  shows "fst (handle_run (backend_env parse lower rt) fe ops b) = fst (handle_run (session_env parse lower respond) fe ops s) \<and>
    same_db at (snd (handle_run (backend_env parse lower rt) fe ops b))
      (snd (handle_run (session_env parse lower respond) fe ops s))"
  by (rule same_run [OF related_env [OF assms(1)]]) (simp_all add: same_db_def assms)

end

section \<open>The engine thread and a connection\<close>

text \<open>
  A round trip with the engine has as much fuel as the progress of the pump, \<open>m\<close>, asks for. The session is the C side.
\<close>

definition request_io :: "bytes \<Rightarrow> engine_io" where
  "request_io wire = \<lparr>io_input = wire, io_off = 0, io_output = []\<rparr>"

fun engine_rt ::
  "'c engine_c \<Rightarrow> ('c \<Rightarrow> engine_io \<Rightarrow> nat) \<Rightarrow> bytes \<Rightarrow> 'c engine_thread \<Rightarrow> (bytes res \<times> 'c engine_thread) option" where
  "engine_rt ops m wire (Running c io) = backend_roundtrip ops (Suc (m c (request_io wire))) wire (Running c io)"
| "engine_rt ops m wire Gone = backend_roundtrip ops 0 wire Gone"

definition engine_session :: "'c engine_c \<Rightarrow> ('c \<Rightarrow> engine_io \<Rightarrow> nat) \<Rightarrow> bytes \<Rightarrow> 'c \<Rightarrow> bytes \<times> 'c" where
  "engine_session ops m wire c =
     (case exec_protocol ops (Suc (m c (request_io wire))) wire c (request_io []) of
        None \<Rightarrow> ([], c)
      | Some (out, c', _) \<Rightarrow> (out, c'))"

fun runs_at :: "'c engine_thread \<Rightarrow> 'c \<Rightarrow> bool" where
  "runs_at (Running c io) c' = (c = c')"
| "runs_at Gone c' = False"

interpretation on_engine: session_backend "engine_rt ops m" "engine_session ops m" runs_at
  "\<lambda>_. by_callbacks ops \<and> pump_progress ops m" for ops :: "'c engine_c" and m
proof
  fix b and c :: 'c and wire assume "runs_at b c" and fits: "by_callbacks ops \<and> pump_progress ops m"
  then obtain io where b: "b = Running c io" by (cases b) auto
  have "m c \<lparr>io_input = wire, io_off = 0, io_output = []\<rparr> < Suc (m c (request_io wire))" by (simp add: request_io_def)
  then obtain out c' io' where "\<And>io. exec_protocol ops (Suc (m c (request_io wire))) wire c io = Some (out, c', io')"
    using exec_returns [of ops m c wire "Suc (m c (request_io wire))"] fits by blast
  then show "\<exists>b'. engine_rt ops m wire b = Some (Inr (fst (engine_session ops m wire c)), b') \<and>
      runs_at b' (snd (engine_session ops m wire c))"
    by (simp add: b engine_session_def)
qed

text \<open>
  A connection: what the server has sent and nobody has read yet, and the server's session. The worker writes a request and
  reads a reply; the server answers to what it was sent.
\<close>

fun conn_rt :: "(bytes \<Rightarrow> 's \<Rightarrow> bytes \<times> 's) \<Rightarrow> bytes \<Rightarrow> bytes \<times> 's \<Rightarrow> (bytes res \<times> (bytes \<times> 's)) option" where
  "conn_rt respond wire (unread, s) =
     (case respond wire s of (out, s') \<Rightarrow>
        map_option (\<lambda>(r, rest). (r, (rest, s'))) (read_response False [] (unread @ out)))"

definition single_reply :: "bytes \<Rightarrow> bool" where
  "single_reply out \<longleftrightarrow> (\<exists>fs b. no_ready fs \<and> body_ok b \<and> out = frames fs @ frame (bch CHR ''Z'') b)"

interpretation on_conn: session_backend "conn_rt respond" respond "\<lambda>b s. b = ([], s)"
  "\<lambda>wire. \<forall>s. single_reply (fst (respond wire s))" for respond :: "bytes \<Rightarrow> 's \<Rightarrow> bytes \<times> 's"
proof
  fix b :: "bytes \<times> 's" and s and wire assume b: "b = ([], s)" and fits: "\<forall>s. single_reply (fst (respond wire s))"
  obtain out s' where r: "respond wire s = (out, s')" by fastforce
  then obtain fs bd where "no_ready fs" "body_ok bd" and out: "out = frames fs @ frame (bch CHR ''Z'') bd"
    using fits [rule_format, of s] by (auto simp: single_reply_def)
  then have "read_response False [] out = Some (Inr out, [])" using read_reply [of fs bd False "[]"] by simp
  then show "\<exists>b'. conn_rt respond wire b = Some (Inr (fst (respond wire s)), b') \<and> b' = ([], snd (respond wire s))"
    by (simp add: b r)
qed

section \<open>A handle behaves as its session\<close>

text \<open>What the user of a fresh handle sees: the results, the calls of callbacks, and which callbacks are left.\<close>

definition observed ::
  "'b db_env \<Rightarrow> ('ty, 'v) frontend \<Rightarrow> ('ty, 'v, 'k) handle_op list \<Rightarrow> 'b \<Rightarrow>
     'ty outcome res list \<times> ('k \<times> string) list \<times> 'k listener_map" where
  "observed env fe ops b = (case handle_run env fe ops (fresh_db b) of (rs, s) \<Rightarrow> (rs, db_calls s, db_listeners s))"

lemma observed_same:
  assumes "fst (handle_run d fe ops (fresh_db b)) = fst (handle_run e fe ops (fresh_db c)) \<and>
    same_db H (snd (handle_run d fe ops (fresh_db b))) (snd (handle_run e fe ops (fresh_db c)))"
  shows "observed d fe ops b = observed e fe ops c"
  using assms by (auto simp: observed_def same_db_def split: prod.split)


definition toy_server :: "bytes \<Rightarrow> nat \<Rightarrow> bytes \<times> nat" where
  "toy_server wire n = (frames [(bch CHR ''C'', [83, 0])] @ frame (bch CHR ''Z'') [73], n + 1)"

definition toy_frontend :: "(unit, unit) frontend" where
  "toy_frontend = \<lparr>fe_type_from_oid = (\<lambda>_. None), fe_text = (), fe_oid = (\<lambda>_. 25), fe_parse = (\<lambda>_ _. Inr [80]),
     fe_describe = Inr [68], fe_bind = (\<lambda>_. Inr [66]), fe_execute = Inr [69], fe_sync = [83]\<rparr>"

lemma toy_reply: "single_reply (fst (toy_server wire n))"
  unfolding toy_server_def single_reply_def fst_conv
  by (intro exI [of _ "[(bch CHR ''C'', [83, 0])]"] exI [of _ "[73]"]) (simp add: body_ok_def)


text \<open>
  A reply with two ReadyForQuery leaves the second part to the next request on the connection, which gets it instead of its own.
\<close>

lemma conn_out_of_step:
  assumes "single_reply first" and "single_reply second" and "respond wire s = (first @ second, s')"
  shows "conn_rt respond wire ([], s) = Some (Inr first, (second, s'))" and "conn_rt respond wire' (second, t) = Some (Inr second, respond wire' t)"
proof -
  have "read_response False [] (out @ rest) = Some (Inr out, rest)" if "single_reply out" for out rest
    using that read_reply [of _ _ False rest] by (auto simp: single_reply_def)
  then show "conn_rt respond wire ([], s) = Some (Inr first, (second, s'))"
    and "conn_rt respond wire' (second, t) = Some (Inr second, respond wire' t)"
    using assms by (simp_all split: prod.split)
qed

end
