(* ===== verification/LocalDb.thy ===== *)
theory LocalDb
  imports Handle Frame
begin

text \<open>
  The replica on a handle: the statements and queries of the replica (\<^verbatim>\<open>replica/meta.rs\<close>, \<^verbatim>\<open>replica/backfill.rs\<close>) over
  \<open>PGlite::exec\<close> and \<open>PGlite::query\<close> of \<^verbatim>\<open>db.rs\<close>. Every routine that the replica runs against its local database has, over the engine
  thread and over a connection, the results it has on the bare session.
\<close>

section \<open>Simulation of the routines\<close>

definition db_simulates :: "('w \<Rightarrow> 'x \<Rightarrow> bool) \<Rightarrow> 'w db_ops \<Rightarrow> 'x db_ops \<Rightarrow> bool" where
  "db_simulates R d e \<longleftrightarrow>
     (\<forall>q. simulates R (db_exec d q) (db_exec e q)) \<and> (\<forall>q ps. simulates R (db_query d q ps) (db_query e q ps))"

lemma sim_db [simulated]:
  assumes "db_simulates R d e"
  shows "simulates R (db_exec d q) (db_exec e q)" "simulates R (db_query d q ps) (db_query e q ps)"
  using assms by (simp_all add: db_simulates_def)

lemma sim_for [simulated]: "(\<And>x. simulates R (f x) (g x)) \<Longrightarrow> simulates R (forA xs f) (forA xs g)"
  by (induction xs) (auto intro: simulated)

lemma sim_list [simulated]:
  "simulates R a b \<Longrightarrow> (\<And>x xs. simulates R (f x xs) (g x xs)) \<Longrightarrow>
     simulates R (case l of [] \<Rightarrow> a | x # xs \<Rightarrow> f x xs) (case l of [] \<Rightarrow> b | x # xs \<Rightarrow> g x xs)"
  by (cases l) simp_all

lemma sim_option [simulated]:
  "simulates R a b \<Longrightarrow> (\<And>x. simulates R (f x) (g x)) \<Longrightarrow>
     simulates R (case v of None \<Rightarrow> a | Some x \<Rightarrow> f x) (case v of None \<Rightarrow> b | Some x \<Rightarrow> g x)"
  by (cases v) simp_all

lemma sim_Let [simulated]: "(\<And>x. simulates R (f x) (g x)) \<Longrightarrow> simulates R (let x = v in f x) (let x = v in g x)"
  by simp

lemma sim_ensure_meta_table: "db_simulates R d e \<Longrightarrow> simulates R (ensure_meta_table d) (ensure_meta_table e)"
  unfolding ensure_meta_table_def by (intro simulated)

lemma sim_load_state: "db_simulates R d e \<Longrightarrow> simulates R (load_state d) (load_state e)"
  unfolding load_state_def by (intro simulated)

lemma sim_init_state: "db_simulates R d e \<Longrightarrow> simulates R (init_state d s p l fp) (init_state e s p l fp)"
  unfolding init_state_def by (intro simulated)

lemma sim_bump_security: "db_simulates R d e \<Longrightarrow> simulates R (bump_security d fp) (bump_security e fp)"
  unfolding bump_security_def by (intro simulated)

lemma sim_security_version: "db_simulates R d e \<Longrightarrow> simulates R (security_version d) (security_version e)"
  unfolding security_version_def by (intro simulated)

lemma sim_bootstrap_schema: "db_simulates R d e \<Longrightarrow> simulates R (bootstrap_schema d tys ts) (bootstrap_schema e tys ts)"
  unfolding bootstrap_schema_def rebuild_type_def rebuild_table_def ensure_schema_def run_query_def
  by (intro simulated)

lemma sim_sync_tables: "db_simulates R d e \<Longrightarrow> simulates R (sync_tables visit d old ts) (sync_tables visit e old ts)"
  unfolding sync_tables_def delta_drop_def delta_table_def delta_add_def delta_old_def
    rebuild_table_def ensure_schema_def run_query_def
  by (intro simulated)

lemma sim_reconcile_security: "db_simulates R d e \<Longrightarrow> simulates R (reconcile_security d sec) (reconcile_security e sec)"
  unfolding reconcile_security_def sync_role_def revoke_member_def grant_member_def
    sync_table_security_def sync_rls_def sync_grants_def sync_policies_def drop_policy_def do_query_def
  by (intro simulated)

section \<open>The replica's database\<close>

text \<open>
  The handle as the replica sees it: a parameter is a string (\<open>as_value\<close>), a row the texts of its cells. The replica asks only for
  columns of text.
\<close>

definition handle_db :: "'b db_env \<Rightarrow> ('ty, 'v) frontend \<Rightarrow> (string \<Rightarrow> 'v) \<Rightarrow> (('b, 'k) db) db_ops" where
  "handle_db env fe as_value =
     \<lparr>db_exec = exec_unlocked env,
      db_query = (\<lambda>q ps. thenA (query_unlocked env fe q (map as_value ps)) (map row_cells))\<rparr>"

lemma handle_db_simulates:
  "same_env H fe d e \<Longrightarrow> db_simulates (same_db H) (handle_db d fe as_value) (handle_db e fe as_value)"
  unfolding db_simulates_def handle_db_def thenA_def by (auto intro: simulated)

text \<open>The routines, as one operation.\<close>

datatype local_task =
  EnsureMeta
| LoadState
| InitState string string lsn string
| BumpSecurity string
| SecurityVersion
| Bootstrap "type_def list" "table_def list"
| SyncTables old_map "table_def list"
| Reconcile security_catalog

datatype local_result = Settled | Loaded "replica_state option" | Version u64

fun run_task :: "((string \<times> string) list \<Rightarrow> (string \<times> string) list) \<Rightarrow> 'w db_ops \<Rightarrow> local_task \<Rightarrow> ('w, local_result) act" where
  "run_task visit db EnsureMeta = thenA (ensure_meta_table db) (\<lambda>_. Settled)"
| "run_task visit db LoadState = thenA (load_state db) Loaded"
| "run_task visit db (InitState slot pub wm fp) = thenA (init_state db slot pub wm fp) (\<lambda>_. Settled)"
| "run_task visit db (BumpSecurity fp) = thenA (bump_security db fp) (\<lambda>_. Settled)"
| "run_task visit db SecurityVersion = thenA (security_version db) Version"
| "run_task visit db (Bootstrap tys ts) = thenA (bootstrap_schema db tys ts) (\<lambda>_. Settled)"
| "run_task visit db (SyncTables old ts) = thenA (sync_tables visit db old ts) (\<lambda>_. Settled)"
| "run_task visit db (Reconcile sec) = thenA (reconcile_security db sec) (\<lambda>_. Settled)"

lemma sim_task: "db_simulates R d e \<Longrightarrow> simulates R (run_task visit d task) (run_task visit e task)"
  by (cases task) (auto simp: thenA_def intro!: simulates_bind simulates_const sim_ensure_meta_table sim_load_state
      sim_init_state sim_bump_security sim_security_version sim_bootstrap_schema sim_sync_tables sim_reconcile_security)

text \<open>
  Each routine of the replica ends, over the engine thread and over a connection, with the result it has on the bare session, and
  leaves the session as it is left there.
\<close>

theorem replica_on_session:
  assumes "by_callbacks cside" and "pump_progress cside m"
    and "\<And>wire s. request fe wire \<Longrightarrow> single_reply (fst (respond wire s))"
  shows "simulates (same_db runs_at)
      (run_task visit (handle_db (backend_env parse lower (engine_rt cside m)) fe as_value) task)
      (run_task visit (handle_db (session_env parse lower (engine_session cside m)) fe as_value) task)"
    and "simulates (same_db (\<lambda>b s. b = ([], s)))
      (run_task visit (handle_db (backend_env parse lower (conn_rt respond)) fe as_value) task)
      (run_task visit (handle_db (session_env parse lower respond) fe as_value) task)"
  by (intro sim_task handle_db_simulates on_engine.related_env on_conn.related_env; simp add: assms)+

end
