(* ===== verification/Reaper.thy ===== *)
theory Reaper
  imports Pool
begin

text \<open>
  The reaper thread of the pool (\<^verbatim>\<open>reap_loop\<close> of \<^verbatim>\<open>pool.rs\<close>): when its rounds come, when it ends, and what a round leaves. Durations
  are in nanoseconds, as \<open>Duration\<close> keeps them.
\<close>

section \<open>The loop\<close>

definition reap_step :: nat where
  "reap_step = 500000000"

definition reap_tick :: "nat \<Rightarrow> nat" where
  "reap_tick ttl = max (ttl div 2) 1000000000"

text \<open>
  The turns of the loop: the flag \<open>stop\<close> as each turn reads it, and for each turn that sleeps whether a round follows. \<open>since\<close> is
  the time slept since the last round.
\<close>

fun reap_loop :: "nat \<Rightarrow> nat \<Rightarrow> bool list \<Rightarrow> bool list" where
  "reap_loop tick since [] = []"
| "reap_loop tick since (ended # stops) =
     (if ended then []
      else if since + reap_step < tick then False # reap_loop tick (since + reap_step) stops
      else True # reap_loop tick 0 stops)"

text \<open>The turns between two rounds.\<close>

definition reap_turns :: "nat \<Rightarrow> nat" where
  "reap_turns tick = (tick + reap_step - 1) div reap_step"

lemma reap_turns_bounds:
  assumes "0 < tick"
  shows "tick \<le> reap_turns tick * reap_step" and "reap_turns tick * reap_step < tick + reap_step" and "0 < reap_turns tick"
proof -
  have "reap_turns tick * reap_step + (tick + reap_step - 1) mod reap_step = tick + reap_step - 1"
    unfolding reap_turns_def by (rule div_mult_mod_eq)
  moreover have "(tick + reap_step - 1) mod reap_step < reap_step" by (simp add: reap_step_def)
  ultimately show b: "tick \<le> reap_turns tick * reap_step" "reap_turns tick * reap_step < tick + reap_step"
    using assms by linarith+
  show "0 < reap_turns tick" using b(1) assms by (cases "reap_turns tick") simp_all
qed

lemma more_turns:
  assumes "0 < tick"
  shows "k * reap_step < tick \<longleftrightarrow> k < reap_turns tick"
proof
  assume "k * reap_step < tick"
  then have "k * reap_step < reap_turns tick * reap_step" using reap_turns_bounds(1) [OF assms] by linarith
  then show "k < reap_turns tick" by simp
next
  assume "k < reap_turns tick"
  then have "Suc k * reap_step \<le> reap_turns tick * reap_step" by (intro mult_le_mono1) simp
  then show "k * reap_step < tick" using reap_turns_bounds(2) [OF assms] by simp
qed

lemma reap_loop_rounds:
  assumes "0 < tick" and "k < reap_turns tick"
  shows "reap_loop tick (k * reap_step) stops =
    map (\<lambda>i. (k + i + 1) mod reap_turns tick = 0) [0..<length (takeWhile Not stops)]"
  using assms(2)
proof (induction stops arbitrary: k)
  case (Cons ended stops)
  let ?n = "reap_turns tick"
  have head: "map f [0..<Suc l] = f 0 # map (\<lambda>i. f (Suc i)) [0..<l]" for f :: "nat \<Rightarrow> bool" and l
    by (simp add: upt_conv_Cons map_Suc_upt [symmetric] del: upt_Suc)
  show ?case
  proof (cases "ended \<or> Suc k < ?n")
    case True
    then show ?thesis
      using Cons.IH [of "Suc k"] more_turns [OF assms(1), of "Suc k"]
      by (auto simp: head add.commute [of reap_step] simp del: upt_Suc)
  next
    case False
    then have n: "?n = Suc k" using Cons.prems by simp
    then have "\<not> k * reap_step + reap_step < tick" using more_turns [OF assms(1), of "Suc k"] by (simp add: add.commute)
    moreover have "Suc (Suc (k + i)) mod Suc k = Suc i mod Suc k" for i
      using mod_add_self2 [of "Suc i" "Suc k"] by (simp add: add.commute)
    ultimately show ?thesis
      using False n Cons.IH [of 0] by (simp add: head del: upt_Suc mod_Suc)
  qed
qed simp

lemma multiple_near:
  assumes "0 < (m :: nat)"
  shows "\<exists>j < m. (i + j + 1) mod m = 0"
proof (intro exI [of _ "m - 1 - i mod m"] conjI)
  have "i mod m < m" using assms by simp
  then have "i + (m - 1 - i mod m) + 1 = i div m * m + m" using div_mult_mod_eq [of i m] by linarith
  then show "(i + (m - 1 - i mod m) + 1) mod m = 0" by (simp only:) simp
qed (use assms in simp)

lemma round_comes:
  assumes "0 < tick" and "i + reap_turns tick \<le> length (takeWhile Not stops)"
  shows "\<exists>j < reap_turns tick. reap_loop tick 0 stops ! (i + j)"
proof -
  have rounds: "reap_loop tick 0 stops = map (\<lambda>i. (i + 1) mod reap_turns tick = 0) [0..<length (takeWhile Not stops)]"
    using reap_loop_rounds [OF assms(1) reap_turns_bounds(3) [OF assms(1)], of stops] by simp
  from multiple_near [OF reap_turns_bounds(3) [OF assms(1)], of i]
  obtain j where j: "j < reap_turns tick \<and> (i + j + 1) mod reap_turns tick = 0" ..
  then have "i + j < length (takeWhile Not stops)" using assms(2) by linarith
  then have "reap_loop tick 0 stops ! (i + j) \<longleftrightarrow> (i + j + 1) mod reap_turns tick = 0"
    by (simp only: rounds nth_map length_upt diff_zero nth_upt add_0)
  then show ?thesis using j by (intro exI [of _ j]) (simp only:)
qed

section \<open>What a round leaves\<close>

text \<open>
  The pool with the clock of its releases and rounds, which does not go back: the idle queue is in the order of last use.
\<close>

fun event_time :: "event \<Rightarrow> nat option" where
  "event_time (Release now t) = Some now"
| "event_time (Reap now) = Some now"
| "event_time _ = None"

definition clocked_step :: "pool_config \<Rightarrow> event \<Rightarrow> pool \<times> nat \<Rightarrow> (pool \<times> nat) option" where
  "clocked_step cfg ev = (\<lambda>(s, clk).
     let now = (case event_time ev of None \<Rightarrow> clk | Some now \<Rightarrow> now) in
     if now < clk then None else map_option (\<lambda>s. (s, now)) (pool_step cfg ev s))"

definition in_order :: "pool_config \<Rightarrow> pool \<times> nat \<Rightarrow> bool" where
  "in_order cfg = (\<lambda>(s, clk).
     pool_ok cfg s \<and> sorted (map (pl_used s) (pl_idle s)) \<and> (\<forall>c \<in> set (pl_idle s). pl_used s c \<le> clk))"

text \<open>Every step but a release takes connections from the two ends of the queue.\<close>

lemma pop_alive_front: "pop_alive ok idle live = (c, idle', live') \<Longrightarrow> \<exists>rear. idle = idle' @ rear"
proof (induction ok idle live arbitrary: c rule: pop_alive.induct)
  case (1 ok idle live)
  show ?case
  proof (cases "idle = [] \<or> ok (last idle)")
    case False
    then have "pop_alive ok (butlast idle) (live - 1) = (c, idle', live')"
      using "1.prems" by (simp add: pop_alive.simps [of ok idle live])
    then obtain rear where "butlast idle = idle' @ rear" using "1.IH" False by blast
    then have "idle = idle' @ rear @ [last idle]" using False append_butlast_last_id [of idle] by simp
    then show ?thesis by blast
  next
    case True
    then show ?thesis
      using "1.prems" by (auto simp: pop_alive.simps [of ok idle live] split: if_splits
          intro: exI [of _ "[last idle]"])
  qed
qed

lemma reap_back: "reap expired mn idle live = (idle', live') \<Longrightarrow> \<exists>front. idle = front @ idle'"
proof (induction expired mn idle live arbitrary: live' rule: reap.induct)
  case (2 expired mn c idle live)
  show ?case
  proof (cases "mn < length (c # idle) \<and> expired c")
    case True
    then obtain front where "idle = front @ idle'" using 2 by auto
    then have "c # idle = (c # front) @ idle'" by simp
    then show ?thesis by blast
  qed (use 2 in auto)
qed simp

lemma step_idle:
  assumes "pool_step cfg ev s = Some s'" and "\<And>now t. ev \<noteq> Release now t"
  shows "pl_used s' = pl_used s \<and> (\<exists>front rear. pl_idle s = front @ pl_idle s' @ rear)"
proof -
  have keep: "\<exists>front rear. xs = front @ xs @ rear" for xs :: "nat list" by (intro exI [of _ "[]"]) simp
  have cut: "\<exists>front rear. xs = front @ butlast xs @ rear" if "xs \<noteq> []" for xs :: "nat list"
    using that by (intro exI [of _ "[]"] exI [of _ "[last xs]"]) simp
  show ?thesis
  proof (cases ev)
    case (Acquire t)
    obtain c idle live where p: "pop_alive (is_alive s) (pl_idle s) (pl_live s) = (c, idle, live)" by (metis prod_cases3)
    then obtain rear where "pl_idle s = [] @ idle @ rear" using pop_alive_front by fastforce
    moreover have "pl_idle s' = idle \<and> pl_used s' = pl_used s"
      using assms(1) Acquire p by (auto simp: acquire_section_def split: if_splits option.splits)
    ultimately show ?thesis by blast
  next
    case (Fire t)
    then show ?thesis using assms(1) by (auto simp: fire_section_def keep cut split: if_splits)
  next
    case (Reap now)
    obtain idle live where r: "reap (\<lambda>c. \<not> is_alive s c \<or> now - pl_used s c \<ge> pc_idle_ttl cfg) (pc_min cfg) (pl_idle s) (pl_live s) =
        (idle, live)" by fastforce
    then obtain front where "pl_idle s = front @ idle @ []" using reap_back by fastforce
    moreover have "pl_idle s' = idle \<and> pl_used s' = pl_used s" using assms(1) Reap r by (auto simp: reap_section_def Let_def)
    ultimately show ?thesis by blast
  qed (use assms keep in \<open>auto simp: spawn_section_def receive_section_def give_up_section_def Let_def
      split: if_splits option.splits task.splits\<close>)
qed

lemma step_release:
  assumes "pool_step cfg (Release now t) s = Some s'" and "pool_ok cfg s"
  shows "\<exists>c. (\<forall>x \<in> set (pl_idle s). pl_used s' x = pl_used s x) \<and>
    (pl_idle s' = pl_idle s \<or> pl_used s' c = now \<and> pl_idle s' = pl_idle s @ [c])"
proof -
  obtain c where c: "task_at s t = Some (Holding c)" "s' = release_section now t c s"
    using assms(1) by (auto split: option.splits task.splits)
  have "pl_tasks s ! t \<in> set (pl_tasks s)" "conns_of (pl_tasks s ! t) = [c]"
    using c(1) nth_mem [of t "pl_tasks s"] by (auto simp: task_at_def simp del: nth_mem split: if_splits)
  then have "c \<in> set (concat (map conns_of (pl_tasks s)))" by force
  then have "c \<notin> set (pl_idle s)" using assms(2) by (auto simp: pool_ok_def owned_def)
  then show ?thesis
    using c(2) by (intro exI [of _ c]) (auto simp: release_section_def Let_def split: if_splits option.splits prod.splits)
qed

interpretation ordered: machine "clocked_step cfg" "\<lambda>_. True" "in_order cfg" for cfg
proof
  fix sc sc' :: "pool \<times> nat" and ev
  assume ok: "in_order cfg sc" and st: "clocked_step cfg ev sc = Some sc'"
  obtain s clk where sc: "sc = (s, clk)" by fastforce
  obtain s' now where sc': "sc' = (s', now)" by fastforce
  have now: "clk \<le> now" and s': "pool_step cfg ev s = Some s'"
    using st by (auto simp: clocked_step_def sc sc' Let_def split: if_splits)
  have inv: "pool_ok cfg s" "sorted (map (pl_used s) (pl_idle s))" "\<And>c. c \<in> set (pl_idle s) \<Longrightarrow> pl_used s c \<le> now"
    using ok now by (auto simp: in_order_def sc intro: le_trans)
  have "sorted (map (pl_used s') (pl_idle s')) \<and> (\<forall>c \<in> set (pl_idle s'). pl_used s' c \<le> now)"
  proof (cases "\<exists>t m. ev = Release m t")
    case False
    then obtain front rear where "pl_used s' = pl_used s" "pl_idle s = front @ pl_idle s' @ rear"
      using step_idle [OF s'] by blast
    then show ?thesis using inv(2,3) by (auto simp: sorted_append)
  next
    case True
    then obtain t where ev: "ev = Release now t" using st by (auto simp: clocked_step_def sc sc' Let_def split: if_splits)
    obtain c where same: "\<forall>x \<in> set (pl_idle s). pl_used s' x = pl_used s x"
        and c: "pl_idle s' = pl_idle s \<or> pl_used s' c = now \<and> pl_idle s' = pl_idle s @ [c]"
      using step_release [OF s' [unfolded ev] inv(1)] by blast
    have "map (pl_used s') (pl_idle s) = map (pl_used s) (pl_idle s)" using same by simp
    then have "sorted (map (pl_used s') (pl_idle s))" using inv(2) by (simp only:)
    then show ?thesis using c same inv(3) by (auto simp: sorted_append)
  qed
  then show "in_order cfg sc'" using step_ok [OF inv(1) s'] by (simp add: in_order_def sc')
qed

lemma reap_leaves:
  "reap expired mn idle live = (idle', live') \<Longrightarrow> length idle' \<le> mn \<or> (idle' \<noteq> [] \<and> \<not> expired (hd idle'))"
  by (induction expired mn idle live rule: reap.induct) (auto split: if_splits)



end
