(* ===== verification/Fairness.thy ===== *)
theory Fairness
  imports Pool "HOL-Library.Sublist"
begin

text \<open>
  The functions of the pool (\<open>acquire\<close>, \<open>roundtrip\<close>, \<open>checkout\<close>, \<open>fire_and_forget\<close> of \<^verbatim>\<open>pool.rs\<close>) as sequences of their critical sections
  with those of other tasks between them: what a caller has when they return. And who may wait for ever: waiters are served
  from the end of the list.
\<close>

section \<open>The order of service\<close>

definition one_conn :: pool_config where
  "one_conn = \<lparr>pc_min = 0, pc_max = 1, pc_idle_ttl = 60\<rparr>"

text \<open>Task 0 waits on channel \<open>a\<close>, longer than task \<open>j\<close> on \<open>b\<close>, for the connection \<open>c\<close> of task \<open>i\<close>.\<close>

definition contended :: "nat \<Rightarrow> nat \<Rightarrow> pool \<Rightarrow> bool" where
  "contended i j s \<longleftrightarrow>
     (i, j) \<in> {(1, 2), (2, 1)} \<and> length (pl_tasks s) = 3 \<and> pl_idle s = [] \<and> pl_live s = 1 \<and>
     (\<exists>a b c. a < b \<and> b < pl_next s \<and> pl_waiters s = [a, b] \<and> is_alive s c \<and>
        pl_tasks s ! 0 = Waiting a \<and> pl_tasks s ! i = Holding c \<and> pl_tasks s ! j = Waiting b)"

definition turn :: "nat \<Rightarrow> nat \<Rightarrow> event list" where
  "turn i j = [Release 0 i, Receive j, Acquire i]"

lemma contended_turn:
  assumes "contended i j s"
  shows "\<exists>s'. pool_run one_conn (turn i j) s = Some s' \<and> contended j i s'"
proof -
  obtain a b c where ij: "(i, j) \<in> {(1, 2), (2, 1)}" and l: "length (pl_tasks s) = 3" "pl_idle s = []" "pl_live s = 1"
    and w: "a < b" "b < pl_next s" "pl_waiters s = [a, b]" "is_alive s c"
    and t: "pl_tasks s ! 0 = Waiting a" "pl_tasks s ! i = Holding c" "pl_tasks s ! j = Waiting b"
    using assms unfolding contended_def by blast
  obtain x y z where xyz: "pl_tasks s = [x, y, z]" using l(1) by (auto simp: numeral_3_eq_3 length_Suc_conv)
  have x: "x = Waiting a" using t(1) xyz by simp
  have "(i = 1 \<and> j = 2 \<and> y = Holding c \<and> z = Waiting b) \<or> (i = 2 \<and> j = 1 \<and> z = Holding c \<and> y = Waiting b)"
    using ij t(2,3) xyz by auto
  then show ?thesis
    using xyz x l(2,3) w
    by (elim disjE conjE)
      (simp_all add: turn_def contended_def one_conn_def pool_eval)
qed

fun turns :: "nat \<Rightarrow> nat \<Rightarrow> nat \<Rightarrow> event list" where
  "turns 0 i j = []"
| "turns (Suc n) i j = turn i j @ turns n j i"

lemma contended_turns:
  "contended i j s \<Longrightarrow> \<exists>s' i' j'. pool_run one_conn (turns n i j) s = Some s' \<and> contended i' j' s'"
proof (induction n arbitrary: i j s)
  case (Suc n)
  obtain s1 where "pool_run one_conn (turn i j) s = Some s1" "contended j i s1" using contended_turn [OF Suc.prems] by blast
  then show ?case using Suc.IH [of j i s1] by (simp add: run_steps_append)
qed auto

definition others_work :: "nat \<Rightarrow> event list" where
  "others_work n = [Acquire 1, Spawned 1 True, Acquire 0, Acquire 2] @ turns n 1 2"

fun event_by :: "event \<Rightarrow> nat option" where
  "event_by (Acquire t) = Some t"
| "event_by (Spawned t ok) = Some t"
| "event_by (Receive t) = Some t"
| "event_by (GiveUp t) = Some t"
| "event_by (Release now t) = Some t"
| "event_by (Fire t) = Some t"
| "event_by _ = None"

text \<open>
  The oldest waiter can starve: for every \<open>n\<close> there is a run in which task 0 begins to wait before task 2 does, and then the
  one connection is handed over \<open>n\<close> times to tasks that began to wait later, with no failure and no timeout, and task 0 still
  waits. So a task can end with \<open>PoolExhausted\<close> however often connections are released.
\<close>

theorem oldest_waiter_starves:
  "\<exists>s ch. pool_run one_conn (others_work n) (pool_start one_conn 3) = Some s \<and> task_at s 0 = Some (Waiting ch) \<and>
     filter (\<lambda>ev. event_by ev = Some 0) (others_work n) = [Acquire 0] \<and>
     length (filter (\<lambda>ev. \<exists>t. ev = Receive t) (others_work n)) = n \<and> (\<forall>t. GiveUp t \<notin> set (others_work n))"
proof -
  obtain s0 where s0: "pool_run one_conn [Acquire 1, Spawned 1 True, Acquire 0, Acquire 2] (pool_start one_conn 3) = Some s0"
      "contended 1 2 s0"
    by (simp add: contended_def one_conn_def pool_eval)
  obtain s i j where s: "pool_run one_conn (turns n 1 2) s0 = Some s" "contended i j s" using contended_turns [OF s0(2)] by blast
  then have "\<exists>ch. task_at s 0 = Some (Waiting ch)" by (auto simp: contended_def task_at_def)
  moreover have "(i, j) \<in> {(1, 2), (2, 1)} \<Longrightarrow> filter (\<lambda>ev. event_by ev = Some 0) (turns n i j) = [] \<and>
      length (filter (\<lambda>ev. \<exists>t. ev = Receive t) (turns n i j)) = n \<and> (\<forall>t. GiveUp t \<notin> set (turns n i j))" for i j
    by (induction n i j rule: turns.induct) (auto simp: turn_def)
  from this [of 1 2] have "filter (\<lambda>ev. event_by ev = Some 0) (others_work n) = [Acquire 0] \<and>
      length (filter (\<lambda>ev. \<exists>t. ev = Receive t) (others_work n)) = n \<and> (\<forall>t. GiveUp t \<notin> set (others_work n))"
    by (simp add: others_work_def)
  moreover have "pool_run one_conn (others_work n) (pool_start one_conn 3) = Some s"
    using s0(1) s(1) by (simp only: others_work_def run_steps_append bind.bind_lunit)
  ultimately show ?thesis by blast
qed

section \<open>The functions of the pool\<close>

definition others :: "nat \<Rightarrow> event list \<Rightarrow> bool" where
  "others t evs \<longleftrightarrow> list_all (\<lambda>ev. event_by ev \<noteq> Some t) evs"

text \<open>
  \<open>acquire\<close> of task \<open>t\<close>: the events from its call to its return, those of the other tasks included, what it returns and the pool at
  the return. A connection that died on its way to the waiter sends the loop round again.
\<close>

inductive acquires :: "pool_config \<Rightarrow> nat \<Rightarrow> pool \<Rightarrow> event list \<Rightarrow> nat res \<Rightarrow> pool \<Rightarrow> bool" for cfg t where
  found: "pool_step cfg (Acquire t) s = Some s' \<Longrightarrow> task_at s' t = Some (Holding c) \<Longrightarrow>
    acquires cfg t s [Acquire t] (Inr c) s'"
| made: "pool_step cfg (Acquire t) s = Some s1 \<Longrightarrow> task_at s1 t = Some Spawning \<Longrightarrow>
    pool_run cfg evs s1 = Some s2 \<Longrightarrow> others t evs \<Longrightarrow>
    pool_step cfg (Spawned t True) s2 = Some s' \<Longrightarrow> task_at s' t = Some (Holding c) \<Longrightarrow>
    acquires cfg t s (Acquire t # evs @ [Spawned t True]) (Inr c) s'"
| not_made: "pool_step cfg (Acquire t) s = Some s1 \<Longrightarrow> task_at s1 t = Some Spawning \<Longrightarrow>
    pool_run cfg evs s1 = Some s2 \<Longrightarrow> others t evs \<Longrightarrow> e \<noteq> PoolExhausted \<Longrightarrow>
    pool_step cfg (Spawned t False) s2 = Some s' \<Longrightarrow>
    acquires cfg t s (Acquire t # evs @ [Spawned t False]) (Inl e) s'"
| served: "pool_step cfg (Acquire t) s = Some s1 \<Longrightarrow> task_at s1 t = Some (Waiting ch) \<Longrightarrow>
    pool_run cfg evs s1 = Some s2 \<Longrightarrow> others t evs \<Longrightarrow>
    pool_step cfg (Receive t) s2 = Some s' \<Longrightarrow> task_at s' t = Some (Holding c) \<Longrightarrow>
    acquires cfg t s (Acquire t # evs @ [Receive t]) (Inr c) s'"
| again: "pool_step cfg (Acquire t) s = Some s1 \<Longrightarrow> task_at s1 t = Some (Waiting ch) \<Longrightarrow>
    pool_run cfg evs s1 = Some s2 \<Longrightarrow> others t evs \<Longrightarrow>
    pool_step cfg (Receive t) s2 = Some s3 \<Longrightarrow> task_at s3 t = Some Away \<Longrightarrow>
    pool_run cfg evs' s3 = Some s4 \<Longrightarrow> others t evs' \<Longrightarrow> acquires cfg t s4 rest r s' \<Longrightarrow>
    acquires cfg t s (Acquire t # evs @ Receive t # evs' @ rest) r s'"
| timed_out: "pool_step cfg (Acquire t) s = Some s1 \<Longrightarrow> task_at s1 t = Some (Waiting ch) \<Longrightarrow>
    pool_run cfg evs s1 = Some s2 \<Longrightarrow> others t evs \<Longrightarrow>
    pool_step cfg (GiveUp t) s2 = Some s' \<Longrightarrow>
    acquires cfg t s (Acquire t # evs @ [GiveUp t]) (Inl PoolExhausted) s'"

text \<open>
  \<open>roundtrip\<close>: acquire, the request and its reply on the connection, release. \<open>checkout\<close> is \<open>acquire\<close>, and dropping the pinned
  connection releases it. What the worker replies, if it replies, does not touch the pool.
\<close>

inductive roundtrips :: "pool_config \<Rightarrow> nat \<Rightarrow> pool \<Rightarrow> event list \<Rightarrow> 'a res \<Rightarrow> pool \<Rightarrow> bool" for cfg t where
  refused: "acquires cfg t s evs (Inl e) s' \<Longrightarrow> roundtrips cfg t s evs (Inl e) s'"
| answered: "acquires cfg t s evs (Inr c) s1 \<Longrightarrow> pool_run cfg evs' s1 = Some s2 \<Longrightarrow> others t evs' \<Longrightarrow>
    pool_step cfg (Release now t) s2 = Some s' \<Longrightarrow>
    roundtrips cfg t s (evs @ evs' @ [Release now t]) answer s'"

text \<open>\<open>fire_and_forget\<close>, with whether the request was handed to a connection.\<close>

inductive fires :: "pool_config \<Rightarrow> nat \<Rightarrow> pool \<Rightarrow> event list \<Rightarrow> bool \<Rightarrow> pool \<Rightarrow> bool" for cfg t where
  skipped: "pool_step cfg (Fire t) s = Some s' \<Longrightarrow> task_at s' t = Some Away \<Longrightarrow> fires cfg t s [Fire t] False s'"
| idle: "pool_step cfg (Fire t) s = Some s1 \<Longrightarrow> task_at s1 t = Some (Holding c) \<Longrightarrow>
    pool_run cfg evs s1 = Some s2 \<Longrightarrow> others t evs \<Longrightarrow> pool_step cfg (Release now t) s2 = Some s' \<Longrightarrow>
    fires cfg t s (Fire t # evs @ [Release now t]) True s'"
| made: "pool_step cfg (Fire t) s = Some s1 \<Longrightarrow> task_at s1 t = Some Spawning \<Longrightarrow>
    pool_run cfg evs s1 = Some s2 \<Longrightarrow> others t evs \<Longrightarrow> pool_step cfg (Spawned t True) s2 = Some s3 \<Longrightarrow>
    pool_run cfg evs' s3 = Some s4 \<Longrightarrow> others t evs' \<Longrightarrow> pool_step cfg (Release now t) s4 = Some s' \<Longrightarrow>
    fires cfg t s (Fire t # evs @ Spawned t True # evs' @ [Release now t]) True s'"
| not_made: "pool_step cfg (Fire t) s = Some s1 \<Longrightarrow> task_at s1 t = Some Spawning \<Longrightarrow>
    pool_run cfg evs s1 = Some s2 \<Longrightarrow> others t evs \<Longrightarrow> pool_step cfg (Spawned t False) s2 = Some s' \<Longrightarrow>
    fires cfg t s (Fire t # evs @ [Spawned t False]) False s'"

section \<open>What a caller has\<close>

lemma acquires_run: "acquires cfg t s evs r s' \<Longrightarrow> pool_run cfg evs s = Some s'"
  by (induction rule: acquires.induct) (simp_all add: run_steps_append)

interpretation kept: machine "pool_step cfg" "\<lambda>_. True" "pool_ok cfg" for cfg
  by unfold_locales (rule step_ok)

interpretation unlost: machine "pool_step cfg" "\<lambda>ev. \<forall>t. ev \<noteq> GiveUp t" "\<lambda>s. pl_lost s = lost" for cfg lost
proof
  fix s s' and ev assume "pl_lost s = lost" "pool_step cfg ev s = Some s'" "\<forall>t. ev \<noteq> GiveUp t"
  then show "pl_lost s' = lost"
    by (cases ev) (auto simp: acquire_section_def spawn_section_def receive_section_def release_section_def fire_section_def
        reap_section_def Let_def split: if_splits option.splits task.splits prod.splits)
qed

lemma step_away:
  "pool_step cfg (Spawned t False) s = Some s' \<Longrightarrow> task_at s' t = Some Away"
  "pool_step cfg (GiveUp t) s = Some s' \<Longrightarrow> task_at s' t = Some Away"
  by (auto simp: task_at_def spawn_section_def give_up_section_def Let_def split: if_splits option.splits task.splits)

lemma pop_alive_ok: "pop_alive ok idle live = (Some c, idle', live') \<Longrightarrow> ok c"
proof (induction ok idle live rule: pop_alive.induct)
  case (1 ok idle live)
  then show ?case by (auto simp: pop_alive.simps [of ok idle live] split: if_splits)
qed

text \<open>The connection that an own step of \<open>acquire\<close> leaves with the task is alive.\<close>

lemma step_alive:
  assumes "task_at s' t = Some (Holding c)"
  shows "pool_step cfg (Acquire t) s = Some s' \<Longrightarrow> is_alive s' c"
    and "pool_step cfg (Spawned t True) s = Some s' \<Longrightarrow> is_alive s' c"
    and "pool_step cfg (Receive t) s = Some s' \<Longrightarrow> is_alive s' c"
proof -
  show "pool_step cfg (Acquire t) s = Some s' \<Longrightarrow> is_alive s' c"
    using assms by (auto simp: acquire_section_def task_at_def is_alive_def dest: pop_alive_ok split: if_splits option.splits prod.splits)
  show "pool_step cfg (Spawned t True) s = Some s' \<Longrightarrow> is_alive s' c"
    using assms by (auto simp: spawn_section_def task_at_def is_alive_def split: if_splits)
  show "pool_step cfg (Receive t) s = Some s' \<Longrightarrow> is_alive s' c"
    using assms by (auto simp: receive_section_def task_at_def is_alive_def split: if_splits option.splits task.splits)
qed

lemma release_away:
  assumes "pool_step cfg (Release now t) s = Some s'"
  shows "task_at s' t = Some Away"
proof -
  obtain c where c: "task_at s t = Some (Holding c)" "s' = release_section now t c s"
    using assms by (auto split: option.splits task.splits)
  let ?s = "s\<lparr>pl_tasks := (pl_tasks s)[t := Away], pl_used := (pl_used s)(c := now)\<rparr>"
  have t: "t < length (pl_tasks s)" using c(1) by (auto simp: task_at_def split: if_splits)
  obtain r ws where h: "hand_over (waiting_on ?s) (pl_waiters ?s) = (r, ws)" by fastforce
  have "i \<noteq> t" if r: "r = Some i" for i
  proof -
    obtain ch where "waiting_on ?s ch = Some i" using hand_over_cases [OF h] r by auto
    then have "pl_tasks ?s ! i = Waiting ch" using waiting_on_Some [of ?s ch i] by simp
    then show ?thesis using t by auto
  qed
  then show ?thesis
    using c(2) t h by (auto simp: release_section_def task_at_def Let_def is_alive_def nth_list_update split: option.split)
qed

lemma distinct_concat_nth:
  "distinct (concat xss) \<Longrightarrow> i < length xss \<Longrightarrow> j < length xss \<Longrightarrow> i \<noteq> j \<Longrightarrow> set (xss ! i) \<inter> set (xss ! j) = {}"
proof (induction xss arbitrary: i j)
  case (Cons xs xss)
  have "set (xss ! k) \<subseteq> set (concat xss)" if "k < length xss" for k using that by force
  then show ?case using Cons by (cases i; cases j) (auto, blast+)
qed simp

text \<open>A connection that a task holds is nowhere else.\<close>

definition only_at :: "nat \<Rightarrow> nat \<Rightarrow> pool \<Rightarrow> bool" where
  "only_at t c s \<longleftrightarrow> c \<notin> set (pl_idle s) \<and> c \<notin> set (pl_lost s) \<and>
     (\<forall>u p. u \<noteq> t \<and> task_at s u = Some p \<longrightarrow> c \<notin> set (conns_of p))"

lemma held_only:
  assumes "pool_ok cfg s" and "task_at s t = Some (Holding c)"
  shows "only_at t c s"
proof -
  have d: "distinct (pl_idle s @ concat (map conns_of (pl_tasks s)) @ pl_lost s)"
    using assms(1) by (simp add: pool_ok_def owned_def)
  have t: "t < length (pl_tasks s)" "pl_tasks s ! t = Holding c" using assms(2) by (auto simp: task_at_def split: if_splits)
  have "pl_tasks s ! t \<in> set (pl_tasks s)" using t(1) by simp
  then have "c \<in> set (concat (map conns_of (pl_tasks s)))" using t(2) by force
  moreover have "c \<notin> set (conns_of (pl_tasks s ! u))" if "u \<noteq> t" "u < length (pl_tasks s)" for u
    using distinct_concat_nth [of "map conns_of (pl_tasks s)" u t] d that t by auto
  ultimately show ?thesis using d by (auto simp: only_at_def task_at_def split: if_splits)
qed

lemma acquires_outcome:
  assumes "acquires cfg t s evs r s'" and "pool_ok cfg s"
  shows "pool_ok cfg s' \<and>
    (case r of Inr c \<Rightarrow> task_at s' t = Some (Holding c) \<and> is_alive s' c \<and> only_at t c s'
     | Inl e \<Rightarrow> task_at s' t = Some Away \<and> (e = PoolExhausted \<longleftrightarrow> GiveUp t \<in> set evs))"
proof -
  have "pool_ok cfg s'" using kept.run_inv [OF acquires_run [OF assms(1)] _ assms(2)] by simp
  moreover have "case r of Inr c \<Rightarrow> task_at s' t = Some (Holding c) \<and> is_alive s' c
     | Inl e \<Rightarrow> task_at s' t = Some Away \<and> (e = PoolExhausted \<longleftrightarrow> GiveUp t \<in> set evs)"
    using assms(1)
  proof (induction rule: acquires.induct)
    case (found s s' c)
    then show ?case using step_alive(1) by simp
  next
    case (made s s1 evs s2 s' c)
    then show ?case using step_alive(2) by simp
  next
    case (served s s1 ch evs s2 s' c)
    then show ?case using step_alive(3) by simp
  qed (auto simp del: pool_step.simps simp: others_def list_all_iff step_away split: sum.splits)
  ultimately show ?thesis using held_only by (auto split: sum.splits)
qed

text \<open>A task begins to wait only when the pool is full and nothing is idle.\<close>

lemma wait_full:
  assumes "pool_step cfg (Acquire t) s = Some s'" and "task_at s' t = Some (Waiting ch)" and "pool_ok cfg s"
  shows "pl_live s' = pc_max cfg \<and> pl_idle s' = []"
proof -
  have s': "s' = acquire_section cfg t s" using assms(1) by (simp split: if_splits)
  obtain r idle live where p: "pop_alive (is_alive s) (pl_idle s) (pl_live s) = (r, idle, live)" by (metis prod_cases3)
  have "r = None \<and> \<not> live < pc_max cfg"
    using assms(2) p by (auto simp: s' acquire_section_def task_at_def split: if_splits option.splits)
  moreover have "pl_live s' \<le> pc_max cfg" using step_ok [OF assms(3,1)] by (simp add: pool_ok_def)
  ultimately show ?thesis using p pop_alive_none [of "is_alive s" "pl_idle s" "pl_live s" idle live] by (auto simp: s' acquire_section_def)
qed

lemma exhausted_full:
  "acquires cfg t s evs r s' \<Longrightarrow> r = Inl PoolExhausted \<Longrightarrow> pool_ok cfg s \<Longrightarrow>
     \<exists>pre s1. prefix pre evs \<and> pool_run cfg pre s = Some s1 \<and> pl_live s1 = pc_max cfg \<and> pl_idle s1 = []"
proof (induction rule: acquires.induct)
  case (timed_out s s1 ch evs s2 s')
  then show ?case using wait_full [of cfg t s s1 ch] by (intro exI [of _ "[Acquire t]"] exI [of _ s1]) simp
next
  case (again s s1 ch evs s2 s3 evs' s4 rest r s')
  then show ?case using wait_full [of cfg t s s1 ch] by (intro exI [of _ "[Acquire t]"] exI [of _ s1]) simp
qed simp_all

text \<open>
  C28. What \<open>acquire\<close> returns, whatever other tasks do meanwhile: a connection whose worker runs and that is the caller's alone, or an
  error that leaves the caller with nothing. The error is \<open>PoolExhausted\<close> exactly after a timeout, and only when every connection the
  pool may have was counted and none was idle as the caller began to wait. No connection is lost without a timeout or a
  dropped future.
\<close>

theorem acquire_outcomes:
  assumes "pool_reach cfg s" and "pc_min cfg \<le> pc_max cfg" and "acquires cfg t s evs r s'"
  shows "(case r of
      Inr c \<Rightarrow> task_at s' t = Some (Holding c) \<and> is_alive s' c \<and> only_at t c s'
    | Inl e \<Rightarrow> task_at s' t = Some Away \<and> (e = PoolExhausted \<longleftrightarrow> GiveUp t \<in> set evs) \<and>
        (e = PoolExhausted \<longrightarrow> (\<exists>pre s1. prefix pre evs \<and> pool_run cfg pre s = Some s1 \<and> pl_live s1 = pc_max cfg \<and> pl_idle s1 = []))) \<and>
    ((\<forall>u. GiveUp u \<notin> set evs) \<longrightarrow> pl_lost s' = pl_lost s)"
proof -
  have ok: "pool_ok cfg s" by (rule reach_ok [OF assms(1,2)])
  have "pl_lost s' = pl_lost s" if "\<forall>u. GiveUp u \<notin> set evs"
    using unlost.run_inv [OF acquires_run [OF assms(3)]] that by (auto simp: list_all_iff)
  then show ?thesis
    using acquires_outcome [OF assms(3) ok] exhausted_full [OF assms(3) _ ok] by (auto split: sum.splits)
qed

theorem acquire_outcomes_witness:
  "\<exists>s s'. pool_run demo_cfg [Acquire 0, Acquire 1, Spawned 1 True] (pool_start demo_cfg 3) = Some s \<and>
     acquires demo_cfg 2 s [Acquire 2, Release 5 0, Receive 2] (Inr 0) s' \<and> task_at s' 2 = Some (Holding 0) \<and> only_at 2 0 s'"
proof -
  obtain s s1 s2 s' where s: "pool_run demo_cfg [Acquire 0, Acquire 1, Spawned 1 True] (pool_start demo_cfg 3) = Some s"
    and run: "pool_step demo_cfg (Acquire 2) s = Some s1" "task_at s1 2 = Some (Waiting 2)"
      "pool_run demo_cfg [Release 5 0] s1 = Some s2" "pool_step demo_cfg (Receive 2) s2 = Some s'" "task_at s' 2 = Some (Holding 0)"
    by (simp add: pool_eval)
  then have a: "acquires demo_cfg 2 s ([Acquire 2] @ [Release 5 0] @ [Receive 2]) (Inr 0) s'"
    using acquires.served [of demo_cfg 2 s s1 2 "[Release 5 0]" s2 s' 0] by (simp add: others_def)
  have "pool_reach demo_cfg s" using run_reach [OF pool_reach.init s] .
  then have "task_at s' 2 = Some (Holding 0) \<and> only_at 2 0 s'"
    using acquire_outcomes [OF _ _ a] by (simp add: demo_cfg_def)
  then show ?thesis using s a by auto
qed

text \<open>\<open>roundtrip\<close> and \<open>fire_and_forget\<close> leave the caller with nothing, and lose nothing.\<close>

theorem calls_leave_nothing:
  assumes "pool_reach cfg s" and "pc_min cfg \<le> pc_max cfg"
    and "roundtrips cfg t s evs r s' \<or> fires cfg t s evs handed s'"
  shows "task_at s' t = Some Away \<and> pool_reach cfg s' \<and> ((\<forall>u. GiveUp u \<notin> set evs) \<longrightarrow> pl_lost s' = pl_lost s)"
proof -
  have ok: "pool_ok cfg s" by (rule reach_ok [OF assms(1,2)])
  have "pool_run cfg evs s = Some s' \<and> task_at s' t = Some Away"
    using assms(3)
  proof
    assume "roundtrips cfg t s evs r s'"
    then show ?thesis
    proof cases
      case (refused e)
      then show ?thesis using acquires_run acquires_outcome [OF _ ok] by fastforce
    next
      case (answered evs1 c s1 evs2 s2 now)
      then show ?thesis
        using acquires_run [of cfg t s evs1] release_away by (auto simp del: pool_step.simps simp: run_steps_append)
    qed
  next
    assume "fires cfg t s evs handed s'"
    then show ?thesis
      by cases (auto simp del: pool_step.simps simp: run_steps_append step_away release_away)
  qed
  moreover have "pl_lost s' = pl_lost s" if "pool_run cfg evs s = Some s'" "\<forall>u. GiveUp u \<notin> set evs"
    using unlost.run_inv [OF that(1)] that(2) by (auto simp: list_all_iff)
  ultimately show ?thesis using run_reach [OF assms(1)] by blast
qed

text \<open>
  The release of a connection that died wakes nobody: a task can be told that the pool is exhausted when it has no connection at all.
\<close>

theorem exhausted_with_room:
  "\<exists>s s' evs. pool_run one_conn [Acquire 1, Spawned 1 True] (pool_start one_conn 2) = Some s \<and>
     acquires one_conn 0 s evs (Inl PoolExhausted) s' \<and> pl_live s' = 0 \<and> pl_lost s' = []"
proof -
  obtain s s1 s2 s' where s: "pool_run one_conn [Acquire 1, Spawned 1 True] (pool_start one_conn 2) = Some s"
    and run: "pool_step one_conn (Acquire 0) s = Some s1" "task_at s1 0 = Some (Waiting 1)"
      "pool_run one_conn [Die 0, Release 5 1] s1 = Some s2" "pool_step one_conn (GiveUp 0) s2 = Some s'" "pl_live s' = 0" "pl_lost s' = []"
    by (simp add: pool_eval one_conn_def)
  then have "acquires one_conn 0 s ([Acquire 0] @ [Die 0, Release 5 1] @ [GiveUp 0]) (Inl PoolExhausted) s'"
    using acquires.timed_out [of one_conn 0 s s1 1 "[Die 0, Release 5 1]" s2 s'] by (simp add: others_def)
  then show ?thesis using s run(5,6) by blast
qed

end
