(* ===== verification/Transact.thy ===== *)
theory Transact
  imports Facade
begin

text \<open>
  \<open>Transaction\<close> (\<^verbatim>\<open>transaction.rs\<close>) and the routes of requests (\<open>Via\<close>, \<open>route\<close>, \<open>exec_via\<close>, \<open>query_via\<close> of \<^verbatim>\<open>db.rs\<close>,
  \<open>PinnedConn\<close> of \<^verbatim>\<open>pool.rs\<close>) as functions, in both modes: on the one backend under its lock, and on a connection taken from the
  pool. \<open>Session\<close> has the same functions as events of tasks.
\<close>

section \<open>Routes\<close>

datatype 'c via = OnBackend | OnPin 'c

text \<open>
  What a transaction uses: the handle, the lock of the backend, and the pool. \<open>te_fire\<close> and \<open>te_post\<close> send a request whose reply
  nobody awaits, to the backend and to a connection; \<open>te_acquire\<close> and \<open>te_release\<close> are those of the pool.
\<close>

record ('b, 'c) tx_env =
  te_db :: "'b db_env"
  te_multi :: bool
  te_lock :: "'b \<Rightarrow> 'b"
  te_unlock :: "'b \<Rightarrow> 'b"
  te_fire :: "bytes \<Rightarrow> 'b \<Rightarrow> 'b"
  te_acquire :: "('b, 'c) act"
  te_release :: "'c \<Rightarrow> 'b \<Rightarrow> 'b"
  te_conn :: "'c \<Rightarrow> bytes \<Rightarrow> ('b, bytes) act"
  te_post :: "'c \<Rightarrow> bytes \<Rightarrow> 'b \<Rightarrow> 'b"

text \<open>\<open>PinnedConn\<close>: the connection is in its place until the drop takes it out.\<close>

type_synonym 'c pinned = "'c option"

definition pin_roundtrip :: "('b, 'c) tx_env \<Rightarrow> 'c pinned \<Rightarrow> bytes \<Rightarrow> ('b, bytes) act" where
  "pin_roundtrip env pin wire = (case pin of None \<Rightarrow> failA Closed | Some c \<Rightarrow> te_conn env c wire)"

definition pin_fire :: "('b, 'c) tx_env \<Rightarrow> 'c pinned \<Rightarrow> bytes \<Rightarrow> 'b \<Rightarrow> 'b" where
  "pin_fire env pin wire b = (case pin of None \<Rightarrow> b | Some c \<Rightarrow> te_post env c wire b)"

definition pin_drop :: "('b, 'c) tx_env \<Rightarrow> 'c pinned \<Rightarrow> 'b \<Rightarrow> 'b" where
  "pin_drop env pin b = (case pin of None \<Rightarrow> b | Some c \<Rightarrow> te_release env c b)"

definition fire_via :: "('b, 'c) tx_env \<Rightarrow> 'c via \<Rightarrow> bytes \<Rightarrow> 'b \<Rightarrow> 'b" where
  "fire_via env via wire = (case via of OnBackend \<Rightarrow> te_fire env wire | OnPin c \<Rightarrow> pin_fire env (Some c) wire)"

definition route :: "('b, 'c) tx_env \<Rightarrow> 'c via \<Rightarrow> bytes \<Rightarrow> ('b, bytes) act" where
  "route env via wire = (case via of OnBackend \<Rightarrow> de_roundtrip (te_db env) wire | OnPin c \<Rightarrow> pin_roundtrip env (Some c) wire)"

definition via_env :: "('b, 'c) tx_env \<Rightarrow> 'c via \<Rightarrow> 'b db_env" where
  "via_env env via = (te_db env)\<lparr>de_roundtrip := route env via\<rparr>"

definition exec_via :: "('b, 'c) tx_env \<Rightarrow> 'c via \<Rightarrow> string \<Rightarrow> (('b, 'k) db, unit) act" where
  "exec_via env via sql = exec_unlocked (via_env env via) sql"

definition query_via ::
  "('b, 'c) tx_env \<Rightarrow> ('ty, 'v) frontend \<Rightarrow> 'c via \<Rightarrow> string \<Rightarrow> 'v list \<Rightarrow> (('b, 'k) db, 'ty db_row list) act" where
  "query_via env fe via sql params = query_unlocked (via_env env via) fe sql params"

section \<open>Transactions\<close>

record 'c transaction =
  tn_guard :: bool
  tn_pin :: "'c option"
  tn_done :: bool

definition on_backend :: "('b \<Rightarrow> 'b) \<Rightarrow> ('b, 'k) db \<Rightarrow> ('b, 'k) db" where
  "on_backend f s = s\<lparr>db_backend := f (db_backend s)\<rparr>"

definition tn_via :: "'c transaction \<Rightarrow> 'c via" where
  "tn_via tx = (case tn_pin tx of Some c \<Rightarrow> OnPin c | None \<Rightarrow> OnBackend)"

text \<open>The drop: ROLLBACK unless the transaction is done, then the guard, then the connection.\<close>

definition drop_tx :: "('b, 'c) tx_env \<Rightarrow> 'c transaction \<Rightarrow> ('b, 'k) db \<Rightarrow> ('b, 'k) db" where
  "drop_tx env tx =
     on_backend (\<lambda>b.
       let b = (if tn_done tx then b else (case rollback_wire of None \<Rightarrow> b | Some wire \<Rightarrow> fire_via env (tn_via tx) wire b));
           b = (if tn_guard tx then te_unlock env b else b)
       in pin_drop env (tn_pin tx) b)"

definition checkout :: "('b, 'c) tx_env \<Rightarrow> (('b, 'k) db, 'c) act" where
  "checkout env s = (case te_acquire env (db_backend s) of (r, b) \<Rightarrow> (r, s\<lparr>db_backend := b\<rparr>))"

definition begin_tx :: "('b, 'c) tx_env \<Rightarrow> (('b, 'k) db, 'c transaction) act" where
  "begin_tx env s =
     (if te_multi env then
        bindA (checkout env) (\<lambda>c s.
          let tx = \<lparr>tn_guard = False, tn_pin = Some c, tn_done = False\<rparr> in
          (case exec_via env (tn_via tx) ''BEGIN'' s of
             (Inl e, s) \<Rightarrow> (Inl e, drop_tx env tx s)
           | (Inr _, s) \<Rightarrow> (Inr tx, s))) s
      else
        (case exec_via env OnBackend ''BEGIN'' (on_backend (te_lock env) s) of
           (Inl e, s) \<Rightarrow> (Inl e, on_backend (te_unlock env) s)
         | (Inr _, s) \<Rightarrow> (Inr \<lparr>tn_guard = True, tn_pin = None, tn_done = False\<rparr>, s)))"

definition tx_exec_sql :: "('b, 'c) tx_env \<Rightarrow> 'c transaction \<Rightarrow> string \<Rightarrow> (('b, 'k) db, unit) act" where
  "tx_exec_sql env tx sql = exec_via env (tn_via tx) sql"

definition tx_query_sql ::
  "('b, 'c) tx_env \<Rightarrow> ('ty, 'v) frontend \<Rightarrow> 'c transaction \<Rightarrow> string \<Rightarrow> 'v list \<Rightarrow> (('b, 'k) db, 'ty db_row list) act" where
  "tx_query_sql env fe tx sql params = query_via env fe (tn_via tx) sql params"

text \<open>
  A statement or a query outside a transaction: with one backend it holds the lock while it runs; in the pool each of its round
  trips takes a connection of its own.
\<close>

definition serial_guard :: "('b, 'c) tx_env \<Rightarrow> (('b, 'k) db, 'a) act \<Rightarrow> (('b, 'k) db, 'a) act" where
  "serial_guard env act s =
     (if te_multi env then act s
      else (case act (on_backend (te_lock env) s) of (r, s) \<Rightarrow> (r, on_backend (te_unlock env) s)))"

definition pg_exec :: "('b, 'c) tx_env \<Rightarrow> string \<Rightarrow> (('b, 'k) db, unit) act" where
  "pg_exec env sql = serial_guard env (exec_via env OnBackend sql)"

definition pg_query :: "('b, 'c) tx_env \<Rightarrow> ('ty, 'v) frontend \<Rightarrow> string \<Rightarrow> 'v list \<Rightarrow> (('b, 'k) db, 'ty db_row list) act" where
  "pg_query env fe sql params = serial_guard env (query_via env fe OnBackend sql params)"

text \<open>\<open>commit\<close> and \<open>rollback\<close> take the transaction; it is dropped, done, when they return.\<close>

definition end_tx :: "('b, 'c) tx_env \<Rightarrow> string \<Rightarrow> 'c transaction \<Rightarrow> (('b, 'k) db, unit) act" where
  "end_tx env sql tx s =
     (let tx = tx\<lparr>tn_done := True\<rparr> in case exec_via env (tn_via tx) sql s of (r, s) \<Rightarrow> (r, drop_tx env tx s))"

definition commit_tx :: "('b, 'c) tx_env \<Rightarrow> 'c transaction \<Rightarrow> (('b, 'k) db, unit) act" where
  "commit_tx env = end_tx env ''COMMIT''"

definition rollback_tx :: "('b, 'c) tx_env \<Rightarrow> 'c transaction \<Rightarrow> (('b, 'k) db, unit) act" where
  "rollback_tx env = end_tx env ''ROLLBACK''"

section \<open>A transaction from begin to end\<close>

text \<open>What a user does: statements and queries, whatever they return, and one of the three ends.\<close>

datatype 'v tx_op = TxExec string | TxQuery string "'v list"

datatype tx_ending = EndCommit | EndRollback | EndDrop

definition tx_op_act :: "('b, 'c) tx_env \<Rightarrow> ('ty, 'v) frontend \<Rightarrow> 'c transaction \<Rightarrow> 'v tx_op \<Rightarrow> (('b, 'k) db, unit) act" where
  "tx_op_act env fe tx op =
     (case op of
        TxExec sql \<Rightarrow> tx_exec_sql env tx sql
      | TxQuery sql params \<Rightarrow> bindA (tx_query_sql env fe tx sql params) (\<lambda>_. retA ()))"

fun tx_body :: "('b, 'c) tx_env \<Rightarrow> ('ty, 'v) frontend \<Rightarrow> 'c transaction \<Rightarrow> 'v tx_op list \<Rightarrow> ('b, 'k) db \<Rightarrow> ('b, 'k) db" where
  "tx_body env fe tx [] s = s"
| "tx_body env fe tx (op # ops) s = tx_body env fe tx ops (snd (tx_op_act env fe tx op s))"

definition tx_finish :: "('b, 'c) tx_env \<Rightarrow> tx_ending \<Rightarrow> 'c transaction \<Rightarrow> (('b, 'k) db, unit) act" where
  "tx_finish env ending tx =
     (case ending of EndCommit \<Rightarrow> commit_tx env tx | EndRollback \<Rightarrow> rollback_tx env tx | EndDrop \<Rightarrow> (\<lambda>s. (Inr (), drop_tx env tx s)))"

definition run_tx ::
  "('b, 'c) tx_env \<Rightarrow> ('ty, 'v) frontend \<Rightarrow> 'v tx_op list \<Rightarrow> tx_ending \<Rightarrow> (('b, 'k) db, unit) act" where
  "run_tx env fe ops ending = bindA (begin_tx env) (\<lambda>tx s. tx_finish env ending tx (tx_body env fe tx ops s))"

text \<open>What the lock, the pool and the connections see of it.\<close>

datatype 'c tx_effect = LockOn | LockOff | Taken 'c | Given 'c | Asked "'c via" bytes | Fired "'c via" bytes

definition tx_logged :: "('b, 'c) tx_env \<Rightarrow> ('b \<Rightarrow> 'c tx_effect list) \<Rightarrow> bool" where
  "tx_logged env log \<longleftrightarrow>
     (\<forall>b. log (te_lock env b) = log b @ [LockOn]) \<and> (\<forall>b. log (te_unlock env b) = log b @ [LockOff]) \<and>
     (\<forall>c b. log (te_release env c b) = log b @ [Given c]) \<and> (\<forall>via w b. log (fire_via env via w b) = log b @ [Fired via w]) \<and>
     (\<forall>via w b. log (snd (route env via w b)) = log b @ [Asked via w]) \<and>
     (\<forall>b. log (snd (te_acquire env b)) = log b @ (case fst (te_acquire env b) of Inl _ \<Rightarrow> [] | Inr c \<Rightarrow> [Taken c]))"

fun taking :: "'c via \<Rightarrow> 'c tx_effect list" where
  "taking OnBackend = [LockOn]"
| "taking (OnPin c) = [Taken c]"

fun giving :: "'c via \<Rightarrow> 'c tx_effect list" where
  "giving OnBackend = [LockOff]"
| "giving (OnPin c) = [Given c]"

text \<open>The last request. When BEGIN fails, a connection of the pool gets a ROLLBACK, the backend nothing.\<close>

definition closing_of :: "'c via \<Rightarrow> tx_ending \<Rightarrow> bool \<Rightarrow> 'c tx_effect list" where
  "closing_of via ending began =
     (if \<not> began then (if via = OnBackend then [] else [Fired via (query_wire ''ROLLBACK'')])
      else case ending of
        EndCommit \<Rightarrow> [Asked via (query_wire ''COMMIT'')]
      | EndRollback \<Rightarrow> [Asked via (query_wire ''ROLLBACK'')]
      | EndDrop \<Rightarrow> [Fired via (query_wire ''ROLLBACK'')])"

text \<open>An action that only asks on one route.\<close>

definition asks_only :: "('b \<Rightarrow> 'c tx_effect list) \<Rightarrow> 'c via \<Rightarrow> (('b, 'k) db, 'a) act \<Rightarrow> bool" where
  "asks_only log via act \<longleftrightarrow> (\<forall>s. \<exists>ws. log (db_backend (snd (act s))) = log (db_backend s) @ map (Asked via) ws)"

lemma asks_const: "asks_only log via (retA x)" "asks_only log via (failA e)" "asks_only log via (liftA r)"
  by (simp_all add: asks_only_def exI [of _ "[]"])

lemma asks_bind:
  assumes "asks_only log via a" and "\<And>x. asks_only log via (f x)"
  shows "asks_only log via (bindA a f)"
  unfolding asks_only_def
proof
  fix s
  obtain r s1 where a: "a s = (r, s1)" by fastforce
  obtain ws where ws: "log (db_backend s1) = log (db_backend s) @ map (Asked via) ws"
    using assms(1) a unfolding asks_only_def by (metis snd_conv)
  show "\<exists>ws. log (db_backend (snd (bindA a f s))) = log (db_backend s) @ map (Asked via) ws"
  proof (cases r)
    case (Inr x)
    obtain vs where "log (db_backend (snd (f x s1))) = log (db_backend s1) @ map (Asked via) vs"
      using assms(2) [of x] unfolding asks_only_def by blast
    then show ?thesis using a Inr ws by (intro exI [of _ "ws @ vs"]) (simp add: bindA_apply)
  qed (use a ws in \<open>auto simp: bindA_apply\<close>)
qed

lemma asks_prod: "(\<And>x y. asks_only log via (f x y)) \<Longrightarrow> asks_only log via (case p of (x, y) \<Rightarrow> f x y)"
  by (cases p) simp

lemma asks_if: "asks_only log via a \<Longrightarrow> asks_only log via b \<Longrightarrow> asks_only log via (if c then a else b)"
  by simp

lemma asks_process: "asks_only log via (process_response env response)"
  by (simp add: asks_only_def process_response_def process_msgs_spec exI [of _ "[]"])

lemma route_logged:
  assumes "tx_logged env log"
  shows "log (db_backend (snd (db_roundtrip (via_env env via) wire s))) = log (db_backend s) @ [Asked via wire]"
proof -
  obtain r b where r: "route env via wire (db_backend s) = (r, b)" by fastforce
  have "log (snd (route env via wire (db_backend s))) = log (db_backend s) @ [Asked via wire]"
    using assms by (simp add: tx_logged_def)
  then show ?thesis using r by (simp add: db_roundtrip_def via_env_def)
qed

lemma asks_roundtrip: "tx_logged env log \<Longrightarrow> asks_only log via (db_roundtrip (via_env env via) wire)"
  unfolding asks_only_def using route_logged by (metis list.simps(8,9))

lemma asks_exec: "tx_logged env log \<Longrightarrow> asks_only log via (exec_via env via sql)"
  unfolding exec_via_def exec_unlocked_def by (intro asks_bind asks_const asks_roundtrip asks_process)

lemma asks_query: "tx_logged env log \<Longrightarrow> asks_only log via (query_via env fe via sql params)"
  unfolding query_via_def query_unlocked_def describe_statement_def
  by (intro asks_bind asks_const asks_if asks_prod asks_roundtrip asks_process)

text \<open>The statements of the transaction itself are sent as they are.\<close>

lemma exec_logged:
  assumes "tx_logged env log" and "frontend_query sql = Inr wire"
  shows "log (db_backend (snd (exec_via env via sql s))) = log (db_backend s) @ [Asked via wire]"
proof -
  obtain r s1 where r: "db_roundtrip (via_env env via) wire s = (r, s1)" by fastforce
  have "log (db_backend s1) = log (db_backend s) @ [Asked via wire]"
    using route_logged [OF assms(1), of via wire s] r by simp
  then show ?thesis
    using r assms(2) by (cases r) (simp_all add: exec_via_def exec_unlocked_def bindA_apply process_response_def process_msgs_spec)
qed

lemma tx_wires:
  "frontend_query ''BEGIN'' = Inr (query_wire ''BEGIN'')" "frontend_query ''COMMIT'' = Inr (query_wire ''COMMIT'')"
  "frontend_query ''ROLLBACK'' = Inr (query_wire ''ROLLBACK'')" "rollback_wire = Some (query_wire ''ROLLBACK'')"
  by (simp_all add: frontend_query_def has_nul_def rollback_wire_def)

definition tx_on :: "'c via \<Rightarrow> 'c transaction" where
  "tx_on via = (case via of
     OnBackend \<Rightarrow> \<lparr>tn_guard = True, tn_pin = None, tn_done = False\<rparr>
   | OnPin c \<Rightarrow> \<lparr>tn_guard = False, tn_pin = Some c, tn_done = False\<rparr>)"

lemma drop_logged:
  assumes "tx_logged env log"
  shows "log (db_backend (drop_tx env (tx_on via) s)) =
      log (db_backend s) @ [Fired via (query_wire ''ROLLBACK'')] @ giving via"
    and "log (db_backend (drop_tx env ((tx_on via)\<lparr>tn_done := True\<rparr>) s)) = log (db_backend s) @ giving via"
  using assms by (cases via; simp add: drop_tx_def pin_drop_def on_backend_def tx_on_def tn_via_def tx_wires tx_logged_def Let_def)+

lemma via_on [simp]: "tn_via (tx_on via) = via" "tn_via ((tx_on via)\<lparr>tn_done := True\<rparr>) = via"
  by (cases via; simp add: tx_on_def tn_via_def)+

lemma finish_logged:
  assumes "tx_logged env log"
  shows "log (db_backend (snd (tx_finish env ending (tx_on via) s))) =
    log (db_backend s) @ closing_of via ending True @ giving via"
proof -
  have e: "log (db_backend (snd (end_tx env sql (tx_on via) s))) = log (db_backend s) @ [Asked via wire] @ giving via"
    if "frontend_query sql = Inr wire" for sql wire
    using exec_logged [OF assms that, of via s] drop_logged(2) [OF assms, of via "snd (exec_via env via sql s)"]
    by (cases "exec_via env via sql s") (simp add: end_tx_def)
  show ?thesis
    using e [OF tx_wires(2)] e [OF tx_wires(3)] drop_logged(1) [OF assms, of via s]
    by (cases ending) (simp_all add: tx_finish_def commit_tx_def rollback_tx_def closing_of_def)
qed

lemma body_logged:
  assumes "tx_logged env log"
  shows "\<exists>ws. log (db_backend (tx_body env fe (tx_on via) ops s)) = log (db_backend s) @ map (Asked via) ws"
proof (induction ops arbitrary: s)
  case (Cons op ops)
  have "asks_only log via (tx_op_act env fe (tx_on via) op)"
    by (cases op) (simp_all add: tx_op_act_def tx_exec_sql_def tx_query_sql_def asks_exec [OF assms] asks_query [OF assms]
        asks_bind asks_const)
  then obtain ws where "log (db_backend (snd (tx_op_act env fe (tx_on via) op s))) = log (db_backend s) @ map (Asked via) ws"
    unfolding asks_only_def by blast
  moreover obtain vs where "log (db_backend (tx_body env fe (tx_on via) ops (snd (tx_op_act env fe (tx_on via) op s)))) =
      log (db_backend (snd (tx_op_act env fe (tx_on via) op s))) @ map (Asked via) vs"
    using Cons.IH by blast
  ultimately show ?case by (intro exI [of _ "ws @ vs"]) simp
qed (simp add: exI [of _ "[]"])

lemma begin_logged:
  assumes "tx_logged env log" and "begin_tx env s = (r, s')"
  shows "(te_multi env \<and> \<not> is_ok r \<and> log (db_backend s') = log (db_backend s)) \<or>
    (\<exists>via. (via = OnBackend) = (\<not> te_multi env) \<and>
      (case r of
         Inr tx \<Rightarrow> tx = tx_on via \<and> log (db_backend s') = log (db_backend s) @ taking via @ [Asked via (query_wire ''BEGIN'')]
       | Inl e \<Rightarrow> log (db_backend s') =
           log (db_backend s) @ taking via @ [Asked via (query_wire ''BEGIN'')] @ closing_of via EndDrop False @ giving via))"
proof (cases "te_multi env")
  case False
  let ?s = "on_backend (te_lock env) s"
  have l: "log (db_backend ?s) = log (db_backend s) @ [LockOn]" using assms(1) by (simp add: tx_logged_def on_backend_def)
  obtain x s1 where x: "exec_via env OnBackend ''BEGIN'' ?s = (x, s1)" by fastforce
  have "log (db_backend s1) = log (db_backend s) @ [LockOn, Asked OnBackend (query_wire ''BEGIN'')]"
    using exec_logged [OF assms(1) tx_wires(1), of OnBackend ?s] l x by simp
  then show ?thesis
    using assms False x
    by (intro disjI2 exI [of _ OnBackend])
      (auto simp: begin_tx_def tx_on_def on_backend_def tx_logged_def closing_of_def split: sum.splits)
next
  case True
  obtain x b where x: "te_acquire env (db_backend s) = (x, b)" by fastforce
  have l: "log b = log (db_backend s) @ (case x of Inl _ \<Rightarrow> [] | Inr c \<Rightarrow> [Taken c])"
    using assms(1) x unfolding tx_logged_def by (metis fst_conv snd_conv)
  show ?thesis
  proof (cases x)
    case (Inl e)
    then show ?thesis using assms(2) True x l by (auto simp: begin_tx_def checkout_def bindA_apply)
  next
    case (Inr c)
    let ?s = "s\<lparr>db_backend := b\<rparr>" and ?tx = "tx_on (OnPin c)"
    obtain y s1 where y: "exec_via env (OnPin c) ''BEGIN'' ?s = (y, s1)" by fastforce
    have "log (db_backend s1) = log (db_backend s) @ [Taken c, Asked (OnPin c) (query_wire ''BEGIN'')]"
      using exec_logged [OF assms(1) tx_wires(1), of "OnPin c" ?s] l Inr y by simp
    moreover have "begin_tx env s = (case y of Inl e \<Rightarrow> (Inl e, drop_tx env ?tx s1) | Inr _ \<Rightarrow> (Inr ?tx, s1))"
      using True x Inr y by (auto simp: begin_tx_def checkout_def bindA_apply tx_on_def tn_via_def Let_def split: sum.splits)
    ultimately show ?thesis
      using assms(2) True drop_logged(1) [OF assms(1), of "OnPin c" s1]
      by (intro disjI2 exI [of _ "OnPin c"]) (auto simp: closing_of_def split: sum.splits)
  qed
qed

text \<open>A call outside a transaction takes the lock and gives it back, whatever it returns, or takes none.\<close>

lemma guard_logged:
  assumes "tx_logged env log" and "asks_only log OnBackend act"
  shows "\<exists>ws. log (db_backend (snd (serial_guard env act s))) = log (db_backend s) @
    (if te_multi env then map (Asked OnBackend) ws else [LockOn] @ map (Asked OnBackend) ws @ [LockOff])"
proof -
  let ?s = "if te_multi env then s else on_backend (te_lock env) s"
  obtain r s1 where act: "act ?s = (r, s1)" by fastforce
  obtain ws where "log (db_backend s1) = log (db_backend ?s) @ map (Asked OnBackend) ws"
    using assms(2) act unfolding asks_only_def by (metis snd_conv)
  then show ?thesis
    using assms(1) act by (intro exI [of _ ws]) (auto simp: serial_guard_def on_backend_def tx_logged_def split: if_splits)
qed

lemma calls_bracketed:
  assumes "tx_logged env log"
  shows "\<exists>ws. log (db_backend (snd (pg_exec env sql s))) = log (db_backend s) @
      (if te_multi env then map (Asked OnBackend) ws else [LockOn] @ map (Asked OnBackend) ws @ [LockOff])"
    and "\<exists>ws. log (db_backend (snd (pg_query env fe sql params s))) = log (db_backend s) @
      (if te_multi env then map (Asked OnBackend) ws else [LockOn] @ map (Asked OnBackend) ws @ [LockOff])"
  unfolding pg_exec_def pg_query_def
  by (rule guard_logged [OF assms asks_exec [OF assms]], rule guard_logged [OF assms asks_query [OF assms]])

text \<open>
  C35. A transaction is bracketed, in both modes and whatever fails: it takes the lock, or a connection of the pool, first, and gives
  back the same, once, at the very end; between them every request goes over that one route, BEGIN is the first, and the last is
  the one COMMIT or ROLLBACK of its end, a drop included. When BEGIN fails nothing of the user's is sent; when no
  connection is had nothing happens at all.
\<close>

theorem transaction_bracketed:
  assumes "tx_logged env log" and "run_tx env fe ops ending s = (r, s')"
  shows "(te_multi env \<and> \<not> is_ok r \<and> log (db_backend s') = log (db_backend s)) \<or>
    (\<exists>via began ws. (via = OnBackend) = (\<not> te_multi env) \<and> (\<not> began \<longrightarrow> ws = [] \<and> \<not> is_ok r) \<and>
      log (db_backend s') = log (db_backend s) @ taking via @ [Asked via (query_wire ''BEGIN'')] @ map (Asked via) ws @
        closing_of via ending began @ giving via)"
proof -
  obtain x s1 where x: "begin_tx env s = (x, s1)" by fastforce
  show ?thesis
  proof (cases x)
    case (Inl e)
    then have end_: "r = Inl e" "s' = s1" using assms(2) x by (simp_all add: run_tx_def bindA_apply)
    have same: "closing_of via ending False = closing_of via EndDrop False" for via :: "'b via" by (simp add: closing_of_def)
    from begin_logged [OF assms(1) x] show ?thesis
    proof
      assume "\<exists>via. (via = OnBackend) = (\<not> te_multi env) \<and>
        (case x of
           Inr tx \<Rightarrow> tx = tx_on via \<and> log (db_backend s1) = log (db_backend s) @ taking via @ [Asked via (query_wire ''BEGIN'')]
         | Inl e \<Rightarrow> log (db_backend s1) =
             log (db_backend s) @ taking via @ [Asked via (query_wire ''BEGIN'')] @ closing_of via EndDrop False @ giving via)"
      then obtain via where "(via = OnBackend) = (\<not> te_multi env)" "log (db_backend s1) =
          log (db_backend s) @ taking via @ [Asked via (query_wire ''BEGIN'')] @ closing_of via EndDrop False @ giving via"
        using Inl by auto
      then show ?thesis using end_ same by (intro disjI2 exI [of _ via] exI [of _ False] exI [of _ "[]"]) simp
    qed (use Inl end_ in simp)
  next
    case (Inr tx)
    then obtain via where via: "(via = OnBackend) = (\<not> te_multi env)" "tx = tx_on via"
        and l: "log (db_backend s1) = log (db_backend s) @ taking via @ [Asked via (query_wire ''BEGIN'')]"
      using begin_logged [OF assms(1) x] by auto
    obtain ws where ws: "log (db_backend (tx_body env fe tx ops s1)) = log (db_backend s1) @ map (Asked via) ws"
      using body_logged [OF assms(1)] via(2) by blast
    have "s' = snd (tx_finish env ending tx (tx_body env fe tx ops s1))" using assms(2) x Inr by (simp add: run_tx_def bindA_apply)
    moreover have "log (db_backend (snd (tx_finish env ending tx (tx_body env fe tx ops s1)))) =
        log (db_backend (tx_body env fe tx ops s1)) @ closing_of via ending True @ giving via"
      unfolding via(2) by (rule finish_logged [OF assms(1)])
    ultimately have "log (db_backend s') = log (db_backend s) @ taking via @ [Asked via (query_wire ''BEGIN'')] @ map (Asked via) ws @
        closing_of via ending True @ giving via"
      by (simp only: ws l append_assoc)
    then show ?thesis using via(1) by (intro disjI2 exI [of _ via] exI [of _ True] exI [of _ ws]) simp
  qed
qed

definition toy_route :: "nat tx_effect \<Rightarrow> (nat tx_effect list, bytes) act" where
  "toy_route e b = (Inr [], b @ [e])"

definition toy_tx_env :: "(nat tx_effect list, nat) tx_env" where
  "toy_tx_env =
     \<lparr>te_db = \<lparr>de_parse = (\<lambda>_. Inr None), de_lower = (\<lambda>c. c), de_roundtrip = (\<lambda>w. toy_route (Asked OnBackend w)), de_notify = None\<rparr>,
      te_multi = True, te_lock = (\<lambda>b. b @ [LockOn]), te_unlock = (\<lambda>b. b @ [LockOff]), te_fire = (\<lambda>w b. b @ [Fired OnBackend w]),
      te_acquire = (\<lambda>b. (Inr 4, b @ [Taken 4])), te_release = (\<lambda>c b. b @ [Given c]), te_conn = (\<lambda>c w. toy_route (Asked (OnPin c) w)),
      te_post = (\<lambda>c w b. b @ [Fired (OnPin c) w])\<rparr>"

lemma toy_logged: "tx_logged toy_tx_env (\<lambda>b. b)"
  by (simp add: tx_logged_def toy_tx_env_def toy_route_def route_def fire_via_def pin_roundtrip_def pin_fire_def split: via.split)

theorem transaction_bracketed_witness:
  "\<forall>fe. \<exists>ws. db_backend (snd (run_tx toy_tx_env fe [TxExec ''DELETE FROM t'' :: unit tx_op] EndDrop
       (fresh_db [] :: (nat tx_effect list, nat) db))) =
     [Taken 4, Asked (OnPin 4) (query_wire ''BEGIN'')] @ map (Asked (OnPin 4)) ws @ [Fired (OnPin 4) (query_wire ''ROLLBACK''), Given 4]"
proof
  fix fe
  let ?s = "fresh_db [] :: (nat tx_effect list, nat) db"
  obtain r s' where run: "run_tx toy_tx_env fe [TxExec ''DELETE FROM t'' :: unit tx_op] EndDrop ?s = (r, s')" by fastforce
  have r: "r = Inr ()" "take 1 (db_backend s') = [Taken 4]"
    using run by (auto simp: run_tx_def begin_tx_def checkout_def bindA_apply tx_finish_def tx_op_act_def tx_exec_sql_def exec_via_def
        exec_unlocked_def db_roundtrip_def via_env_def route_def pin_roundtrip_def tn_via_def toy_tx_env_def toy_route_def drop_tx_def on_backend_def
        tx_wires frontend_query_def has_nul_def process_response_def response_msgs_def fresh_db_def fire_via_def pin_fire_def pin_drop_def
        Let_def)
  have "te_multi toy_tx_env" by (simp add: toy_tx_env_def)
  then obtain via began ws where "via \<noteq> OnBackend" "began" "db_backend s' =
      taking via @ [Asked via (query_wire ''BEGIN'')] @ map (Asked via) ws @ closing_of via EndDrop began @ giving via"
    using transaction_bracketed [OF toy_logged run] r(1) by (auto simp: fresh_db_def)
  then show "\<exists>ws. db_backend (snd (run_tx toy_tx_env fe [TxExec ''DELETE FROM t'' :: unit tx_op] EndDrop ?s)) =
      [Taken 4, Asked (OnPin 4) (query_wire ''BEGIN'')] @ map (Asked (OnPin 4)) ws @ [Fired (OnPin 4) (query_wire ''ROLLBACK''), Given 4]"
    using r(2) run by (cases via) (auto simp: closing_of_def)
qed

text \<open>
  \<open>commit\<close> succeeds whenever the answer holds no error. PostgreSQL answers the COMMIT of a transaction in which a statement failed
  with the command tag \<^verbatim>\<open>ROLLBACK\<close> and no error: the caller is told that the transaction was committed.
\<close>

theorem commit_hides_rollback:
  assumes "route env (tn_via tx) (query_wire ''COMMIT'') (db_backend s) = (Inr response, b)"
    and "response_msgs (te_db env) response = [Inr CommandComplete, Inr ReadyForQuery]"
  shows "fst (commit_tx env tx s) = Inr ()"
proof -
  have "response_msgs (via_env env via) response = response_msgs (te_db env) response" for via
    by (simp add: response_msgs_def via_env_def)
  then show ?thesis
    using assms
    by (simp add: commit_tx_def end_tx_def exec_via_def exec_unlocked_def bindA_apply tx_wires db_roundtrip_def process_response_def
        process_msgs_spec tn_via_def via_env_def Let_def split: prod.split)
qed

end
