(* ===== verification/Typed.thy ===== *)
theory Typed
  imports StreamSpec "HOL-Library.Sublist"
begin

text \<open>
  The typing of row changes. A relation message gives a table its columns; a change that is buffered under it and later
  published to the subscribers is well typed when its columns are columns of that relation, in their order.
\<close>

section \<open>Well-typed changes\<close>

definition column_names :: "rel \<Rightarrow> string list" where
  "column_names r = map col_name (rel_columns r)"

definition columns_typed :: "rel \<Rightarrow> col_pairs \<Rightarrow> bool" where
  "columns_typed r row \<longleftrightarrow> row \<noteq> [] \<and> subseq (map fst row) (column_names r)"

fun change_typed :: "rel \<Rightarrow> row_change \<Rightarrow> bool" where
  "change_typed r (ChInsert s n row) \<longleftrightarrow> s = rel_schema r \<and> n = rel_name r \<and> map fst row = column_names r"
| "change_typed r (ChUpdate s n key row) \<longleftrightarrow>
     s = rel_schema r \<and> n = rel_name r \<and> columns_typed r key \<and> columns_typed r row"
| "change_typed r (ChDelete s n key) \<longleftrightarrow> s = rel_schema r \<and> n = rel_name r \<and> columns_typed r key"
| "change_typed r (ChTruncate s n) \<longleftrightarrow> s = rel_schema r \<and> n = rel_name r"

section \<open>Every operation produces well-typed changes\<close>

lemma map_fst_pair_of: "map fst (map pair_of ps) = map (\<lambda>p. col_name (fst p)) ps"
  by (simp add: pair_of_def comp_def)

lemma names_zip:
  "check_arity r t = Inr u \<Longrightarrow> map (\<lambda>p. col_name (fst p)) (zip (rel_columns r) (cells t)) = column_names r"
proof -
  assume "check_arity r t = Inr u"
  then have "length (cells t) = length (rel_columns r)" by (simp add: check_arity_def split: if_splits)
  then have "map col_name (map fst (zip (rel_columns r) (cells t))) = column_names r" by (simp add: column_names_def)
  then show ?thesis by (simp add: comp_def)
qed

lemma names_filter:
  assumes "check_arity r t = Inr u"
  shows "subseq (map fst (map pair_of (filter P (zip (rel_columns r) (cells t))))) (column_names r)"
  using subseq_map [OF subseq_filter_left, of "\<lambda>p. col_name (fst p)" P "zip (rel_columns r) (cells t)"]
  by (simp add: names_zip [OF assms] map_fst_pair_of del: map_map)

lemma where_typed: "where_clause r key old new = Inr (w, pairs) \<Longrightarrow> columns_typed r pairs"
  unfolding columns_typed_def
  by (auto simp: where_clause_def old_conds_eq key_conds_eq Let_def bindR_eq_Inr names_filter
      simp del: map_map split: option.splits if_splits)

lemma insert_typed: "insert_sql r new = Inr (stmt, ch) \<Longrightarrow> change_typed r ch"
  by (auto simp: insert_sql_def insert_cells_eq bindR_eq_Inr names_zip map_fst_pair_of
      simp del: map_map split: if_splits)

lemma update_typed: "update_sql r key old new = Inr (stmt, ch) \<Longrightarrow> change_typed r ch"
  by (auto simp: update_sql_def update_sets_eq bindR_eq_Inr where_typed columns_typed_def [of _ "map _ _"] names_filter
      simp del: map_map split: if_splits prod.splits)

lemma delete_typed: "delete_sql r key old = Inr (stmt, ch) \<Longrightarrow> change_typed r ch"
  by (auto simp: delete_sql_def bindR_eq_Inr where_typed)

section \<open>Buffering\<close>

fun changed_rel :: "pgoutput_msg \<Rightarrow> u32 option" where
  "changed_rel (Insert i _) = Some i"
| "changed_rel (Update i _ _ _) = Some i"
| "changed_rel (Delete i _ _) = Some i"
| "changed_rel _ = None"

lemma buffered_typed:
  assumes "buffer_change i sql s = (Inr (), s')" and "\<And>r stmt ch. sql r = Inr (stmt, ch) \<Longrightarrow> change_typed r ch"
  shows "\<exists>r buf stmt ch. sm_rels s i = Some r \<and> sm_txn s = Some buf \<and> change_typed r ch \<and>
    s' = s\<lparr>sm_txn := Some (buf\<lparr>tb_stmts := tb_stmts buf @ [stmt], tb_changes := tb_changes buf @ [ch]\<rparr>)\<rparr>"
proof -
  obtain r buf stmt ch where b: "sm_rels s i = Some r" "sm_txn s = Some buf" "sql r = Inr (stmt, ch)"
      "s' = s\<lparr>sm_txn := Some (push_change buf (stmt, ch))\<rparr>"
    using assms(1)
    by (auto simp: buffer_change_def rel_of_def open_txn_def bindR_eq_Inr ok_or_eq_Inr split: sum.splits)
  then show ?thesis using assms(2) by (intro exI [of _ r] exI [of _ buf] exI [of _ stmt] exI [of _ ch]) (simp add: push_change_def)
qed

text \<open>
  C37. A change message that is accepted adds one statement and one change to the open transaction and changes nothing
  else, and the change is well typed under the relation that the stream announced for the message's identifier.
\<close>

theorem changes_well_typed:
  assumes "handle_msg env cfg m s = (Inr (), s')" and "changed_rel m = Some i"
  shows "\<exists>r buf stmt ch. sm_rels s i = Some r \<and> sm_txn s = Some buf \<and> change_typed r ch \<and>
    s' = s\<lparr>sm_txn := Some (buf\<lparr>tb_stmts := tb_stmts buf @ [stmt], tb_changes := tb_changes buf @ [ch]\<rparr>)\<rparr>"
proof (cases m)
  case (Insert j new)
  then have "buffer_change i (\<lambda>r. insert_sql r new) s = (Inr (), s')" using assms by simp
  then show ?thesis using insert_typed by (rule buffered_typed)
next
  case (Update j key old new)
  then have "buffer_change i (\<lambda>r. update_sql r key old new) s = (Inr (), s')" using assms by simp
  then show ?thesis using update_typed by (rule buffered_typed)
next
  case (Delete j key old)
  then have "buffer_change i (\<lambda>r. delete_sql r key old) s = (Inr (), s')" using assms by simp
  then show ?thesis using delete_typed by (rule buffered_typed)
qed (use assms(2) in simp_all)

definition open_state :: "block_log sstate" where
  "open_state = sample_state\<lparr>sm_rels := [7 \<mapsto> sample_rel],
     sm_txn := Some \<lparr>tb_xid = 1, tb_commit_ts = 0, tb_stmts = [], tb_changes = []\<rparr>\<rparr>"

theorem changes_well_typed_witness:
  "\<exists>buf. sm_txn (snd (handle_msg note_env default_config (Delete 7 (Some (TupleData [Text ''1''])) None) open_state)) = Some buf \<and>
     tb_changes buf = [ChDelete ''public'' ''t'' [(''id'', Some ''1'')]] \<and>
     change_typed sample_rel (hd (tb_changes buf))"
proof -
  let ?m = "Delete 7 (Some (TupleData [Text ''1''])) None"
  obtain s' where s': "handle_msg note_env default_config ?m open_state = (Inr (), s')"
      "map_option tb_changes (sm_txn s') = Some [ChDelete ''public'' ''t'' [(''id'', Some ''1'')]]"
    by (simp add: open_state_def sample_rel_def sample_columns_def buffer_change_def rel_of_def open_txn_def delete_sql_def
        where_clause_def check_arity_def push_change_def)
  from changes_well_typed [OF s'(1), of 7] show ?thesis using s'
    by (auto simp: open_state_def sample_state_def)
qed

end
