(* ===== verification/Tls.thy ===== *)
theory Tls
  imports Wire
begin

text \<open>
  \<^verbatim>\<open>replica/tls.rs\<close>: the configuration of a TLS client and what it accepts. The cryptography is a parameter: what a
  certificate and a handshake signature are worth.
\<close>

section \<open>Configuration\<close>

text \<open>The verifier of a configuration: the built-in one of the library over the public roots, or the program's \<open>NoVerify\<close>.\<close>

datatype verifier = WebpkiRoots | NoVerify

record tls_config =
  tc_verifier :: verifier
  tc_client_auth :: bool

text \<open>\<open>tl_versions\<close> is the choice of protocol versions, \<open>tl_name\<close> the parsing of a server name, \<open>tl_client\<close> the set-up of a connection.\<close>

record ('n, 'c) tls_ops =
  tl_versions :: "string + unit"
  tl_name :: "string \<Rightarrow> 'n option"
  tl_client :: "tls_config \<Rightarrow> 'n \<Rightarrow> string + 'c"

definition tls_config_of :: "ssl_mode \<Rightarrow> tls_config" where
  "tls_config_of mode =
     \<lparr>tc_verifier = (if mode = VerifyFull then WebpkiRoots else NoVerify), tc_client_auth = False\<rparr>"

definition upgrade :: "('n, 'c) tls_ops \<Rightarrow> string \<Rightarrow> ssl_mode \<Rightarrow> 'c res" where
  "upgrade ops host mode =
     bindR (case tl_versions ops of Inl e \<Rightarrow> Inl (Upstream (''tls config: '' @ e)) | Inr _ \<Rightarrow> Inr (tls_config_of mode)) (\<lambda>config.
     bindR (ok_or (Upstream (''invalid TLS server name: '' @ host)) (tl_name ops host)) (\<lambda>name.
       (case tl_client ops config name of
          Inl e \<Rightarrow> Inl (Upstream (''tls handshake setup: '' @ e))
        | Inr conn \<Rightarrow> Inr conn)))"

section \<open>Verification\<close>

text \<open>What is true of the certificate the server shows and of its signature on the handshake.\<close>

record 'n server_proof =
  sp_chain_ok :: bool
  sp_names :: "'n set"
  sp_signature_ok :: bool

text \<open>\<open>verify_server_cert\<close> of the two verifiers; both check the signature with the provider's algorithms.\<close>

fun verify_server_cert :: "verifier \<Rightarrow> 'n \<Rightarrow> 'n server_proof \<Rightarrow> bool" where
  "verify_server_cert NoVerify name p = True"
| "verify_server_cert WebpkiRoots name p \<longleftrightarrow> sp_chain_ok p \<and> name \<in> sp_names p"

definition verify_tls_signature :: "'n server_proof \<Rightarrow> bool" where
  "verify_tls_signature p = sp_signature_ok p"

definition handshake_accepted :: "tls_config \<Rightarrow> 'n \<Rightarrow> 'n server_proof \<Rightarrow> bool" where
  "handshake_accepted config name p \<longleftrightarrow> verify_server_cert (tc_verifier config) name p \<and> verify_tls_signature p"

section \<open>Properties\<close>

text \<open>
  The transport is what the mode asks for. TCP without TLS is used exactly when TLS is disabled, or when it is
  merely preferred and the server answers that it has none. With \<open>VerifyFull\<close>, TCP goes over TLS, and the handshake accepts a
  server exactly when its certificate chains to a public root, names the host and signs the handshake; in the other
  modes it accepts any certificate whose key signs.
\<close>

theorem transport_as_asked:
  "(fst (connect_stream host port mode answer) = Inr TcpPlain \<longleftrightarrow>
      take 1 host \<noteq> ''/'' \<and> (mode = Disable \<or> mode = Prefer \<and> answer = Inr (bch CHR ''N''))) \<and>
   (fst (connect_stream host port mode answer) = Inr (Tls m) \<longleftrightarrow>
      m = mode \<and> take 1 host \<noteq> ''/'' \<and> mode \<noteq> Disable \<and> answer = Inr (bch CHR ''S'')) \<and>
   (handshake_accepted (tls_config_of mode) name p \<longleftrightarrow>
      (if mode = VerifyFull then sp_chain_ok p \<and> name \<in> sp_names p \<and> sp_signature_ok p else sp_signature_ok p))"
proof -
  have "fst (connect_stream host port mode answer) = Inr (Tls m) \<longleftrightarrow>
      m = mode \<and> take 1 host \<noteq> ''/'' \<and> mode \<noteq> Disable \<and> answer = Inr (bch CHR ''S'')"
    by (cases answer) (auto simp: connect_stream_def ssl_answer_def split: list.split if_splits)
  moreover have "fst (connect_stream host port mode answer) = Inr TcpPlain \<longleftrightarrow>
      take 1 host \<noteq> ''/'' \<and> (mode = Disable \<or> mode = Prefer \<and> answer = Inr (bch CHR ''N''))"
    by (cases answer) (auto simp: connect_stream_def ssl_answer_def split: list.split if_splits)
  ultimately show ?thesis
    by (auto simp: handshake_accepted_def tls_config_of_def verify_tls_signature_def)
qed

text \<open>The cases of \<open>upgrade\<close>: every failure is an upstream error, so none of them halts a replica.\<close>

theorem upgrade_errors: "upgrade ops host mode = Inl e \<Longrightarrow> \<exists>m. e = Upstream m"
  by (auto simp: upgrade_def bindR_def ok_or_def split: sum.splits option.splits)

end
