(* ===== verification/Build.thy ===== *)
theory Build
  imports Text
begin

text \<open>
  The build scripts: \<^verbatim>\<open>pglite-sys/build.rs\<close>, which finds the engine library, \<^verbatim>\<open>pglite/build.rs\<close>, which puts the
  runtime archive together, and \<^verbatim>\<open>build.rs\<close> of the artifact crates. A file system is a map from paths to contents of
  any type \<open>'c\<close>. The tools (\<^verbatim>\<open>curl\<close>, \<^verbatim>\<open>tar\<close>, the checksum program, the zstd decoder) are parameters. A panic, which
  fails the build, is \<open>Inl\<close> with its text; the files it leaves are those of the next build.
\<close>

section \<open>Paths and tools\<close>

type_synonym 'c files = "string \<Rightarrow> 'c option"

text \<open>\<open>PathBuf::join\<close>.\<close>

definition join :: "string \<Rightarrow> string \<Rightarrow> string" where
  "join p x =
     (if take 1 x = ''/'' then x else if p = [] \<or> last p = CHR ''/'' then p @ x else p @ ''/'' @ x)"

text \<open>
  \<open>bt_fetch\<close>: whether \<^verbatim>\<open>curl\<close> succeeds and what it leaves at the destination, which may be a part when it fails.
  \<open>bt_untar\<close>: whether \<^verbatim>\<open>tar\<close> succeeds and the files it has written. \<open>bt_tar\<close> packs what is under a directory.
\<close>

record 'c tools =
  bt_fetch :: "string \<Rightarrow> bool \<times> 'c option"
  bt_text :: "'c \<Rightarrow> string option"
  bt_trim :: "string \<Rightarrow> string"
  bt_sha256 :: "'c \<Rightarrow> string"
  bt_untar :: "'c \<Rightarrow> bool \<times> (string \<times> 'c) list"
  bt_tar :: "'c files \<Rightarrow> 'c"
  bt_unzstd :: "'c \<Rightarrow> string + 'c"

record build_env =
  be_var :: "string \<Rightarrow> string option"
  be_vars :: "(string \<times> string) list"
  be_temp :: string

definition engine_tag :: string where "engine_tag = ''engine-06c837c6a303-p3''"

definition release_base :: string where
  "release_base = ''https://github.com/Midwess/pglite-rs/releases/download''"

definition icu :: "build_env \<Rightarrow> bool" where
  "icu env \<longleftrightarrow> be_var env ''CARGO_FEATURE_ICU'' \<noteq> None"

definition variant_subdir :: "build_env \<Rightarrow> string" where
  "variant_subdir env = (if icu env then ''icu'' else [])"

definition asset_stem :: "build_env \<Rightarrow> string" where
  "asset_stem env = (if icu env then ''pglite-icu'' else ''pglite'')"

text \<open>A variable that has to be set: \<open>unwrap\<close> panics.\<close>

definition need_var :: "build_env \<Rightarrow> string \<Rightarrow> string + string" where
  "need_var env k = ok_or (''environment variable not found: '' @ k) (be_var env k)"

definition cache_root :: "build_env \<Rightarrow> string" where
  "cache_root env =
     (case be_var env ''HOME'' of
        Some h \<Rightarrow> h
      | None \<Rightarrow> (case be_var env ''USERPROFILE'' of Some h \<Rightarrow> h | None \<Rightarrow> be_temp env))"

definition cache_dir :: "build_env \<Rightarrow> string \<Rightarrow> string" where
  "cache_dir env tgt =
     join (join (join (join (cache_root env) ''.cache/pglite-rs'') engine_tag) tgt) (variant_subdir env)"

text \<open>\<open>fetch\<close>, and the unpacking of an archive below a directory.\<close>

definition fetch :: "'c tools \<Rightarrow> string \<Rightarrow> string \<Rightarrow> 'c files \<Rightarrow> (string + unit) \<times> 'c files" where
  "fetch bt url dest fs =
     (case bt_fetch bt url of (ok, got) \<Rightarrow>
        (if ok then Inr () else Inl (''failed to download '' @ url),
         case got of None \<Rightarrow> fs | Some c \<Rightarrow> fs(dest \<mapsto> c)))"

definition write_all :: "string \<Rightarrow> (string \<times> 'c) list \<Rightarrow> 'c files \<Rightarrow> 'c files" where
  "write_all dir entries fs = foldl (\<lambda>fs (name, c). fs(join dir name \<mapsto> c)) fs entries"

definition untar :: "'c tools \<Rightarrow> string \<Rightarrow> string \<Rightarrow> 'c files \<Rightarrow> (string + unit) \<times> 'c files" where
  "untar bt archive dir fs =
     (case fs archive of
        None \<Rightarrow> (Inl (''tar failed: '' @ archive), fs)
      | Some c \<Rightarrow>
          (case bt_untar bt c of (ok, entries) \<Rightarrow>
             (if ok then Inr () else Inl (''failed to extract '' @ archive), write_all dir entries fs)))"

text \<open>The comparison of a downloaded archive with its checksum file.\<close>

definition verify :: "'c tools \<Rightarrow> string \<Rightarrow> string \<Rightarrow> 'c files \<Rightarrow> string + unit" where
  "verify bt archive sums fs =
     bindR (ok_or ''cannot read checksum file'' (Option.bind (fs sums) (bt_text bt))) (\<lambda>expected.
     bindR (ok_or ''checksum tool failed'' (map_option (bt_sha256 bt) (fs archive))) (\<lambda>actual.
       if bt_trim bt expected = bt_trim bt actual then Inr () else Inl (''checksum mismatch for '' @ archive)))"

section \<open>The engine library\<close>

text \<open>\<open>download_prebuilt\<close>.\<close>

definition download_prebuilt :: "'c tools \<Rightarrow> build_env \<Rightarrow> 'c files \<Rightarrow> (string + string) \<times> 'c files" where
  "download_prebuilt bt env fs =
     (case need_var env ''TARGET'' of
        Inl e \<Rightarrow> (Inl e, fs)
      | Inr tgt \<Rightarrow>
          let cache = cache_dir env tgt in
          if fs (join cache ''libpglite.a'') \<noteq> None then (Inr cache, fs)
          else
            let asset = asset_stem env @ ''-'' @ tgt @ ''.tar.gz'';
                url = release_base @ ''/'' @ engine_tag @ ''/'' @ asset;
                tarball = join cache asset;
                sums = join cache (asset @ ''.sha256'')
            in (case fetch bt url tarball fs of
                  (Inl e, fs) \<Rightarrow> (Inl e, fs)
                | (Inr _, fs) \<Rightarrow>
                    (case fetch bt (url @ ''.sha256'') sums fs of
                       (Inl e, fs) \<Rightarrow> (Inl e, fs)
                     | (Inr _, fs) \<Rightarrow>
                         (case verify bt tarball sums fs of
                            Inl e \<Rightarrow> (Inl e, fs)
                          | Inr _ \<Rightarrow>
                              (case untar bt tarball cache fs of
                                 (Inl e, fs) \<Rightarrow> (Inl e, fs)
                               | (Inr _, fs) \<Rightarrow> (Inr cache, fs))))))"

text \<open>\<open>artifact_lib_dir\<close>: the first variable of the right shape whose directory has the library.\<close>

definition is_lib_root :: "string \<Rightarrow> bool" where
  "is_lib_root key \<longleftrightarrow> take 15 key = ''DEP_PGLITE_LIB_'' \<and> 5 \<le> length key \<and> drop (length key - 5) key = ''_ROOT''"

definition artifact_lib_dir :: "build_env \<Rightarrow> 'c files \<Rightarrow> string option" where
  "artifact_lib_dir env fs =
     (if icu env then None
      else map_option (\<lambda>(key, val). join val ''lib'')
             (List.find (\<lambda>(key, val). is_lib_root key \<and> fs (join (join val ''lib'') ''libpglite.a'') \<noteq> None) (be_vars env)))"

definition resolve_lib_dir :: "'c tools \<Rightarrow> build_env \<Rightarrow> 'c files \<Rightarrow> (string + string) \<times> 'c files" where
  "resolve_lib_dir bt env fs =
     (case be_var env ''PGLITE_LIB_DIR'' of
        Some dir \<Rightarrow> (Inr dir, fs)
      | None \<Rightarrow>
          (case artifact_lib_dir env fs of
             Some dir \<Rightarrow> (Inr dir, fs)
           | None \<Rightarrow>
               (case need_var env ''CARGO_MANIFEST_DIR'' of
                  Inl e \<Rightarrow> (Inl e, fs)
                | Inr dir \<Rightarrow>
                    let loc = join (join dir ''../../native/out'') (variant_subdir env) in
                    if fs (join loc ''libpglite.a'') \<noteq> None then (Inr loc, fs)
                    else download_prebuilt bt env fs)))"

text \<open>\<open>zstd_decompress\<close> and \<open>prepare_static_lib\<close>: the directory to link from.\<close>

definition zstd_decompress :: "'c tools \<Rightarrow> string \<Rightarrow> string \<Rightarrow> 'c files \<Rightarrow> (string + unit) \<times> 'c files" where
  "zstd_decompress bt src dst fs =
     (case fs src of
        None \<Rightarrow> (Inl (''open '' @ src), fs)
      | Some c \<Rightarrow> (case bt_unzstd bt c of Inl e \<Rightarrow> (Inl e, fs) | Inr d \<Rightarrow> (Inr (), fs(dst \<mapsto> d))))"

definition prepare_static_lib :: "'c tools \<Rightarrow> build_env \<Rightarrow> string \<Rightarrow> 'c files \<Rightarrow> (string + string) \<times> 'c files" where
  "prepare_static_lib bt env lib_dir fs =
     (let zst = join lib_dir ''libpglite.a.zst'' in
      if fs zst \<noteq> None then
        (case need_var env ''OUT_DIR'' of
           Inl e \<Rightarrow> (Inl e, fs)
         | Inr out \<Rightarrow>
             (case zstd_decompress bt zst (join out ''libpglite.a'') fs of
                (Inl e, fs) \<Rightarrow> (Inl e, fs)
              | (Inr _, fs) \<Rightarrow> (Inr out, fs)))
      else (Inr lib_dir, fs))"

text \<open>\<open>main\<close> of \<^verbatim>\<open>pglite-sys\<close>: the instructions to cargo.\<close>

definition link_lines :: "build_env \<Rightarrow> string list" where
  "link_lines env =
     (case be_var env ''CARGO_CFG_TARGET_OS'' of
        Some os \<Rightarrow>
          if os = ''macos'' then
            ''cargo:rustc-link-arg=-Wl,-export_dynamic'' # (if icu env then [''cargo:rustc-link-lib=c++''] else [])
          else if os = ''windows'' then [''cargo:rustc-link-lib=ws2_32'', ''cargo:rustc-link-lib=secur32'']
          else ''cargo:rustc-link-arg=-Wl,--export-dynamic'' # (if icu env then [''cargo:rustc-link-lib=stdc++''] else [])
      | None \<Rightarrow>
          ''cargo:rustc-link-arg=-Wl,--export-dynamic'' # (if icu env then [''cargo:rustc-link-lib=stdc++''] else []))"

definition sys_main :: "'c tools \<Rightarrow> build_env \<Rightarrow> 'c files \<Rightarrow> (string + string list) \<times> 'c files" where
  "sys_main bt env fs =
     (if be_var env ''DOCS_RS'' \<noteq> None then (Inr [''cargo:rerun-if-env-changed=PGLITE_LIB_DIR''], fs)
      else (case resolve_lib_dir bt env fs of
              (Inl e, fs) \<Rightarrow> (Inl e, fs)
            | (Inr lib_dir, fs) \<Rightarrow>
                (case prepare_static_lib bt env lib_dir fs of
                   (Inl e, fs) \<Rightarrow> (Inl e, fs)
                 | (Inr link_dir, fs) \<Rightarrow>
                     (Inr ([''cargo:rerun-if-env-changed=PGLITE_LIB_DIR'', ''cargo:lib_dir='' @ lib_dir,
                            ''cargo:rustc-link-search=native='' @ link_dir,
                            ''cargo:rustc-link-lib=static:+whole-archive=pglite'', ''cargo:rustc-link-lib=z''] @
                           link_lines env), fs))))"

text \<open>\<open>main\<close> of an artifact crate.\<close>

definition artifact_main :: "build_env \<Rightarrow> 'c files \<Rightarrow> string + string list" where
  "artifact_main env fs =
     bindR (need_var env ''CARGO_MANIFEST_DIR'') (\<lambda>root.
       Inr (''cargo:rerun-if-changed=lib'' #
            (if fs (join root ''lib/libpglite.a'') \<noteq> None then [''cargo:root='' @ root] else [])))"

section \<open>The runtime archive\<close>

text \<open>\<open>resolve_base_tar\<close>: a plain archive, or one that is decompressed first.\<close>

definition resolve_base_tar :: "'c tools \<Rightarrow> build_env \<Rightarrow> string \<Rightarrow> 'c files \<Rightarrow> (string + string) \<times> 'c files" where
  "resolve_base_tar bt env lib_dir fs =
     (let plain = join lib_dir ''pglite-runtime.tar''; zst = join lib_dir ''pglite-runtime.tar.zst'' in
      if fs plain \<noteq> None then (Inr plain, fs)
      else if fs zst \<noteq> None then
        (case need_var env ''OUT_DIR'' of
           Inl e \<Rightarrow> (Inl e, fs)
         | Inr out_dir \<Rightarrow>
             let out = join out_dir ''pglite-runtime-base.tar'' in
             (case zstd_decompress bt zst out fs of
                (Inl e, fs) \<Rightarrow> (Inl e, fs)
              | (Inr _, fs) \<Rightarrow> (Inr out, fs)))
      else (Inl (''no pglite-runtime.tar or pglite-runtime.tar.zst in '' @ lib_dir), fs))"

text \<open>\<open>resolve_ext_tar\<close>.\<close>

definition ext_asset :: "string \<Rightarrow> string \<Rightarrow> string" where
  "ext_asset name tgt = ''pglite-ext-'' @ name @ ''-'' @ tgt @ ''.tar.gz''"

definition resolve_ext_tar ::
  "'c tools \<Rightarrow> build_env \<Rightarrow> string \<Rightarrow> string \<Rightarrow> string \<Rightarrow> 'c files \<Rightarrow> (string + string) \<times> 'c files" where
  "resolve_ext_tar bt env name tgt lib_dir fs =
     (let asset = ext_asset name tgt; loc = join lib_dir asset; cached = join (cache_dir env tgt) asset in
      if fs loc \<noteq> None then (Inr loc, fs)
      else if fs cached \<noteq> None then (Inr cached, fs)
      else
        let url = release_base @ ''/'' @ engine_tag @ ''/'' @ asset;
            sums = join (cache_dir env tgt) (asset @ ''.sha256'')
        in (case fetch bt url cached fs of
              (Inl e, fs) \<Rightarrow> (Inl e, fs)
            | (Inr _, fs) \<Rightarrow>
                (case fetch bt (url @ ''.sha256'') sums fs of
                   (Inl e, fs) \<Rightarrow> (Inl e, fs)
                 | (Inr _, fs) \<Rightarrow>
                     (case verify bt cached sums fs of Inl e \<Rightarrow> (Inl e, fs) | Inr _ \<Rightarrow> (Inr cached, fs)))))"

definition extensions :: "(string \<times> string) list" where
  "extensions = [(''pgcrypto'', ''CARGO_FEATURE_PGCRYPTO''), (''pgvector'', ''CARGO_FEATURE_PGVECTOR'')]"

definition enabled :: "build_env \<Rightarrow> string list" where
  "enabled env = map fst (filter (\<lambda>(name, flag). be_var env flag \<noteq> None) extensions)"

text \<open>The loop over the enabled extensions, each unpacked over the base.\<close>

fun unpack_exts ::
  "'c tools \<Rightarrow> build_env \<Rightarrow> string \<Rightarrow> string \<Rightarrow> string \<Rightarrow> string list \<Rightarrow> 'c files \<Rightarrow> (string + unit) \<times> 'c files" where
  "unpack_exts bt env tgt lib_dir merge [] fs = (Inr (), fs)"
| "unpack_exts bt env tgt lib_dir merge (name # names) fs =
     (case resolve_ext_tar bt env name tgt lib_dir fs of
        (Inl e, fs) \<Rightarrow> (Inl e, fs)
      | (Inr archive, fs) \<Rightarrow>
          (case untar bt archive merge fs of
             (Inl e, fs) \<Rightarrow> (Inl e, fs)
           | (Inr _, fs) \<Rightarrow> unpack_exts bt env tgt lib_dir merge names fs))"

definition below :: "string \<Rightarrow> string \<Rightarrow> bool" where
  "below dir p \<longleftrightarrow> take (length dir + 1) p = dir @ ''/''"

definition copy_file :: "string \<Rightarrow> string \<Rightarrow> 'c files \<Rightarrow> (string + unit) \<times> 'c files" where
  "copy_file src dst fs =
     (case fs src of None \<Rightarrow> (Inl (''cannot copy '' @ src @ '' into OUT_DIR''), fs) | Some c \<Rightarrow> (Inr (), fs(dst \<mapsto> c)))"

text \<open>
  \<open>main\<close> of \<^verbatim>\<open>pglite\<close> behind the instructions for the linker; \<open>out\<close> is \<open>OUT_DIR\<close>, \<open>tgt\<close> is \<open>TARGET\<close>, \<open>stub\<close> the empty
  file that documentation builds get.
\<close>

definition pglite_main ::
  "'c tools \<Rightarrow> build_env \<Rightarrow> 'c \<Rightarrow> string \<Rightarrow> string \<Rightarrow> string \<Rightarrow> 'c files \<Rightarrow> (string + unit) \<times> 'c files" where
  "pglite_main bt env stub out tgt lib_dir fs =
     (let dest = join out ''pglite-runtime.tar''; merge = join out ''runtime-merge'' in
      if be_var env ''DOCS_RS'' \<noteq> None then (Inr (), fs(dest \<mapsto> stub))
      else (case resolve_base_tar bt env lib_dir fs of
              (Inl e, fs) \<Rightarrow> (Inl e, fs)
            | (Inr base, fs) \<Rightarrow>
                if enabled env = [] then copy_file base dest fs
                else (case untar bt base merge (\<lambda>p. if below merge p then None else fs p) of
                        (Inl e, fs) \<Rightarrow> (Inl e, fs)
                      | (Inr _, fs) \<Rightarrow>
                          (case unpack_exts bt env tgt lib_dir merge (enabled env) fs of
                             (Inl e, fs) \<Rightarrow> (Inl e, fs)
                           | (Inr _, fs) \<Rightarrow>
                               (Inr (), fs(dest \<mapsto> bt_tar bt (\<lambda>p. if below merge p then fs p else None)))))))"

section \<open>What the scripts promise\<close>

lemma join_inj: "take 1 x \<noteq> ''/'' \<Longrightarrow> take 1 y \<noteq> ''/'' \<Longrightarrow> join p x = join p y \<longleftrightarrow> x = y"
  by (auto simp: join_def)

lemma fetch_ok: "fetch bt url dest fs = (Inr (), fs') \<Longrightarrow> p \<noteq> dest \<Longrightarrow> fs' p = fs p"
  by (auto simp: fetch_def split: prod.splits option.splits if_splits)

text \<open>
  What the build downloads is compared with the published checksum: when no library was in the cache, a directory is
  returned only after the archive there agreed with the checksum file beside it, and its contents are what the
  directory then holds.
\<close>

theorem download_verified:
  assumes "download_prebuilt bt env fs = (Inr dir, fs')" and "fs (join dir ''libpglite.a'') = None"
  shows "\<exists>tgt fs1 c expected entries.
    be_var env ''TARGET'' = Some tgt \<and> dir = cache_dir env tgt \<and>
    fs1 (join dir (asset_stem env @ ''-'' @ tgt @ ''.tar.gz'')) = Some c \<and>
    Option.bind (fs1 (join dir (asset_stem env @ ''-'' @ tgt @ ''.tar.gz.sha256''))) (bt_text bt) = Some expected \<and>
    bt_trim bt expected = bt_trim bt (bt_sha256 bt c) \<and> bt_untar bt c = (True, entries) \<and>
    fs' = write_all dir entries fs1"
proof -
  obtain tgt where t: "be_var env ''TARGET'' = Some tgt"
    using assms(1) by (auto simp: download_prebuilt_def need_var_def ok_or_def split: option.splits)
  let ?asset = "asset_stem env @ ''-'' @ tgt @ ''.tar.gz''"
  note d = assms(1) [unfolded download_prebuilt_def need_var_def t ok_or_def option.case sum.case Let_def]
  have dir: "dir = cache_dir env tgt" using d by (auto split: if_splits sum.splits prod.splits)
  obtain fs1 where v: "verify bt (join dir ?asset) (join dir (?asset @ ''.sha256'')) fs1 = Inr ()"
      "untar bt (join dir ?asset) dir fs1 = (Inr (), fs')"
    using d assms(2) unfolding dir by (auto split: sum.splits prod.splits)
  show ?thesis
    using v t dir by (auto simp: verify_def untar_def bindR_eq_Inr ok_or_eq_Inr intro!: exI [of _ fs1]
        split: option.splits prod.splits if_splits)
qed

text \<open>
  The cache of extension archives is not: an archive that a build left there is used by the next build as it is, also when
  the first build failed because the download broke off or the checksum was another.
\<close>

theorem ext_cache_unverified:
  assumes "fs (join lib_dir (ext_asset name tgt)) = None"
    and "fs (join (cache_dir env tgt) (ext_asset name tgt)) = None"
    and "bt_fetch bt (release_base @ ''/'' @ engine_tag @ ''/'' @ ext_asset name tgt) = (ok, Some c)"
    and "join lib_dir (ext_asset name tgt) \<noteq> join (cache_dir env tgt) (ext_asset name tgt)"
    and "join lib_dir (ext_asset name tgt) \<noteq> join (cache_dir env tgt) (ext_asset name tgt @ ''.sha256'')"
  shows "\<exists>fs'. snd (resolve_ext_tar bt env name tgt lib_dir fs) = fs' \<and>
    resolve_ext_tar bt env name tgt lib_dir fs' = (Inr (join (cache_dir env tgt) (ext_asset name tgt)), fs') \<and>
    fs' (join (cache_dir env tgt) (ext_asset name tgt)) = Some c"
proof -
  let ?cached = "join (cache_dir env tgt) (ext_asset name tgt)"
  let ?sums = "join (cache_dir env tgt) (ext_asset name tgt @ ''.sha256'')"
  have "?sums \<noteq> ?cached" by (simp add: join_inj ext_asset_def)
  then have "snd (resolve_ext_tar bt env name tgt lib_dir fs) ?cached = Some c \<and>
      snd (resolve_ext_tar bt env name tgt lib_dir fs) (join lib_dir (ext_asset name tgt)) = None"
    using assms by (auto simp: resolve_ext_tar_def fetch_def Let_def split: prod.splits sum.splits option.splits)
  then show ?thesis by (auto simp: resolve_ext_tar_def Let_def)
qed

theorem ext_cache_unverified_witness:
  "\<exists>fs'. resolve_ext_tar
       \<lparr>bt_fetch = (\<lambda>url. (False, Some (7::nat))), bt_text = (\<lambda>_. None), bt_trim = id, bt_sha256 = (\<lambda>_. []),
        bt_untar = (\<lambda>_. (True, [])), bt_tar = (\<lambda>_. 0), bt_unzstd = Inr\<rparr>
       \<lparr>be_var = (\<lambda>_. None), be_vars = [], be_temp = ''/tmp''\<rparr> ''pgvector'' ''t'' ''/lib'' fs' =
     (Inr (join (cache_dir \<lparr>be_var = (\<lambda>_. None), be_vars = [], be_temp = ''/tmp''\<rparr> ''t'')
        (ext_asset ''pgvector'' ''t'')), fs')"
proof -
  let ?bt = "\<lparr>bt_fetch = (\<lambda>url. (False, Some (7::nat))), bt_text = (\<lambda>_. None), bt_trim = id, bt_sha256 = (\<lambda>_. []),
        bt_untar = (\<lambda>_. (True, [])), bt_tar = (\<lambda>_. 0), bt_unzstd = Inr\<rparr>"
  let ?env = "\<lparr>be_var = (\<lambda>_. None), be_vars = [], be_temp = ''/tmp''\<rparr>"
  have "join ''/lib'' (ext_asset ''pgvector'' ''t'') \<noteq> join (cache_dir ?env ''t'') (ext_asset ''pgvector'' ''t'')"
    "join ''/lib'' (ext_asset ''pgvector'' ''t'') \<noteq> join (cache_dir ?env ''t'') (ext_asset ''pgvector'' ''t'' @ ''.sha256'')"
    by (simp_all add: join_def ext_asset_def cache_dir_def cache_root_def engine_tag_def variant_subdir_def icu_def)
  then show ?thesis
    using ext_cache_unverified [of "\<lambda>_. None" "''/lib''" "''pgvector''" "''t''" ?env ?bt False 7] by fastforce
qed

text \<open>
  A published artifact crate holds the library compressed, \<^verbatim>\<open>lib/libpglite.a.zst\<close>; the plain file is what its own build script
  and \<open>artifact_lib_dir\<close> look for. So such a crate does not export its directory, would not be taken if it did, and the
  library is looked for elsewhere, at last downloaded.
\<close>

theorem artifact_crates_unused:
  assumes "be_var env ''CARGO_MANIFEST_DIR'' = Some root" and "fs (join root ''lib/libpglite.a'') = None"
    and "\<forall>(key, val) \<in> set (be_vars env'). fs (join (join val ''lib'') ''libpglite.a'') = None"
  shows "artifact_main env fs = Inr [''cargo:rerun-if-changed=lib''] \<and> artifact_lib_dir env' fs = None"
  using assms by (auto simp: artifact_main_def need_var_def ok_or_def artifact_lib_dir_def find_None_iff)

theorem artifact_crates_unused_witness:
  "artifact_lib_dir \<lparr>be_var = (\<lambda>_. None), be_vars = [(''DEP_PGLITE_LIB_X_ROOT'', ''/crate'')], be_temp = ''/tmp''\<rparr>
     [''/crate/lib/libpglite.a.zst'' \<mapsto> ()] = None"
  using artifact_crates_unused [of "\<lparr>be_var = (\<lambda>_. Some ''/crate''), be_vars = [], be_temp = ''/tmp''\<rparr>" "''/crate''"
      "[''/crate/lib/libpglite.a.zst'' \<mapsto> ()]"
      "\<lparr>be_var = (\<lambda>_. None), be_vars = [(''DEP_PGLITE_LIB_X_ROOT'', ''/crate'')], be_temp = ''/tmp''\<rparr>"]
  by (simp add: join_def)

text \<open>Without extensions the runtime archive is the base archive, byte for byte.\<close>

theorem runtime_is_base:
  assumes "be_var env ''DOCS_RS'' = None" and "enabled env = []" and "fs (join lib_dir ''pglite-runtime.tar'') = Some c"
  shows "pglite_main bt env stub out tgt lib_dir fs = (Inr (), fs(join out ''pglite-runtime.tar'' \<mapsto> c))"
  using assms by (simp add: pglite_main_def resolve_base_tar_def copy_file_def Let_def)

end
