(* ===== verification/DecodeTests.thy ===== *)
theory DecodeTests
  imports PgOutput Meta
begin

unbundle bit_operations_syntax

text \<open>
  The unit tests of \<^verbatim>\<open>pgoutput.rs\<close> and \<^verbatim>\<open>meta.rs\<close>, translated: each test function is a definition whose value says
  whether the assertions of the test hold of the model, and a lemma that evaluates it.
\<close>

section \<open>pgoutput.rs\<close>

definition test_cstr :: "string \<Rightarrow> bytes" where
  "test_cstr s = bytes_of s @ [0]"

definition test_text_cell :: "string \<Rightarrow> bytes" where
  "test_text_cell s = [bch CHR ''t''] @ be32 (of_nat (length s)) @ bytes_of s"

definition test_decode_begin :: bool where
  "test_decode_begin \<longleftrightarrow>
     decode ([bch CHR ''B''] @ be64 0x16B374D848 @ be64 123456789 @ be32 42) = Inr (Begin 0x16B374D848 123456789 42)"

definition test_decode_commit :: bool where
  "test_decode_commit \<longleftrightarrow> decode ([bch CHR ''C'', 0] @ be64 100 @ be64 200 @ be64 300) = Inr (Commit 100 200 300)"

definition test_decode_relation :: bool where
  "test_decode_relation \<longleftrightarrow>
     decode ([bch CHR ''R''] @ be32 7 @ test_cstr ''public'' @ test_cstr ''todos'' @ [bch CHR ''d''] @ be16 2 @
       [1] @ test_cstr ''id'' @ be32 23 @ be32 (-1) @ [0] @ test_cstr ''title'' @ be32 25 @ be32 (-1)) =
     Inr (Relation 7 ''public'' ''todos'' (bch CHR ''d'')
       [\<lparr>flags = 1, name = ''id'', type_oid = 23, type_modifier = -1\<rparr>,
        \<lparr>flags = 0, name = ''title'', type_oid = 25, type_modifier = -1\<rparr>])"

definition test_decode_insert_with_null_and_toast :: bool where
  "test_decode_insert_with_null_and_toast \<longleftrightarrow>
     decode ([bch CHR ''I''] @ be32 7 @ [bch CHR ''N''] @ be16 3 @ test_text_cell ''1'' @ [bch CHR ''n''] @ [bch CHR ''u'']) =
     Inr (Insert 7 (TupleData [Text ''1'', Null, UnchangedToast]))"

definition test_decode_update_with_key :: bool where
  "test_decode_update_with_key \<longleftrightarrow>
     decode ([bch CHR ''U''] @ be32 7 @ [bch CHR ''K''] @ be16 1 @ test_text_cell ''1'' @
       [bch CHR ''N''] @ be16 2 @ test_text_cell ''2'' @ test_text_cell ''hello'') =
     Inr (Update 7 (Some (TupleData [Text ''1''])) None (TupleData [Text ''2'', Text ''hello'']))"

definition test_decode_update_plain :: bool where
  "test_decode_update_plain \<longleftrightarrow>
     decode ([bch CHR ''U''] @ be32 7 @ [bch CHR ''N''] @ be16 1 @ test_text_cell ''x'') =
     Inr (Update 7 None None (TupleData [Text ''x'']))"

definition test_decode_delete_with_old :: bool where
  "test_decode_delete_with_old \<longleftrightarrow>
     decode ([bch CHR ''D''] @ be32 7 @ [bch CHR ''O''] @ be16 1 @ test_text_cell ''9'') =
     Inr (Delete 7 None (Some (TupleData [Text ''9''])))"

definition test_decode_truncate :: bool where
  "test_decode_truncate \<longleftrightarrow>
     decode ([bch CHR ''T''] @ be32 2 @ [0] @ be32 7 @ be32 9) = Inr (Truncate [7, 9])"

definition test_decode_logical_message :: bool where
  "test_decode_logical_message \<longleftrightarrow>
     decode ([bch CHR ''M'', 1] @ be64 42 @ test_cstr ''pglite_ddl'' @ be32 3 @ bytes_of ''abc'') =
     Inr (Message ''pglite_ddl'' (bytes_of ''abc''))"

definition test_decode_origin_and_type_skipped :: bool where
  "test_decode_origin_and_type_skipped \<longleftrightarrow>
     decode ([bch CHR ''O''] @ be64 5 @ test_cstr ''origin'') = Inr Other \<and>
     decode ([bch CHR ''Y''] @ be32 600 @ test_cstr ''public'' @ test_cstr ''mytype'') = Inr Other"

definition test_decode_truncated_fails :: bool where
  "test_decode_truncated_fails \<longleftrightarrow>
     \<not> is_ok (decode [bch CHR ''B'', 0, 0]) \<and> \<not> is_ok (decode []) \<and> \<not> is_ok (decode (bytes_of ''Z''))"

text \<open>The bytes of a test are the encoding of a well-formed message, so what it decodes to is known.\<close>

lemma decode_test:
  "bs = encode_msg fl lsn m \<Longrightarrow> wf_msg m \<Longrightarrow> decode bs = Inr m"
  using decode_encode_append [of m fl lsn "[]"] by simp

lemmas test_bytes = test_cstr_def test_text_cell_def enc_cstr_def enc_tuple_def enc_column_def enc_old_def
  wf_name_def wf_tuple_def valid_str_def utf8_width_def bytes_of_def

lemma decode_tests:
  "test_decode_begin" "test_decode_commit" "test_decode_relation" "test_decode_insert_with_null_and_toast"
  "test_decode_update_with_key" "test_decode_update_plain" "test_decode_delete_with_old" "test_decode_truncate"
  unfolding test_decode_begin_def test_decode_commit_def test_decode_relation_def
    test_decode_insert_with_null_and_toast_def test_decode_update_with_key_def test_decode_update_plain_def
    test_decode_delete_with_old_def test_decode_truncate_def
  by (rule decode_test [of _ 0 0], simp add: test_bytes, simp add: test_bytes)+

lemma decode_logical_message_test: "test_decode_logical_message"
  unfolding test_decode_logical_message_def by (rule decode_test [of _ 1 42]) (simp_all add: test_bytes)

lemma decode_skipped_test: "test_decode_origin_and_type_skipped"
  unfolding test_decode_origin_and_type_skipped_def by (simp add: decode_Cons)

lemma decode_truncated_test: "test_decode_truncated_fails"
  unfolding test_decode_truncated_fails_def
  by (simp add: decode_Nil decode_Cons decode_begin_def cur_u64_def cur_take_def cur_at_def bytes_of_def)

section \<open>meta.rs\<close>

definition test_lsn_round_trip :: bool where
  "test_lsn_round_trip \<longleftrightarrow>
     (\<forall>s \<in> set [''0/0'', ''16/B374D848'', ''FFFFFFFF/FFFFFFFF'', ''1/0'']. mapR to_pg_str (from_pg_str s) = Inr s)"

definition test_lsn_value :: bool where
  "test_lsn_value \<longleftrightarrow>
     from_pg_str ''0/1'' = Inr (Lsn 1) \<and> from_pg_str ''1/0'' = Inr (Lsn (push_bit 32 1)) \<and>
     from_pg_str ''16/B374D848'' = Inr (Lsn (push_bit 32 0x16 OR 0xB374D848))"

definition test_lsn_ordering :: bool where
  "test_lsn_ordering \<longleftrightarrow>
     (case (from_pg_str ''0/FFFFFFFF'', from_pg_str ''1/0'') of (Inr a, Inr b) \<Rightarrow> a < b | _ \<Rightarrow> False) \<and> Lsn 5 \<le> Lsn 5"

definition test_lsn_rejects_garbage :: bool where
  "test_lsn_rejects_garbage \<longleftrightarrow>
     (\<forall>s \<in> set [[], ''16'', ''16/'', ''/848'', ''xx/yy'', ''100000000/0'', ''16/B374D848/9'']. \<not> is_ok (from_pg_str s))"

definition test_lsn_lowercase_accepted :: bool where
  "test_lsn_lowercase_accepted \<longleftrightarrow>
     is_ok (from_pg_str ''16/b374d848'') \<and> from_pg_str ''16/b374d848'' = from_pg_str ''16/B374D848''"

lemmas test_lsn = lsn_parse_spec parse_radix_def digit_val_def to_radix.simps digit_char_def to_pg_str_def

lemma char_of_eq: "c = char_of n \<longleftrightarrow> take_bit 8 n = (of_char c :: nat)"
  by (metis char_of_eq_iff)

lemma lsn_round_trip_test: "test_lsn_round_trip"
  unfolding test_lsn_round_trip_def by (simp add: test_lsn char_of_eq)

lemma lsn_value_test: "test_lsn_value"
  unfolding test_lsn_value_def by (simp add: test_lsn)

lemma lsn_ordering_test: "test_lsn_ordering"
  unfolding test_lsn_ordering_def by (simp add: test_lsn less_lsn_def less_eq_lsn_def)

lemma lsn_rejects_garbage_test: "test_lsn_rejects_garbage"
  unfolding test_lsn_rejects_garbage_def by (simp add: test_lsn)

lemma lsn_lowercase_accepted_test: "test_lsn_lowercase_accepted"
  unfolding test_lsn_lowercase_accepted_def by (simp add: test_lsn)

end
