(* ===== verification/SqlTests.thy ===== *)
theory SqlTests
  imports Replica
begin

text \<open>
  The unit tests of \<^verbatim>\<open>replica/mod.rs\<close>, translated as those of the decoder are: a definition says whether the
  assertions of the test hold of the model, a lemma evaluates it. The text of an error is that of its \<open>Display\<close>.
\<close>

section \<open>Helpers\<close>

fun str_contains :: "string \<Rightarrow> string \<Rightarrow> bool" where
  "str_contains s sub = (take (length sub) s = sub \<or> (case s of [] \<Rightarrow> False | _ # cs \<Rightarrow> str_contains cs sub))"

declare str_contains.simps [simp del]

definition fails_with :: "'a res \<Rightarrow> string \<Rightarrow> bool" where
  "fails_with r sub = (case r of Inl e \<Rightarrow> str_contains (error_to_string e) sub | Inr _ \<Rightarrow> False)"

definition test_rel :: rel where
  "test_rel =
     \<lparr>rel_schema = ''public'', rel_name = ''todos'',
      rel_columns =
        [\<lparr>flags = 1, col_name = ''id'', type_oid = 23, type_modifier = -1\<rparr>,
         \<lparr>flags = 0, col_name = ''title'', type_oid = 25, type_modifier = -1\<rparr>]\<rparr>"

text \<open>Double quotes in the expected texts are written as back quotes, single quotes as carets.\<close>

definition quotes :: "string \<Rightarrow> string" where
  "quotes s = map (\<lambda>c. if c = CHR 0x60 then dq else if c = CHR ''^'' then sq else c) s"

section \<open>Statements\<close>

definition test_ident_and_lit_escape :: bool where
  "test_ident_and_lit_escape \<longleftrightarrow>
     ident ''plain'' = quotes ''`plain`'' \<and> ident (quotes ''we`ird'') = quotes ''`we``ird`'' \<and>
     lit (quotes ''o^brien'') = quotes ''^o^^brien^'' \<and> lit ''plain'' = quotes ''^plain^''"

definition test_insert_sql_builds :: bool where
  "test_insert_sql_builds \<longleftrightarrow>
     mapR fst (insert_sql test_rel (TupleData [Text ''1'', Text (quotes ''it^s done'')])) =
     Inr (quotes ''INSERT INTO `public`.`todos` (`id`, `title`) VALUES (^1^, ^it^^s done^)'')"

definition test_insert_sql_null :: bool where
  "test_insert_sql_null \<longleftrightarrow>
     mapR fst (insert_sql test_rel (TupleData [Text ''1'', Null])) =
     Inr (quotes ''INSERT INTO `public`.`todos` (`id`, `title`) VALUES (^1^, NULL)'')"

definition test_update_sql_key_from_new_tuple :: bool where
  "test_update_sql_key_from_new_tuple \<longleftrightarrow>
     mapR fst (update_sql test_rel None None (TupleData [Text ''1'', Text ''new''])) =
     Inr (quotes ''UPDATE `public`.`todos` SET `id` = ^1^, `title` = ^new^ WHERE `id` = ^1^'')"

definition test_update_sql_skips_unchanged_toast :: bool where
  "test_update_sql_skips_unchanged_toast \<longleftrightarrow>
     mapR fst (update_sql test_rel None None (TupleData [Text ''1'', UnchangedToast])) =
     Inr (quotes ''UPDATE `public`.`todos` SET `id` = ^1^ WHERE `id` = ^1^'')"

definition test_update_sql_uses_key_tuple :: bool where
  "test_update_sql_uses_key_tuple \<longleftrightarrow>
     mapR fst (update_sql test_rel (Some (TupleData [Text ''1'', Null])) None (TupleData [Text ''2'', Text ''moved''])) =
     Inr (quotes ''UPDATE `public`.`todos` SET `id` = ^2^, `title` = ^moved^ WHERE `id` = ^1^'')"

definition test_delete_sql_uses_full_old_tuple :: bool where
  "test_delete_sql_uses_full_old_tuple \<longleftrightarrow>
     mapR fst (delete_sql test_rel None (Some (TupleData [Text ''1'', Null]))) =
     Inr (quotes (''DELETE FROM `public`.`todos` WHERE `id` IS NOT DISTINCT FROM ^1^ '' @
       ''AND `title` IS NOT DISTINCT FROM NULL''))"

definition test_delete_sql_key_tuple :: bool where
  "test_delete_sql_key_tuple \<longleftrightarrow>
     (case delete_sql test_rel (Some (TupleData [Text ''9'', Null])) None of
        Inr (stmt, ChDelete _ _ key) \<Rightarrow>
          stmt = quotes ''DELETE FROM `public`.`todos` WHERE `id` = ^9^'' \<and> key = [(''id'', Some ''9'')]
      | _ \<Rightarrow> False)"

definition test_no_identity_halts :: bool where
  "test_no_identity_halts \<longleftrightarrow>
     (let no_key = \<lparr>rel_schema = ''public'', rel_name = ''nokey'',
            rel_columns = [\<lparr>flags = 0, col_name = ''v'', type_oid = 25, type_modifier = -1\<rparr>]\<rparr>
      in fails_with (delete_sql no_key None None) ''no key available'' \<and>
         fails_with (update_sql no_key None None (TupleData [Text ''x''])) ''no replica identity'')"

definition test_arity_mismatch_fails :: bool where
  "test_arity_mismatch_fails \<longleftrightarrow> \<not> is_ok (insert_sql test_rel (TupleData [Text ''1'']))"

lemmas test_sql = test_rel_def quotes_def ident_def lit_def replace_char_def target_def target_of_def
  insert_sql_def update_sql_def delete_sql_def where_clause_def check_arity_def fails_with_def

lemma ident_and_lit_escape_test: "test_ident_and_lit_escape"
  unfolding test_ident_and_lit_escape_def by (simp add: test_sql)

lemma insert_tests: "test_insert_sql_builds" "test_insert_sql_null"
  unfolding test_insert_sql_builds_def test_insert_sql_null_def by (simp_all add: test_sql)

lemma update_tests:
  "test_update_sql_key_from_new_tuple" "test_update_sql_skips_unchanged_toast" "test_update_sql_uses_key_tuple"
  unfolding test_update_sql_key_from_new_tuple_def test_update_sql_skips_unchanged_toast_def
    test_update_sql_uses_key_tuple_def
  by (simp_all add: test_sql)

lemma delete_tests: "test_delete_sql_uses_full_old_tuple" "test_delete_sql_key_tuple"
  unfolding test_delete_sql_uses_full_old_tuple_def test_delete_sql_key_tuple_def by (simp_all add: test_sql)

lemma no_identity_halts_test: "test_no_identity_halts"
  unfolding test_no_identity_halts_def by (simp add: test_sql Let_def rel_label_def str_contains.simps)

lemma arity_mismatch_fails_test: "test_arity_mismatch_fails"
  unfolding test_arity_mismatch_fails_def by (simp add: test_sql)

section \<open>The thread\<close>

fun delays :: "nat \<Rightarrow> ('w, 'm) rep_scheme \<Rightarrow> nat list \<times> ('w, 'm) rep_scheme" where
  "delays 0 r = ([], r)"
| "delays (Suc n) r = (case next_delay r of (d, r) \<Rightarrow> case delays n r of (ds, r) \<Rightarrow> (d # ds, r))"

definition test_backoff_doubles_to_cap_and_resets :: bool where
  "test_backoff_doubles_to_cap_and_resets \<longleftrightarrow>
     (let (ds, r) = delays 3 (new_replica ());
          (_, r) = delays 20 r;
          (d, r) = next_delay r
      in ds = [from_millis 25, from_millis 50, from_millis 100] \<and> d = backoff_max \<and>
         fst (next_delay (reset_delay r)) = from_millis 25)"

text \<open>The clock of the model ticks only while it sleeps, so a sleep that is interrupted at once takes no time.\<close>

definition test_backoff_sleep_interrupted_by_done :: "'w env \<Rightarrow> 'w \<Rightarrow> bool" where
  "test_backoff_sleep_interrupted_by_done env w \<longleftrightarrow>
     (let (_, r) = delays 20 (new_replica w);
          r = r\<lparr>rp_done := True\<rparr>;
          (ended, r') = sleep_done_aware 1 env r
      in ended \<and> rp_world r' = rp_world r)"

definition test_error_classification :: bool where
  "test_error_classification \<longleftrightarrow>
     \<not> is_fatal (Upstream ''eof'') \<and> \<not> is_fatal (Io OtherKind ''net'') \<and>
     (\<forall>transient \<in> set [''55006'', ''57P01'', ''57P02'', ''57P03'']. \<not> is_fatal (Database transient [] None None)) \<and>
     is_fatal (ReplicaHalted ''drift'') \<and> is_fatal (Protocol ''bad'') \<and> is_fatal Closed \<and>
     is_fatal (Database ''55000'' [] None None)"

definition test_fingerprint_line_matches_between_sources :: bool where
  "test_fingerprint_line_matches_between_sources \<longleftrightarrow>
     (let from_introspect = fingerprint_line ''public'' ''todos'' [(''id'', 23), (''title'', 25)];
          from_relation = fingerprint_line (rel_schema test_rel) (rel_name test_rel)
            (map (\<lambda>c. (col_name c, type_oid c)) (rel_columns test_rel))
      in from_introspect = from_relation \<and> from_introspect = ''public|todos|id:23|title:25'')"

lemma min_double: "min (min (d * 2) m * 2 ^ i) m = min (d * 2 ^ Suc i) (m::nat)"
proof (cases "d * 2 \<le> m")
  case False
  then have "m \<le> d * 2 * 2 ^ i" by (metis le_trans linear mult_le_mono2 nat_mult_1_right one_le_numeral one_le_power)
  moreover have "m \<le> m * 2 ^ i" by simp
  ultimately show ?thesis using False by (simp add: min.absorb2 mult.assoc)
qed (simp add: min_def mult.assoc)

lemma delays_eq:
  "rp_delay r \<le> backoff_max \<Longrightarrow>
     delays n r = (map (\<lambda>i. min (rp_delay r * 2 ^ i) backoff_max) [0..<n], r\<lparr>rp_delay := min (rp_delay r * 2 ^ n) backoff_max\<rparr>)"
proof (induction n arbitrary: r)
  case (Suc n)
  have "[0..<Suc n] = 0 # map Suc [0..<n]" by (simp add: map_Suc_upt upt_conv_Cons del: upt_Suc)
  then show ?case using Suc by (simp add: next_delay_def min_double comp_def del: upt_Suc power_Suc)
qed simp

lemma backoff_doubles_to_cap_and_resets_test: "test_backoff_doubles_to_cap_and_resets"
  unfolding test_backoff_doubles_to_cap_and_resets_def
  by (simp add: delays_eq next_delay_def new_replica_def reset_delay_def backoff_initial_def backoff_max_def Let_def upt_rec)

lemma backoff_sleep_interrupted_by_done_test: "test_backoff_sleep_interrupted_by_done env w"
  unfolding test_backoff_sleep_interrupted_by_done_def
  by (simp add: sleep_done_aware_def next_delay_def is_done_def Let_def split: prod.split)

lemma error_classification_test: "test_error_classification"
  unfolding test_error_classification_def by simp

lemma fingerprint_line_matches_between_sources_test: "test_fingerprint_line_matches_between_sources"
  unfolding test_fingerprint_line_matches_between_sources_def
  by (simp add: test_rel_def fingerprint_line_def fp_col_def show_u32_def to_radix.simps digit_char_def char_of_eq_iff Let_def)

end
