(* ===== verification/SchemaTests.thy ===== *)
theory SchemaTests
  imports SqlTests
begin

text \<open>The unit tests of \<^verbatim>\<open>replica/backfill.rs\<close>, translated as the others are.\<close>

section \<open>Checks and changes\<close>

definition test_column_filter_gates_attnames_on_pg15 :: bool where
  "test_column_filter_gates_attnames_on_pg15 \<longleftrightarrow>
     published_columns_filter 140000 = quotes ''AND a.attgenerated = ^^'' \<and>
     published_columns_filter 150000 = quotes ''AND a.attgenerated = ^^ AND a.attname = ANY(pt.attnames)'' \<and>
     published_columns_filter 170004 = quotes ''AND a.attgenerated = ^^ AND a.attname = ANY(pt.attnames)''"

definition test_publish_ops_requires_all_four :: bool where
  "test_publish_ops_requires_all_four \<longleftrightarrow>
     is_ok (validate_publish_ops ''p'' [True, True, True, True]) \<and>
     (\<forall>missing \<in> set [0..<4].
        let r = validate_publish_ops ''p'' ([True, True, True, True][missing := False])
        in fails_with r ''does not publish'' \<and> fails_with r ''diverge'') \<and>
     fails_with (validate_publish_ops ''p'' [True, False, True, True]) ''update''"

definition test_tdef :: "string list \<Rightarrow> string \<Rightarrow> table_def" where
  "test_tdef pk replica_identity =
     \<lparr>td_schema = ''public'', td_name = ''t'',
      td_columns = [\<lparr>cd_name = ''id'', cd_type_sql = ''integer'', cd_type_oid = 23, cd_not_null = True\<rparr>],
      td_pk = pk, td_replica_identity = replica_identity, td_row_filter = None, td_indexes = []\<rparr>"

definition test_classify_schema_change_additive :: bool where
  "test_classify_schema_change_additive \<longleftrightarrow>
     classify_schema_change ''public|t|id:23'' [(''id'', 23), (''extra'', 25)] = Additive 1 \<and>
     classify_schema_change ''public|t|id:23|name:25'' [(''id'', 23), (''name'', 25)] = Additive 2"

definition is_incompatible :: "schema_change \<Rightarrow> bool" where
  "is_incompatible c = (case c of Incompatible _ \<Rightarrow> True | _ \<Rightarrow> False)"

definition test_classify_schema_change_incompatible :: bool where
  "test_classify_schema_change_incompatible \<longleftrightarrow>
     is_incompatible (classify_schema_change ''public|t|id:23|x:25'' [(''id'', 23)]) \<and>
     is_incompatible (classify_schema_change ''public|t|id:23'' [(''id'', 1700)]) \<and>
     is_incompatible (classify_schema_change ''public|t|a:23|b:25'' [(''b'', 25), (''a'', 23)])"

definition test_replica_identity_nothing_rejected :: bool where
  "test_replica_identity_nothing_rejected \<longleftrightarrow>
     (\<forall>ok \<in> set [''d'', ''f'', ''i'']. is_ok (check_replica_identity ''public'' ''t'' ok)) \<and>
     fails_with (check_replica_identity ''public'' ''t'' ''n'') ''REPLICA IDENTITY NOTHING'' \<and>
     fails_with (check_replica_identity ''public'' ''t'' ''n'') ''public.t''"

lemma column_filter_test: "test_column_filter_gates_attnames_on_pg15"
  unfolding test_column_filter_gates_attnames_on_pg15_def
  by (simp add: published_columns_filter_def sqlq_def quotes_def)

lemma list_update_Cons_numeral: "(x # xs)[numeral k := y] = x # xs[pred_numeral k := y]"
  by (simp add: numeral_eq_Suc)

lemma publish_ops_test: "test_publish_ops_requires_all_four"
  unfolding test_publish_ops_requires_all_four_def
  by (simp add: upt_rec validate_publish_ops_def fails_with_def str_contains.simps list_update_Cons_numeral)

lemmas test_lines = classify_schema_change_def line_cols_def seg_col_def List.map_filter_def rsplit_once_def
  parse_u32_def parse_radix_def digit_val_def Let_def is_incompatible_def

lemma classify_tests: "test_classify_schema_change_additive" "test_classify_schema_change_incompatible"
  unfolding test_classify_schema_change_additive_def test_classify_schema_change_incompatible_def
  by (simp_all add: test_lines)

lemma replica_identity_test: "test_replica_identity_nothing_rejected"
  unfolding test_replica_identity_nothing_rejected_def
  by (simp add: check_replica_identity_def fails_with_def str_contains.simps)

section \<open>Types and tables\<close>

definition test_type_def_create_sql_per_kind :: bool where
  "test_type_def_create_sql_per_kind \<longleftrightarrow>
     create_sql (EnumDef ''public'' ''mood'' [''sad'', ''ok'']) =
       quotes ''CREATE TYPE `public`.`mood` AS ENUM (^sad^, ^ok^)'' \<and>
     create_sql (CompositeDef ''public'' ''addr'' [(''street'', ''text''), (''zip'', ''integer'')]) =
       quotes ''CREATE TYPE `public`.`addr` AS (`street` text, `zip` integer)'' \<and>
     create_sql (DomainDef ''public'' ''pos'' ''integer'' True [''CHECK ((VALUE > 0))'']) =
       quotes ''CREATE DOMAIN `public`.`pos` AS integer NOT NULL CHECK ((VALUE > 0))'' \<and>
     create_sql (RangeDef ''public'' ''floatrange'' ''double precision'') =
       quotes ''CREATE TYPE `public`.`floatrange` AS RANGE (subtype = double precision)''"

definition test_type_def_drop_sql_uses_domain_keyword :: bool where
  "test_type_def_drop_sql_uses_domain_keyword \<longleftrightarrow>
     drop_sql (DomainDef ''public'' ''pos'' ''integer'' False []) = quotes ''DROP DOMAIN IF EXISTS `public`.`pos` CASCADE'' \<and>
     drop_sql (EnumDef ''public'' ''mood'' []) = quotes ''DROP TYPE IF EXISTS `public`.`mood` CASCADE''"

definition test_named :: "u32 \<Rightarrow> type_def" where
  "test_named oid = EnumDef ''public'' (CHR ''t'' # show_u32 oid) []"

definition test_topo_order_emits_dependencies_first :: bool where
  "test_topo_order_emits_dependencies_first \<longleftrightarrow>
     map_option (mapR (map ty_name))
       (topo_order [(3, [2], test_named 3), (1, [], test_named 1), (2, [1], test_named 2)]) =
     Some (Inr [''t1'', ''t2'', ''t3''])"

definition test_topo_order_detects_cycle :: bool where
  "test_topo_order_detects_cycle \<longleftrightarrow>
     (case topo_order [(1, [2], test_named 1), (2, [1], test_named 2)] of
        Some r \<Rightarrow> fails_with r ''cyclic''
      | None \<Rightarrow> False)"

definition test_create_table_sql_includes_pk :: bool where
  "test_create_table_sql_includes_pk \<longleftrightarrow>
     create_table_sql (test_tdef [''id''] ''d'') =
     quotes ''CREATE TABLE `public`.`t` (`id` integer NOT NULL, PRIMARY KEY (`id`))''"

definition test_create_table_sql_omits_pk_for_full_identity_no_pk :: bool where
  "test_create_table_sql_omits_pk_for_full_identity_no_pk \<longleftrightarrow>
     create_table_sql (test_tdef [] ''f'') = quotes ''CREATE TABLE `public`.`t` (`id` integer NOT NULL)''"

lemmas test_ddl = ty_target_def drop_sql_def create_table_sql_def col_sql_def td_target_def test_tdef_def test_sql

lemma type_def_tests: "test_type_def_create_sql_per_kind" "test_type_def_drop_sql_uses_domain_keyword"
  unfolding test_type_def_create_sql_per_kind_def test_type_def_drop_sql_uses_domain_keyword_def
  by (simp_all add: test_ddl)

lemma create_table_tests: "test_create_table_sql_includes_pk" "test_create_table_sql_omits_pk_for_full_identity_no_pk"
  unfolding test_create_table_sql_includes_pk_def test_create_table_sql_omits_pk_for_full_identity_no_pk_def
  by (simp_all add: test_ddl)

lemma topo_dfs_end: "t_err s \<noteq> None \<or> t_stack s = [] \<Longrightarrow> topo_dfs items s = Some s"
  by (subst topo_dfs_def, subst while_option_unfold) auto

lemma topo_dfs_next: "t_err s = None \<Longrightarrow> t_stack s \<noteq> [] \<Longrightarrow> topo_dfs items s = topo_dfs items (topo_step items s)"
  unfolding topo_dfs_def by (subst while_option_unfold) simp

lemmas test_topo = topo_order_def topo_index_def item_deps_def topo_step_def topo_dfs_end topo_dfs_next Let_def
  upt_rec test_named_def show_u32_def to_radix.simps digit_char_def char_of_eq_iff

lemma topo_order_emits_dependencies_first_test: "test_topo_order_emits_dependencies_first"
  unfolding test_topo_order_emits_dependencies_first_def by (simp add: test_topo)

lemma topo_order_detects_cycle_test: "test_topo_order_detects_cycle"
  unfolding test_topo_order_detects_cycle_def
  by (simp add: test_topo cycle_error_def fails_with_def str_contains.simps)

end
