(* ===== verification/SecurityTests.thy ===== *)
theory SecurityTests
  imports SqlTests
begin

text \<open>The unit tests of \<^verbatim>\<open>replica/backfill.rs\<close> on access control, translated as the others are.\<close>

section \<open>Policies\<close>

definition test_create_policy_sql_permissive_with_using :: bool where
  "test_create_policy_sql_permissive_with_using \<longleftrightarrow>
     create_policy_sql
       \<lparr>po_schema = ''public'', po_table = ''orders'', po_name = ''p_org'', po_permissive = True, po_cmd = ''SELECT'',
        po_roles = [''authenticated''], po_using = Some ''org_id = 7'', po_check = None\<rparr>
       (ident ''public'' @ ''.'' @ ident ''orders'') =
     quotes (''CREATE POLICY `p_org` ON `public`.`orders` AS PERMISSIVE FOR SELECT '' @
       ''TO `authenticated` USING (org_id = 7)'')"

definition test_create_policy_sql_restrictive_public_with_check :: bool where
  "test_create_policy_sql_restrictive_public_with_check \<longleftrightarrow>
     create_policy_sql
       \<lparr>po_schema = ''public'', po_table = ''orders'', po_name = ''p_all'', po_permissive = False, po_cmd = ''ALL'',
        po_roles = [''public''], po_using = Some ''true'', po_check = Some ''amount > 0''\<rparr>
       (ident ''public'' @ ''.'' @ ident ''orders'') =
     quotes (''CREATE POLICY `p_all` ON `public`.`orders` AS RESTRICTIVE FOR ALL '' @
       ''TO PUBLIC USING (true) WITH CHECK (amount > 0)'')"

definition test_create_policy_sql_escapes_each_role :: bool where
  "test_create_policy_sql_escapes_each_role \<longleftrightarrow>
     str_contains
       (create_policy_sql
          \<lparr>po_schema = ''public'', po_table = ''t'', po_name = ''p'', po_permissive = True, po_cmd = ''SELECT'',
           po_roles = [quotes ''we`ird'', ''a,b''], po_using = None, po_check = None\<rparr>
          (ident ''public'' @ ''.'' @ ident ''t''))
       (quotes ''TO `we``ird`, `a,b`'')"

lemma create_policy_tests:
  "test_create_policy_sql_permissive_with_using" "test_create_policy_sql_restrictive_public_with_check"
  "test_create_policy_sql_escapes_each_role"
  unfolding test_create_policy_sql_permissive_with_using_def test_create_policy_sql_restrictive_public_with_check_def
    test_create_policy_sql_escapes_each_role_def
  by (simp_all add: create_policy_sql_def test_sql str_contains.simps)

section \<open>Fingerprint\<close>

definition test_catalog_a :: security_catalog where
  "test_catalog_a =
     \<lparr>sc_roles = [\<lparr>ro_name = ''authenticated'', ro_inherit = True\<rparr>, \<lparr>ro_name = ''anon'', ro_inherit = False\<rparr>],
      sc_memberships = [],
      sc_tables = [\<lparr>rl_schema = ''public'', rl_table = ''orders'', rl_enabled = True, rl_forced = True\<rparr>],
      sc_grants = [\<lparr>gr_schema = ''public'', gr_table = ''orders'', gr_grantee = ''authenticated''\<rparr>],
      sc_policies = []\<rparr>"

definition test_catalog_b :: security_catalog where
  "test_catalog_b = test_catalog_a\<lparr>sc_roles :=
     [\<lparr>ro_name = ''anon'', ro_inherit = False\<rparr>, \<lparr>ro_name = ''authenticated'', ro_inherit = True\<rparr>]\<rparr>"

definition test_security_fingerprint_is_order_independent :: bool where
  "test_security_fingerprint_is_order_independent \<longleftrightarrow>
     security_fingerprint test_catalog_a = security_fingerprint test_catalog_b \<and>
     str_contains (security_fingerprint test_catalog_a) ''rls|public|orders|1|1'' \<and>
     (let c = test_catalog_b\<lparr>sc_roles := (sc_roles test_catalog_b)[0 := (hd (sc_roles test_catalog_b))\<lparr>ro_inherit := True\<rparr>]\<rparr>
      in security_fingerprint test_catalog_a \<noteq> security_fingerprint c)"

definition test_sample_catalog :: security_catalog where
  "test_sample_catalog =
     \<lparr>sc_roles = [\<lparr>ro_name = ''r'', ro_inherit = True\<rparr>],
      sc_memberships = [\<lparr>me_grp = ''g'', me_member = ''r'', me_admin = False\<rparr>],
      sc_tables = [\<lparr>rl_schema = ''public'', rl_table = ''t'', rl_enabled = True, rl_forced = True\<rparr>],
      sc_grants = [\<lparr>gr_schema = ''public'', gr_table = ''t'', gr_grantee = ''r''\<rparr>],
      sc_policies =
        [\<lparr>po_schema = ''public'', po_table = ''t'', po_name = ''p'', po_permissive = True, po_cmd = ''SELECT'',
          po_roles = [''r''], po_using = Some ''a = 1'', po_check = None\<rparr>]\<rparr>"

definition test_security_fingerprint_detects_each_dimension :: bool where
  "test_security_fingerprint_detects_each_dimension \<longleftrightarrow>
     (let s = test_sample_catalog; base = security_fingerprint s;
          policy = hd (sc_policies s)
      in security_fingerprint (s\<lparr>sc_grants := [(hd (sc_grants s))\<lparr>gr_grantee := ''other''\<rparr>]\<rparr>) \<noteq> base \<and>
         security_fingerprint (s\<lparr>sc_memberships := [(hd (sc_memberships s))\<lparr>me_admin := True\<rparr>]\<rparr>) \<noteq> base \<and>
         security_fingerprint (s\<lparr>sc_tables := [(hd (sc_tables s))\<lparr>rl_forced := False\<rparr>]\<rparr>) \<noteq> base \<and>
         security_fingerprint (s\<lparr>sc_policies := [policy\<lparr>po_using := Some ''a = 2''\<rparr>]\<rparr>) \<noteq> base \<and>
         security_fingerprint (s\<lparr>sc_policies := [policy\<lparr>po_permissive := False\<rparr>]\<rparr>) \<noteq> base \<and>
         security_fingerprint (s\<lparr>sc_policies := []\<rparr>) \<noteq> base)"

lemmas test_security = security_fingerprint_def role_line_def member_line_def rls_line_def grant_line_def
  policy_line_def bit_str_def opt_str_def

lemma security_fingerprint_is_order_independent_test: "test_security_fingerprint_is_order_independent"
  unfolding test_security_fingerprint_is_order_independent_def
  by (simp add: test_security test_catalog_a_def test_catalog_b_def str_contains.simps less_eq_char_def Let_def)

lemma security_fingerprint_detects_each_dimension_test: "test_security_fingerprint_detects_each_dimension"
  unfolding test_security_fingerprint_detects_each_dimension_def
  by (simp add: test_security test_sample_catalog_def less_eq_char_def Let_def)

end
